(* ===== verification/Prelude.thy ===== *)
theory Prelude
  imports Complex_Main Main "HOL-Library.Word" "HOL-Library.Char_ord" "HOL-Library.Sublist"
begin

text \<open>
  Shared vocabulary of the development. A C++ \<open>std::string\<close> is a list of bytes, here an
  Isabelle \<open>string\<close> (a \<open>char\<close> is eight bits); unsigned machine integers are words of their
  width; \<open>std::size_t\<close> values that only ever count bytes of an in-memory string are \<open>nat\<close>.
  The theory models the members of \<open>std::string\<close>, \<open><cctype>\<close> (in the "C" locale) and the
  number-to-text conversions that several components of the program call, and proves the facts
  about them that the components share. The collections \<open>byte_simps\<close> (bytes and bit masks as
  arithmetic on \<open>nat\<close>) and \<open>find_simps\<close> (searches in strings) are filled here.
\<close>

unbundle bit_operations_syntax

named_theorems byte_simps "bytes, masks and shifts as arithmetic on nat"
named_theorems find_simps "searching in strings"

type_synonym u8 = "8 word"
type_synonym u16 = "16 word"
type_synonym u32 = "32 word"
type_synonym u64 = "64 word"

section \<open>Bytes\<close>

text \<open>
  \<open>byte_of\<close> is \<open>static_cast<unsigned>(static_cast<unsigned char>(c))\<close>;
  \<open>char_of_word\<close> is \<open>static_cast<char>(w)\<close>, which keeps the low eight bits.
\<close>

abbreviation code :: "char \<Rightarrow> nat" where
  "code c \<equiv> of_char c"

definition byte_of :: "char \<Rightarrow> 'a::len word" where
  "byte_of c = of_nat (code c)"

definition char_of_word :: "'a::len word \<Rightarrow> char" where
  "char_of_word w = char_of (unat w)"

lemma code_less [simp]: "code c < 256"
  using of_char_of [of "of_char c :: nat"] of_char_mod_256 [of c]
  by (metis mod_less_divisor zero_less_numeral)

lemma code_char_of [simp, byte_simps]: "code (char_of n) = n mod 256"
  by (simp add: of_char_of)

lemma unat_byte_of: "8 \<le> LENGTH('a) \<Longrightarrow> unat (byte_of c :: 'a::len word) = code c"
proof -
  assume "8 \<le> LENGTH('a)"
  then have "(2::nat) ^ 8 \<le> 2 ^ LENGTH('a)" by (rule power_increasing) simp
  then have "code c < 2 ^ LENGTH('a)" using less_le_trans [OF code_less] by simp
  then show ?thesis by (simp add: byte_of_def unat_of_nat)
qed

lemma unat_byte_of_u32 [simp, byte_simps]: "unat (byte_of c :: u32) = code c"
  by (simp add: unat_byte_of)

lemma unat_byte_of_u64 [simp, byte_simps]: "unat (byte_of c :: u64) = code c"
  by (simp add: unat_byte_of)

lemma unat_byte_of_u8 [simp, byte_simps]: "unat (byte_of c :: u8) = code c"
  by (simp add: unat_byte_of)

lemma code_char_of_word [simp, byte_simps]: "code (char_of_word w) = unat w mod 256"
  by (simp add: char_of_word_def)

lemma char_of_word_byte_of: "8 \<le> LENGTH('a) \<Longrightarrow> char_of_word (byte_of c :: 'a::len word) = c"
  by (simp add: char_of_word_def unat_byte_of)

lemma char_eq_code: "c = d \<longleftrightarrow> code c = code d"
  by (metis char_of_char)

lemma nat_and_masks [byte_simps]:
  "(x::nat) AND 63 = x mod 64" "(x::nat) AND 31 = x mod 32" "(x::nat) AND 15 = x mod 16"
  "(x::nat) AND 7 = x mod 8" "(x::nat) AND 255 = x mod 256"
  using take_bit_eq_mask [of 6 x] take_bit_eq_mask [of 5 x] take_bit_eq_mask [of 4 x]
    take_bit_eq_mask [of 3 x] take_bit_eq_mask [of 8 x]
  by (simp_all add: take_bit_eq_mod mask_eq_exp_minus_1)

lemma or_eq_add: "b < 2 ^ k \<Longrightarrow> push_bit k a OR b = push_bit k a + (b::nat)"
proof -
  assume b: "b < 2 ^ k"
  have "push_bit k a AND b = 0"
  proof (rule bit_eqI)
    fix n
    have "bit b n \<Longrightarrow> n < k"
      using b by (metis bit_take_bit_iff take_bit_nat_eq_self)
    then show "bit (push_bit k a AND b) n = bit 0 n" by (auto simp: bit_simps)
  qed
  then show ?thesis by (simp add: disjunctive_add_eq_or)
qed

lemma or_eq_add_mult: "b < 2 ^ k \<Longrightarrow> (a * 2 ^ k) OR b = a * 2 ^ k + (b::nat)"
  using or_eq_add [of b k a] by (simp add: push_bit_eq_mult)

lemma and_high_mask:
  assumes "x < 2 ^ (k + m)"
  shows "(x::nat) AND push_bit k (mask m) = x div 2 ^ k * 2 ^ k"
proof -
  have "x AND push_bit k (mask m) = push_bit k (take_bit m (drop_bit k x))"
    by (rule bit_eqI) (auto simp: bit_simps)
  moreover have "drop_bit k x < 2 ^ m"
    using assms by (simp add: drop_bit_eq_div power_add less_mult_imp_div_less mult.commute)
  ultimately show ?thesis by (simp add: take_bit_nat_eq_self push_bit_eq_mult drop_bit_eq_div)
qed

lemma nat_and_high_masks [byte_simps]:
  "x < 256 \<Longrightarrow> (x::nat) AND 224 = x div 32 * 32" "x < 256 \<Longrightarrow> (x::nat) AND 240 = x div 16 * 16"
  "x < 256 \<Longrightarrow> (x::nat) AND 248 = x div 8 * 8" "x < 256 \<Longrightarrow> (x::nat) AND 192 = x div 64 * 64"
  using and_high_mask [of x 5 3] and_high_mask [of x 4 4] and_high_mask [of x 3 5]
    and_high_mask [of x 6 2]
  by (simp_all add: mask_eq_exp_minus_1 push_bit_eq_mult)

lemma nat_or_prefix [byte_simps]:
  "x < 32 \<Longrightarrow> 192 OR x = 192 + (x::nat)" "x < 16 \<Longrightarrow> 224 OR x = 224 + (x::nat)"
  "x < 8 \<Longrightarrow> 240 OR x = 240 + (x::nat)" "x < 64 \<Longrightarrow> 128 OR x = 128 + (x::nat)"
  using or_eq_add_mult [of x 5 6] or_eq_add_mult [of x 4 14] or_eq_add_mult [of x 3 30]
    or_eq_add_mult [of x 6 2]
  by simp_all

lemma unat_drop_bit [byte_simps]: "unat (drop_bit n (w :: 'a::len word)) = unat w div 2 ^ n"
proof -
  have "unat (drop_bit n w) = drop_bit n (take_bit LENGTH('a) (unat w))"
    by (rule unsigned_drop_bit_eq)
  also have "\<dots> = drop_bit n (unat w)" by (simp only: take_bit_nat_eq_self [OF unsigned_less])
  also have "\<dots> = unat w div 2 ^ n" by (rule drop_bit_eq_div)
  finally show ?thesis .
qed

lemma unat_of_nat_u32: "n < 2 ^ 32 \<Longrightarrow> unat (of_nat n :: u32) = n"
  by (simp add: unat_of_nat)

lemma unat_of_nat_u64: "n < 2 ^ 64 \<Longrightarrow> unat (of_nat n :: u64) = n"
  by (simp add: unat_of_nat)

lemma unat_push_bit:
  "unat (w :: 'a::len word) * 2 ^ n < 2 ^ LENGTH('a) \<Longrightarrow> unat (push_bit n w) = unat w * 2 ^ n"
  by (simp only: unsigned_push_bit_eq) (simp add: push_bit_eq_mult take_bit_eq_mod)

text \<open>Appending six payload bits to an accumulator that leaves room for them.\<close>

lemma unat_push6:
  assumes "unat (cp :: u32) < 2 ^ 26"
  shows "unat (push_bit 6 cp OR (byte_of c AND 0x3F)) = unat cp * 64 + code c mod 64"
proof -
  have "unat (push_bit 6 cp) = unat cp * 64"
    using assms unat_push_bit [of cp 6] by simp
  then show ?thesis
    using or_eq_add_mult [of "code c mod 64" 6 "unat cp"]
    by (simp only: unsigned_or_eq unsigned_and_eq) (simp add: nat_and_masks)
qed

lemmas unat_bit_ops [byte_simps] =
  unsigned_or_eq unsigned_and_eq

section \<open>Character classes of the C locale\<close>

definition is_space :: "char \<Rightarrow> bool" where
  "is_space c \<longleftrightarrow> code c = 32 \<or> (9 \<le> code c \<and> code c \<le> 13)"

definition is_digit :: "char \<Rightarrow> bool" where
  "is_digit c \<longleftrightarrow> 48 \<le> code c \<and> code c \<le> 57"

definition is_upper :: "char \<Rightarrow> bool" where
  "is_upper c \<longleftrightarrow> 65 \<le> code c \<and> code c \<le> 90"

definition is_lower :: "char \<Rightarrow> bool" where
  "is_lower c \<longleftrightarrow> 97 \<le> code c \<and> code c \<le> 122"

definition is_punct :: "char \<Rightarrow> bool" where
  "is_punct c \<longleftrightarrow> 33 \<le> code c \<and> code c \<le> 126 \<and> \<not> is_digit c \<and> \<not> is_upper c \<and> \<not> is_lower c"

definition lower_char :: "char \<Rightarrow> char" where
  "lower_char c = (if is_upper c then char_of (code c + 32) else c)"

lemma lower_char_idem [simp]: "lower_char (lower_char c) = lower_char c"
  by (simp add: lower_char_def is_upper_def)

section \<open>Trimming\<close>

text \<open>Erases leading and trailing white space, as the two \<open>erase\<close>/\<open>find_if\<close> calls do.\<close>

definition trim :: "string \<Rightarrow> string" where
  "trim s = rev (dropWhile is_space (rev (dropWhile is_space s)))"

lemma dropWhile_hd: "dropWhile P xs \<noteq> [] \<Longrightarrow> \<not> P (hd (dropWhile P xs))"
  by (rule hd_dropWhile)

lemma trim_last: "trim s \<noteq> [] \<Longrightarrow> \<not> is_space (last (trim s))"
  unfolding trim_def by (simp add: last_rev hd_dropWhile)

lemma hd_rev_dropWhile_rev:
  "rev (dropWhile P (rev xs)) \<noteq> [] \<Longrightarrow> hd (rev (dropWhile P (rev xs))) = hd xs"
proof -
  assume ne: "rev (dropWhile P (rev xs)) \<noteq> []"
  obtain ys where "rev xs = ys @ dropWhile P (rev xs)"
    by (metis takeWhile_dropWhile_id)
  then have "xs = rev (dropWhile P (rev xs)) @ rev ys"
    by (metis rev_append rev_rev_ident)
  then show ?thesis using ne by (metis hd_append2)
qed

lemma trim_hd: "trim s \<noteq> [] \<Longrightarrow> \<not> is_space (hd (trim s))"
  unfolding trim_def using hd_rev_dropWhile_rev [of is_space "dropWhile is_space s"]
  by (metis dropWhile_eq_Nil_conv hd_dropWhile rev.simps(1) rev_is_Nil_conv dropWhile.simps(1))

lemma trim_eq_selfI: "s = [] \<or> (\<not> is_space (hd s) \<and> \<not> is_space (last s)) \<Longrightarrow> trim s = s"
proof -
  assume "s = [] \<or> (\<not> is_space (hd s) \<and> \<not> is_space (last s))"
  moreover have "s \<noteq> [] \<Longrightarrow> \<not> is_space (hd s) \<Longrightarrow> \<not> is_space (last s) \<Longrightarrow> trim s = s"
    unfolding trim_def
    by (metis dropWhile_eq_self_iff hd_rev rev_is_Nil_conv rev_rev_ident)
  moreover have "trim [] = []" by (simp add: trim_def)
  ultimately show ?thesis by auto
qed

lemma trim_idem [simp]: "trim (trim s) = trim s"
  by (rule trim_eq_selfI) (use trim_hd trim_last in blast)

section \<open>Searching\<close>

text \<open>
  \<open>std::string::find\<close>, \<open>find_first_of\<close>, \<open>rfind(p, 0) == 0\<close> and \<open>substr\<close>;
  \<open>std::string::npos\<close> is \<open>None\<close>.
\<close>

fun str_find :: "string \<Rightarrow> string \<Rightarrow> nat option" where
  "str_find p [] = (if p = [] then Some 0 else None)"
| "str_find p (c # cs) = (if prefix p (c # cs) then Some 0 else map_option Suc (str_find p cs))"

definition find_from :: "string \<Rightarrow> string \<Rightarrow> nat \<Rightarrow> nat option" where
  "find_from p s pos =
     (if length s < pos then None else map_option ((+) pos) (str_find p (drop pos s)))"

fun find_if :: "('a \<Rightarrow> bool) \<Rightarrow> 'a list \<Rightarrow> nat option" where
  "find_if P [] = None"
| "find_if P (c # cs) = (if P c then Some 0 else map_option Suc (find_if P cs))"

definition find_first_of :: "string \<Rightarrow> string \<Rightarrow> nat \<Rightarrow> nat option" where
  "find_first_of cs s pos =
     (if length s < pos then None
      else map_option ((+) pos) (find_if (\<lambda>c. c \<in> set cs) (drop pos s)))"

definition rfind_char :: "char \<Rightarrow> string \<Rightarrow> nat option" where
  "rfind_char c s = map_option (\<lambda>i. length s - 1 - i) (find_if (\<lambda>d. d = c) (rev s))"

abbreviation contains :: "string \<Rightarrow> string \<Rightarrow> bool" where
  "contains s p \<equiv> str_find p s \<noteq> None"

text \<open>\<open>s.substr(i, j - i)\<close> where \<open>j\<close> is a found position or the end of the string.\<close>

definition slice :: "string \<Rightarrow> nat \<Rightarrow> nat option \<Rightarrow> string" where
  "slice s i j = (case j of None \<Rightarrow> drop i s | Some e \<Rightarrow> take (e - i) (drop i s))"

lemma str_find_Some:
  "str_find p s = Some i \<Longrightarrow>
     i + length p \<le> length s \<and> take (length p) (drop i s) = p \<and> (\<forall>j<i. \<not> prefix p (drop j s))"
proof (induction s arbitrary: i)
  case Nil
  then show ?case by (auto split: if_splits)
next
  case (Cons c cs)
  show ?case
  proof (cases "prefix p (c # cs)")
    case True
    then have "length p \<le> length (c # cs)" "take (length p) (c # cs) = p"
      by (rule prefix_length_le, metis True append_eq_conv_conj prefix_def)
    with True Cons.prems show ?thesis by simp
  next
    case False
    with Cons.prems obtain k where k: "str_find p cs = Some k" and i: "i = Suc k"
      by auto
    have "\<forall>j<Suc k. \<not> prefix p (drop j (c # cs))"
      using False Cons.IH [OF k] by (auto simp: less_Suc_eq_0_disj)
    with i Cons.IH [OF k] show ?thesis by simp
  qed
qed

lemma str_find_None: "str_find p s = None \<Longrightarrow> \<not> prefix p (drop j s)"
proof (induction s arbitrary: j)
  case Nil
  then show ?case by (auto split: if_splits)
next
  case (Cons c cs)
  then show ?case by (cases j) (auto split: if_splits)
qed

lemma str_find_append: "str_find p (p @ s) = Some 0"
proof (cases "p @ s")
  case (Cons c cs)
  then have "prefix p (c # cs)" by (metis prefixI)
  with Cons show ?thesis by simp
qed simp

lemma contains_iff: "contains s p \<longleftrightarrow> (\<exists>a b. s = a @ p @ b)"
proof
  assume "contains s p"
  then obtain i where "str_find p s = Some i" by blast
  then have "take (length p) (drop i s) = p" by (simp add: str_find_Some)
  then have "s = take i s @ p @ drop (length p) (drop i s)"
    by (metis append_take_drop_id)
  then show "\<exists>a b. s = a @ p @ b" by blast
next
  assume "\<exists>a b. s = a @ p @ b"
  then obtain a b where "s = a @ p @ b" by blast
  then have "prefix p (drop (length a) s)" by simp
  then show "contains s p" using str_find_None by blast
qed

lemma find_from_bounds [find_simps]:
  "find_from p s pos = Some i \<Longrightarrow> pos \<le> i \<and> i + length p \<le> length s"
  by (auto simp: find_from_def split: if_splits dest!: str_find_Some)

lemma find_from_match: "find_from p s pos = Some i \<Longrightarrow> take (length p) (drop i s) = p"
  by (auto simp: find_from_def add.commute split: if_splits dest!: str_find_Some)

lemma find_if_Some: "find_if P xs = Some i \<Longrightarrow> i < length xs \<and> P (xs ! i) \<and> (\<forall>j<i. \<not> P (xs ! j))"
proof (induction xs arbitrary: i)
  case Nil
  then show ?case by simp
next
  case (Cons x xs)
  then show ?case by (force simp: less_Suc_eq_0_disj split: if_splits)
qed

lemma find_if_None: "find_if P xs = None \<longleftrightarrow> (\<forall>x\<in>set xs. \<not> P x)"
  by (induction xs) auto

lemma find_if_takeWhile:
  "find_if P xs = Some i \<Longrightarrow> take i xs = takeWhile (\<lambda>x. \<not> P x) xs"
  by (induction xs arbitrary: i) (auto split: if_splits)

lemma find_first_of_bounds [find_simps]:
  "find_first_of cs s pos = Some i \<Longrightarrow> pos \<le> i \<and> i < length s"
  by (auto simp: find_first_of_def split: if_splits dest!: find_if_Some)

lemma slice_find_first_of:
  assumes "pos \<le> length s"
  shows "slice s pos (find_first_of cs s pos) = takeWhile (\<lambda>c. c \<notin> set cs) (drop pos s)"
proof (cases "find_if (\<lambda>c. c \<in> set cs) (drop pos s)")
  case None
  then have tw: "takeWhile (\<lambda>c. c \<notin> set cs) (drop pos s) = drop pos s"
    by (intro takeWhile_eq_all_conv [THEN iffD2]) (auto simp: find_if_None)
  with None assms show ?thesis by (simp only: tw) (simp add: slice_def find_first_of_def)
next
  case (Some i)
  with assms show ?thesis
    by (simp add: slice_def find_first_of_def find_if_takeWhile)
qed

section \<open>Numbers as text\<close>

definition digit_char :: "nat \<Rightarrow> char" where
  "digit_char d = char_of (48 + d)"

fun nat_to_string :: "nat \<Rightarrow> string" where
  "nat_to_string n =
     (if n < 10 then [digit_char n] else nat_to_string (n div 10) @ [digit_char (n mod 10)])"

declare nat_to_string.simps [simp del]

definition int_to_string :: "int \<Rightarrow> string" where
  "int_to_string i = (if i < 0 then CHR ''-'' # nat_to_string (nat (- i)) else nat_to_string (nat i))"

definition digit_val :: "char \<Rightarrow> nat" where
  "digit_val c = code c - 48"

definition digits_val :: "string \<Rightarrow> nat" where
  "digits_val s = foldl (\<lambda>a c. a * 10 + digit_val c) 0 s"

lemma digit_char_is_digit [simp]: "d < 10 \<Longrightarrow> is_digit (digit_char d)"
  by (simp add: is_digit_def digit_char_def)

lemma digit_val_digit_char [simp]: "d < 10 \<Longrightarrow> digit_val (digit_char d) = d"
  by (simp add: digit_val_def digit_char_def)

lemma nat_to_string_digits: "\<forall>c\<in>set (nat_to_string n). is_digit c"
proof (induction n rule: nat_to_string.induct)
  case (1 n)
  then show ?case by (subst nat_to_string.simps) (auto simp: Ball_def)
qed

lemma nat_to_string_ne [simp]: "nat_to_string n \<noteq> []"
  by (subst nat_to_string.simps) simp

lemma digits_val_nat_to_string [simp]: "digits_val (nat_to_string n) = n"
proof (induction n rule: nat_to_string.induct)
  case (1 n)
  show ?case
  proof (cases "n < 10")
    case True
    then show ?thesis by (simp add: nat_to_string.simps [of n] digits_val_def)
  next
    case False
    with "1.IH" have "digits_val (nat_to_string (n div 10)) = n div 10" by simp
    with False show ?thesis by (simp add: nat_to_string.simps [of n] digits_val_def)
  qed
qed

lemma nat_to_string_inj: "nat_to_string m = nat_to_string n \<longleftrightarrow> m = n"
  by (metis digits_val_nat_to_string)

text \<open>
  \<open>std::stol\<close>: white space, an optional sign, a maximal run of decimal digits; trailing
  characters are ignored. \<open>None\<close> is either exception (no digits, or a value outside the 64-bit
  \<open>long\<close>).
\<close>

definition stol :: "string \<Rightarrow> int option" where
  "stol s =
     (let t = dropWhile is_space s;
          neg = (t \<noteq> [] \<and> hd t = CHR ''-'');
          u = (if t \<noteq> [] \<and> (hd t = CHR ''-'' \<or> hd t = CHR ''+'') then tl t else t);
          ds = takeWhile is_digit u;
          v = (if neg then - int (digits_val ds) else int (digits_val ds))
      in if ds = [] then None
         else if v < - (2 ^ 63) \<or> 2 ^ 63 \<le> v then None else Some v)"

lemma stol_nat_to_string: "n < 2 ^ 63 \<Longrightarrow> stol (nat_to_string n) = Some (int n)"
proof -
  assume n: "n < 2 ^ 63"
  obtain c cs where s: "nat_to_string n = c # cs" by (cases "nat_to_string n") auto
  have "is_digit c" using nat_to_string_digits [of n] s by simp
  then have c: "\<not> is_space c" "c \<noteq> CHR ''-''" "c \<noteq> CHR ''+''"
    by (auto simp: is_digit_def is_space_def)
  have tw: "takeWhile is_digit (nat_to_string n) = nat_to_string n"
    using nat_to_string_digits by (simp add: takeWhile_eq_all_conv)
  have "int n < 2 ^ 63" using n by (metis of_nat_less_iff of_nat_numeral of_nat_power)
  moreover have "digits_val (c # cs) = n" by (metis digits_val_nat_to_string s)
  ultimately show ?thesis
    using c tw by (simp add: stol_def Let_def s)
qed

section \<open>Hexadecimal digits\<close>

definition hex_val :: "char \<Rightarrow> nat option" where
  "hex_val c = (if is_digit c then Some (code c - 48)
     else if 97 \<le> code c \<and> code c \<le> 102 then Some (code c - 97 + 10)
     else if 65 \<le> code c \<and> code c \<le> 70 then Some (code c - 65 + 10) else None)"

definition hex_digit :: "nat \<Rightarrow> char" where
  "hex_digit d = ''0123456789abcdef'' ! d"

lemma hex_val_less: "hex_val c = Some d \<Longrightarrow> d < 16"
  by (auto simp: hex_val_def is_digit_def split: if_splits)

lemma hex_digit_cases: "d < 16 \<Longrightarrow> d \<in> set [0..<16]"
  by simp

lemma hex_val_hex_digit [simp]: "d < 16 \<Longrightarrow> hex_val (hex_digit d) = Some d"
proof -
  have "list_all (\<lambda>d. hex_val (hex_digit d) = Some d) [0..<16]" by code_simp
  then show "d < 16 \<Longrightarrow> ?thesis" by (simp add: list_all_iff)
qed

end
