(* ===== verification/Document.thy ===== *)
theory Document
  imports Prelude
begin

text \<open>
  The document model of \<open>include/shadowse/document.hpp\<close>. The field \<open>source\<close> is the enum
  \<open>SourceType\<close>; the identifier and the crawl depth keep their C++ widths.
\<close>

datatype source_type = ClearWeb | Onion

record document =
  doc_id :: u64
  doc_url :: string
  doc_title :: string
  doc_snippet :: string
  doc_content :: string
  doc_source :: source_type
  doc_depth :: u32

definition empty_document :: document where
  "empty_document = \<lparr>doc_id = 0, doc_url = [], doc_title = [], doc_snippet = [],
     doc_content = [], doc_source = ClearWeb, doc_depth = 0\<rparr>"

definition isOnion :: "document \<Rightarrow> bool" where
  "isOnion d \<longleftrightarrow> doc_source d = Onion"

definition indexableText :: "document \<Rightarrow> string" where
  "indexableText d = doc_title d @ CHR 0x0A # doc_snippet d @ CHR 0x0A # doc_content d"

end
