(* ===== verification/Tokenizer.thy ===== *)
theory Tokenizer
  imports Prelude
begin

text \<open>
  The UTF-8 tokenizer of \<open>src/tokenizer.cpp\<close>: decoding one code point, classifying and
  case-folding it, encoding it back and splitting a text into tokens. A \<open>char32_t\<close> is a 32-bit
  word, an offset into the text a \<open>nat\<close>. The lemmas show that decoding always makes progress,
  that it inverts encoding, and that a token is a normal form of the tokenizer.
\<close>

section \<open>Definitions\<close>

definition bad_cp :: u32 where
  "bad_cp = 0xFFFFFFFF"

text \<open>The lead byte: how many bytes the sequence has and the payload bits it carries.\<close>

definition lead_byte :: "u32 \<Rightarrow> (nat \<times> u32) option" where
  "lead_byte c0 =
     (if c0 AND 0xE0 = 0xC0 then Some (2, c0 AND 0x1F)
      else if c0 AND 0xF0 = 0xE0 then Some (3, c0 AND 0x0F)
      else if c0 AND 0xF8 = 0xF0 then Some (4, c0 AND 0x07)
      else None)"

text \<open>The loop over the continuation bytes; \<open>None\<close> is the early return on a bad one.\<close>

fun decode_cont :: "string \<Rightarrow> u32 \<Rightarrow> u32 option" where
  "decode_cont [] cp = Some cp"
| "decode_cont (c # cs) cp =
     (if byte_of c AND 0xC0 \<noteq> (0x80 :: u32) then None
      else decode_cont cs (push_bit 6 cp OR (byte_of c AND 0x3F)))"

definition rejected_cp :: "nat \<Rightarrow> u32 \<Rightarrow> bool" where
  "rejected_cp nbytes cp \<longleftrightarrow>
     (nbytes = 2 \<and> cp < 0x80) \<or> (nbytes = 3 \<and> cp < 0x800) \<or> (nbytes = 4 \<and> cp < 0x10000) \<or>
     (0xD800 \<le> cp \<and> cp \<le> 0xDFFF) \<or> 0x10FFFF < cp"

text \<open>\<open>decodeUtf8\<close> returns the code point and the advanced offset.\<close>

definition decodeUtf8 :: "string \<Rightarrow> nat \<Rightarrow> u32 \<times> nat" where
  "decodeUtf8 text offset =
     (if length text \<le> offset then (bad_cp, offset)
      else let c0 = byte_of (text ! offset) in
        if c0 < 0x80 then (c0, offset + 1)
        else case lead_byte c0 of
            None \<Rightarrow> (bad_cp, offset + 1)
          | Some (nbytes, cp0) \<Rightarrow>
              if length text < offset + nbytes then (bad_cp, offset + 1)
              else case decode_cont (take (nbytes - 1) (drop (offset + 1) text)) cp0 of
                  None \<Rightarrow> (bad_cp, offset + 1)
                | Some cp \<Rightarrow>
                    if rejected_cp nbytes cp then (bad_cp, offset + 1) else (cp, offset + nbytes))"

definition isTokenCharacter :: "u32 \<Rightarrow> bool" where
  "isTokenCharacter cp =
     (if cp = bad_cp then False
      else if cp < 0x80 then
        (0x61 \<le> cp \<and> cp \<le> 0x7A) \<or> (0x41 \<le> cp \<and> cp \<le> 0x5A) \<or> (0x30 \<le> cp \<and> cp \<le> 0x39)
      else if 0x00C0 \<le> cp \<and> cp \<le> 0x00FF \<and> cp \<noteq> 0x00D7 \<and> cp \<noteq> 0x00F7 then True
      else if 0x0100 \<le> cp \<and> cp \<le> 0x02FF then True
      else if (0x0370 \<le> cp \<and> cp \<le> 0x03FF) \<or> (0x1F00 \<le> cp \<and> cp \<le> 0x1FFF) then True
      else if 0x0400 \<le> cp \<and> cp \<le> 0x04FF then True
      else if (0x0590 \<le> cp \<and> cp \<le> 0x05FF) \<or> (0x0600 \<le> cp \<and> cp \<le> 0x06FF) \<or>
              (0x0900 \<le> cp \<and> cp \<le> 0x0DFF) then True
      else if (0x3040 \<le> cp \<and> cp \<le> 0x30FF) \<or> (0x3400 \<le> cp \<and> cp \<le> 0x4DBF) \<or>
              (0x4E00 \<le> cp \<and> cp \<le> 0x9FFF) \<or> (0xAC00 \<le> cp \<and> cp \<le> 0xD7AF) then True
      else False)"

text \<open>The bytes \<open>appendCodepoint\<close> appends to the token buffer.\<close>

definition appendCodepoint :: "string \<Rightarrow> u32 \<Rightarrow> string" where
  "appendCodepoint out cp =
     out @ (if cp < 0x80 then [char_of_word cp]
       else if cp < 0x800 then
         [char_of_word (0xC0 OR drop_bit 6 cp), char_of_word (0x80 OR (cp AND 0x3F))]
       else if cp < 0x10000 then
         [char_of_word (0xE0 OR drop_bit 12 cp),
          char_of_word (0x80 OR (drop_bit 6 cp AND 0x3F)),
          char_of_word (0x80 OR (cp AND 0x3F))]
       else
         [char_of_word (0xF0 OR drop_bit 18 cp),
          char_of_word (0x80 OR (drop_bit 12 cp AND 0x3F)),
          char_of_word (0x80 OR (drop_bit 6 cp AND 0x3F)),
          char_of_word (0x80 OR (cp AND 0x3F))])"

definition foldCase :: "u32 \<Rightarrow> u32" where
  "foldCase cp =
     (if 0x41 \<le> cp \<and> cp \<le> 0x5A then cp + 0x20
      else if 0x00C0 \<le> cp \<and> cp \<le> 0x00DE \<and> cp \<noteq> 0x00D7 then cp + 0x20
      else if 0x0100 \<le> cp \<and> cp \<le> 0x017F \<and> cp AND 1 = 0 then cp + 1
      else if 0x0180 \<le> cp \<and> cp \<le> 0x024F \<and> cp AND 1 = 0 \<and> cp \<noteq> 0x01C4 \<and> cp \<noteq> 0x01C5 \<and>
              cp \<noteq> 0x01C6 \<and> cp \<noteq> 0x01C7 \<and> cp \<noteq> 0x01C8 \<and> cp \<noteq> 0x01C9 \<and> cp \<noteq> 0x01CA \<and>
              cp \<noteq> 0x01CB \<and> cp \<noteq> 0x01CC then cp + 1
      else if 0x0391 \<le> cp \<and> cp \<le> 0x03A9 \<and> cp \<noteq> 0x03A2 then cp + 0x20
      else if 0x0410 \<le> cp \<and> cp \<le> 0x042F then cp + 0x20
      else cp)"

text \<open>Decoding never leaves the text and, inside it, advances by one to four bytes.\<close>

lemma lead_byte_range: "lead_byte c0 = Some (n, cp) \<Longrightarrow> n \<in> {2, 3, 4}"
  by (auto simp: lead_byte_def split: if_splits)

lemma decodeUtf8_progress:
  "offset < length text \<Longrightarrow>
     offset < snd (decodeUtf8 text offset) \<and> snd (decodeUtf8 text offset) \<le> length text \<and>
     snd (decodeUtf8 text offset) \<le> offset + 4"
  by (auto simp: decodeUtf8_def Let_def split: option.splits dest!: lead_byte_range)

text \<open>
  The loop of \<open>tokenize\<close>; the closure \<open>flush\<close> moves a non-empty buffer to the token list.
\<close>

definition flush :: "string list \<Rightarrow> string \<Rightarrow> string list" where
  "flush tokens current = (if current \<noteq> [] then tokens @ [current] else tokens)"

function tokenize_loop :: "string \<Rightarrow> nat \<Rightarrow> string list \<Rightarrow> string \<Rightarrow> string list" where
  "tokenize_loop text offset tokens current =
     (if offset < length text then
        let (cp, offset') = decodeUtf8 text offset in
        if isTokenCharacter cp
        then tokenize_loop text offset' tokens (appendCodepoint current (foldCase cp))
        else tokenize_loop text offset' (flush tokens current) []
      else flush tokens current)"
  by pat_completeness auto
termination
proof (relation "measure (\<lambda>(text, offset, tokens, current). length text - offset)", goal_cases)
  case (2 t off toks cur x cp off')
  then have "off' = snd (decodeUtf8 t off)" by (metis snd_conv)
  with 2 show ?case using decodeUtf8_progress [of off t] by (auto intro!: diff_less_mono2)
next
  case (3 t off toks cur x cp off')
  then have "off' = snd (decodeUtf8 t off)" by (metis snd_conv)
  with 3 show ?case using decodeUtf8_progress [of off t] by (auto intro!: diff_less_mono2)
qed simp

declare tokenize_loop.simps [simp del]

definition tokenize :: "string \<Rightarrow> string list" where
  "tokenize text = tokenize_loop text 0 [] []"

section \<open>Decoding inverts encoding\<close>

lemma enc_lead [byte_simps]: 
  "unat (cp::u32) < 2048 \<Longrightarrow> code (char_of_word (0xC0 OR drop_bit 6 cp)) = 192 + unat cp div 64"
  "unat (cp::u32) < 65536 \<Longrightarrow> code (char_of_word (0xE0 OR drop_bit 12 cp)) = 224 + unat cp div 4096"
  "unat (cp::u32) < 2097152 \<Longrightarrow> code (char_of_word (0xF0 OR drop_bit 18 cp)) = 240 + unat cp div 262144"
  by (simp_all add: unsigned_or_eq unat_drop_bit nat_or_prefix less_mult_imp_div_less)

lemma enc_cont [byte_simps]:
  "code (char_of_word (0x80 OR (cp AND 0x3F :: u32))) = 128 + unat cp mod 64"
  "code (char_of_word (0x80 OR (drop_bit n cp AND 0x3F :: u32))) = 128 + unat cp div 2 ^ n mod 64"
  by (simp_all add: byte_simps)

lemma lead_byte_nat:
  "lead_byte (byte_of c) =
    (if code c div 32 = 6 then Some (2, of_nat (code c mod 32))
     else if code c div 16 = 14 then Some (3, of_nat (code c mod 16))
     else if code c div 8 = 30 then Some (4, of_nat (code c mod 8)) else None)"
proof -
  have "byte_of c AND 0xE0 = (0xC0 :: u32) \<longleftrightarrow> code c div 32 = 6"
     "byte_of c AND 0xF0 = (0xE0 :: u32) \<longleftrightarrow> code c div 16 = 14"
     "byte_of c AND 0xF8 = (0xF0 :: u32) \<longleftrightarrow> code c div 8 = 30"
     "byte_of c AND 0x1F = (of_nat (code c mod 32) :: u32)" 
     "byte_of c AND 0x0F = (of_nat (code c mod 16) :: u32)" 
     "byte_of c AND 0x07 = (of_nat (code c mod 8) :: u32)" 
    by (simp_all add: word_unat_eq_iff unsigned_and_eq nat_and_high_masks nat_and_masks unat_of_nat)
  then show ?thesis by (simp add: lead_byte_def)
qed

lemma cont_byte_iff: "(byte_of c AND 0xC0 = (0x80 :: u32)) \<longleftrightarrow> code c div 64 = 2" 
  by (simp add: word_unat_eq_iff unsigned_and_eq nat_and_high_masks)

lemma decode_cont_step: "unat cp < 2^20 \<Longrightarrow> decode_cont (c # cs) cp = (if code c div 64 = 2 then 
   decode_cont cs (of_nat (unat cp * 64 + code c mod 64)) else None)"
proof -
  assume "unat cp < 2 ^ 20"
  moreover have "code c mod 64 < 64" by simp
  ultimately have "unat cp * 64 + code c mod 64 < 2 ^ 32" by simp
  then have "unat (push_bit 6 cp OR (byte_of c AND 0x3F)) = unat (of_nat (unat cp * 64 + code c mod 64) :: u32)"
    using unat_push6[of cp c] \<open>unat cp < 2 ^ 20\<close> by (simp only: unat_of_nat_u32) simp
  then have "push_bit 6 cp OR (byte_of c AND 0x3F) = (of_nat (unat cp * 64 + code c mod 64) :: u32)"
    by (simp only: word_unat_eq_iff)
  then show ?thesis by (simp add: cont_byte_iff)
qed

lemma byte_of_less_0x80: "(byte_of c < (0x80::u32)) \<longleftrightarrow> code c < 128" by (simp add: word_less_nat_alt)

definition scalar_value :: "u32 \<Rightarrow> bool" where
  "scalar_value cp \<longleftrightarrow> cp < 0xD800 \<or> (0xDFFF < cp \<and> cp \<le> 0x10FFFF)"


abbreviation encode :: "u32 \<Rightarrow> string" where
  "encode cp \<equiv> appendCodepoint [] cp"

lemma appendCodepoint_append: "appendCodepoint out cp = out @ encode cp"
  by (simp add: appendCodepoint_def)

text \<open>One lemma per length: a well-formed sequence decodes to its payload.\<close>

lemma decode_cont_digit:
  assumes "k < 2 ^ 20" "code c = 128 + l" "l < 64"
  shows "decode_cont (c # cs) (of_nat k) = decode_cont cs (of_nat (k * 64 + l))"
proof -
  have "code c div 64 = 2" "code c mod 64 = l" 
    using assms(2,3) by (simp_all add: div_nat_eqI mod_nat_eqI)
  moreover have "unat (of_nat k :: u32) = k" using assms(1) by (intro unat_of_nat_u32) simp
  ultimately show ?thesis using assms(1) by (simp only: decode_cont_step simp_thms if_True)
qed

lemma decode_seq2:
  assumes "code b0 = 192 + h" "h < 32" "code b1 = 128 + l" "l < 64"
    and "\<not> rejected_cp 2 (of_nat (h * 64 + l))"
  shows "decodeUtf8 (b0 # b1 # post) 0 = (of_nat (h * 64 + l), 2)"
proof -
  have "(192 + h) div 32 = 6" "(192 + h) mod 32 = h" using assms(2) by (simp_all add: div_nat_eqI mod_nat_eqI)
  then have lead: "lead_byte (byte_of b0) = Some (2, of_nat h)" by (simp add: lead_byte_nat assms)
  have "h < 2 ^ 20" using assms(2) by simp
  with assms have "decode_cont [b1] (of_nat h) = Some (of_nat (h * 64 + l))"
    by (simp only: decode_cont_digit decode_cont.simps(1))
  with lead assms(1,5) show ?thesis
    by (simp add: decodeUtf8_def Let_def byte_of_less_0x80 del: decode_cont.simps(2))
qed

lemma decode_seq3:
  assumes "code b0 = 224 + h" "h < 16" "code b1 = 128 + m" "m < 64" "code b2 = 128 + l" "l < 64"
    and "\<not> rejected_cp 3 (of_nat ((h * 64 + m) * 64 + l))"
  shows "decodeUtf8 (b0 # b1 # b2 # post) 0 = (of_nat ((h * 64 + m) * 64 + l), 3)"
proof -
  have "(224 + h) div 32 = 7" "(224 + h) div 16 = 14" "(224 + h) mod 16 = h"
    using assms(2) by (simp_all add: div_nat_eqI mod_nat_eqI)
  then have lead: "lead_byte (byte_of b0) = Some (3, of_nat h)" by (simp add: lead_byte_nat assms)
  have "h < 2 ^ 20" "h * 64 + m < 2 ^ 20" using assms(2,4) by simp_all
  with assms have "decode_cont [b1, b2] (of_nat h) = Some (of_nat ((h * 64 + m) * 64 + l))"
    by (simp only: decode_cont_digit decode_cont.simps(1))
  with lead assms(1,7) show ?thesis
    by (simp add: decodeUtf8_def Let_def byte_of_less_0x80 del: decode_cont.simps(2))
qed

lemma decode_seq4:
  assumes "code b0 = 240 + h" "h < 8" "code b1 = 128 + k" "k < 64" "code b2 = 128 + m" "m < 64"
    and "code b3 = 128 + l" "l < 64"
    and "\<not> rejected_cp 4 (of_nat (((h * 64 + k) * 64 + m) * 64 + l))"
  shows "decodeUtf8 (b0 # b1 # b2 # b3 # post) 0 = (of_nat (((h * 64 + k) * 64 + m) * 64 + l), 4)"
proof -
  have "(240 + h) div 32 = 7" "(240 + h) div 16 = 15" "(240 + h) div 8 = 30" "(240 + h) mod 8 = h"
    using assms(2) by (simp_all add: div_nat_eqI mod_nat_eqI)
  then have lead: "lead_byte (byte_of b0) = Some (4, of_nat h)" by (simp add: lead_byte_nat assms)
  have "h < 2 ^ 20" "h * 64 + k < 2 ^ 20" "(h * 64 + k) * 64 + m < 2 ^ 20"
    using assms(2,4,6) by simp_all
  with assms have "decode_cont [b1, b2, b3] (of_nat h) = Some (of_nat (((h * 64 + k) * 64 + m) * 64 + l))"
    by (simp only: decode_cont_digit decode_cont.simps(1))
  with lead assms(1,9) show ?thesis
    by (simp add: decodeUtf8_def Let_def byte_of_less_0x80 del: decode_cont.simps(2))
qed

lemma scalar_not_rejected:
  assumes "scalar_value cp" "unat cp = n"
  shows "128 \<le> n \<Longrightarrow> \<not> rejected_cp 2 (of_nat n)" "2048 \<le> n \<Longrightarrow> \<not> rejected_cp 3 (of_nat n)"
    "65536 \<le> n \<Longrightarrow> \<not> rejected_cp 4 (of_nat n)"
  using assms by (auto simp: scalar_value_def rejected_cp_def word_less_nat_alt word_le_nat_alt)

lemma base64_digits:
  "(n::nat) div 4096 * 64 + n div 64 mod 64 = n div 64"
  "n div 262144 * 64 + n div 4096 mod 64 = n div 4096"
  using div_mult_mod_eq [of "n div 64" 64] div_mult_mod_eq [of "n div 4096" 64]
  by (simp_all flip: div_mult2_eq)

lemma decode_encode0:
  assumes "scalar_value cp"
  shows "decodeUtf8 (encode cp @ post) 0 = (cp, length (encode cp))"
proof -
  define n where "n = unat cp"
  then have n: "unat cp = n" and cp: "of_nat n = cp" by simp_all
  have le: "n < 2097152"
    using assms n by (auto simp: scalar_value_def word_less_nat_alt word_le_nat_alt)
  have thr: "cp < 0x80 \<longleftrightarrow> n < 128" "cp < 0x800 \<longleftrightarrow> n < 2048" "cp < 0x10000 \<longleftrightarrow> n < 65536"
    by (simp_all add: word_less_nat_alt n)
  note rej = scalar_not_rejected [OF assms n]
    and enc = enc_lead [of cp, unfolded n] enc_cont(1) [of cp, unfolded n]
      enc_cont(2) [of 6 cp, unfolded n] enc_cont(2) [of 12 cp, unfolded n]
  consider "n < 128" | "128 \<le> n" "n < 2048" | "2048 \<le> n" "n < 65536" | "65536 \<le> n" by linarith
  then show ?thesis
  proof cases
    case 1
    have "byte_of (char_of_word cp) = cp" using 1 n by (simp add: word_unat_eq_iff)
    with 1 show ?thesis by (simp add: appendCodepoint_def thr decodeUtf8_def Let_def)
  next
    case 2
    let ?h = "n div 64" and ?l = "n mod 64"
    have q: "?h * 64 + ?l = n" "?h < 32" "?l < 64" using 2 by auto
    have "\<not> rejected_cp 2 (of_nat (?h * 64 + ?l))" using rej(1) [OF 2(1)] q(1) by simp
    from decode_seq2 [OF enc(1) [OF 2(2)] q(2) enc(4) q(3) this, unfolded q(1) cp] 2
    show ?thesis by (simp add: appendCodepoint_def thr)
  next
    case 3
    let ?h = "n div 4096" and ?m = "n div 2 ^ 6 mod 64" and ?l = "n mod 64"
    have q: "(?h * 64 + ?m) * 64 + ?l = n" "?h < 16" "?m < 64" "?l < 64"
      using 3 base64_digits(1) [of n] by auto
    have "\<not> rejected_cp 3 (of_nat ((?h * 64 + ?m) * 64 + ?l))" using rej(2) [OF 3(1)] q(1) by simp
    from decode_seq3 [OF enc(2) [OF 3(2)] q(2) enc(5) q(3) enc(4) q(4) this, unfolded q(1) cp] 3
    show ?thesis by (simp add: appendCodepoint_def thr)
  next
    case 4
    let ?h = "n div 262144" and ?k = "n div 2 ^ 12 mod 64" and ?m = "n div 2 ^ 6 mod 64"
      and ?l = "n mod 64"
    have q: "((?h * 64 + ?k) * 64 + ?m) * 64 + ?l = n" "?h < 8" "?k < 64" "?m < 64" "?l < 64"
      using le base64_digits [of n] by auto
    have "\<not> rejected_cp 4 (of_nat (((?h * 64 + ?k) * 64 + ?m) * 64 + ?l))"
      using rej(3) [OF 4] q(1) by simp
    from decode_seq4 [OF enc(3) [OF le] q(2) enc(6) q(3) enc(5) q(4) enc(4) q(5) this,
        unfolded q(1) cp] 4
    show ?thesis by (simp add: appendCodepoint_def thr)
  qed
qed

lemma decodeUtf8_shift:
  "decodeUtf8 (pre @ s) (length pre + i) = (let (c, n) = decodeUtf8 s i in (c, length pre + n))"
  by (auto simp: decodeUtf8_def Let_def nth_append split: option.splits)

lemma decodeUtf8_encode:
  assumes "scalar_value cp"
  shows "decodeUtf8 (pre @ encode cp @ post) (length pre) = (cp, length pre + length (encode cp))"
  using decodeUtf8_shift [of pre "encode cp @ post" 0] decode_encode0 [OF assms, of post] by simp

lemma encode_ne [simp]: "encode cp \<noteq> []"
  by (simp add: appendCodepoint_def)

section \<open>Token characters and case folding\<close>

text \<open>Classification and folding on \<open>nat\<close>, where the case analyses are linear arithmetic.\<close>

definition token_code :: "nat \<Rightarrow> bool" where
  "token_code n =
     (if n < 128 then 97 \<le> n \<and> n \<le> 122 \<or> 65 \<le> n \<and> n \<le> 90 \<or> 48 \<le> n \<and> n \<le> 57
      else if 192 \<le> n \<and> n \<le> 255 \<and> n \<noteq> 215 \<and> n \<noteq> 247 then True
      else if 256 \<le> n \<and> n \<le> 767 then True
      else if 880 \<le> n \<and> n \<le> 1023 \<or> 7936 \<le> n \<and> n \<le> 8191 then True
      else if 1024 \<le> n \<and> n \<le> 1279 then True
      else if 1424 \<le> n \<and> n \<le> 1535 \<or> 1536 \<le> n \<and> n \<le> 1791 \<or> 2304 \<le> n \<and> n \<le> 3583 then True
      else 12352 \<le> n \<and> n \<le> 12543 \<or> 13312 \<le> n \<and> n \<le> 19903 \<or>
           19968 \<le> n \<and> n \<le> 40959 \<or> 44032 \<le> n \<and> n \<le> 55215)"

lemma isTokenCharacter_code: "isTokenCharacter cp \<longleftrightarrow> token_code (unat cp)"
proof (cases "cp = bad_cp")
  case True
  then show ?thesis by (simp add: isTokenCharacter_def bad_cp_def token_code_def)
next
  case False
  then show ?thesis
    by (simp add: isTokenCharacter_def token_code_def word_le_nat_alt word_less_nat_alt
        word_unat_eq_iff [of cp "0xD7"] word_unat_eq_iff [of cp "0xF7"])
qed

definition fold_code :: "nat \<Rightarrow> nat" where
  "fold_code n =
     (if 65 \<le> n \<and> n \<le> 90 then n + 32
      else if 192 \<le> n \<and> n \<le> 222 \<and> n \<noteq> 215 then n + 32
      else if 256 \<le> n \<and> n \<le> 383 \<and> even n then n + 1
      else if 384 \<le> n \<and> n \<le> 591 \<and> even n \<and> \<not> (452 \<le> n \<and> n \<le> 460) then n + 1
      else if 913 \<le> n \<and> n \<le> 937 \<and> n \<noteq> 930 then n + 32
      else if 1040 \<le> n \<and> n \<le> 1071 then n + 32
      else n)"

lemma and_one_u32: "cp AND 1 = (0 :: u32) \<longleftrightarrow> even (unat cp)"
  by (simp only: word_unat_eq_iff unsigned_and_eq unsigned_1 unsigned_0)
    (simp add: and_one_eq even_iff_mod_2_eq_zero)

lemma unat_plus_u32: "unat (cp :: u32) \<le> 2000 \<Longrightarrow> unat (cp + 32) = unat cp + 32" 
   "unat (cp :: u32) \<le> 2000 \<Longrightarrow> unat (cp + 1) = unat cp + 1"
  by (simp_all add: unat_word_ariths)

lemma foldCase_code: "unat (foldCase cp) = fold_code (unat cp)"
proof -
  have "unat cp \<in> {452..460} \<longleftrightarrow> unat cp \<in> {452,453,454,455,456,457,458,459,460}" by auto
  then have "\<not> (452 \<le> unat cp \<and> unat cp \<le> 460) \<longleftrightarrow> cp \<noteq> 0x01C4 \<and> cp \<noteq> 0x01C5 \<and>
              cp \<noteq> 0x01C6 \<and> cp \<noteq> 0x01C7 \<and> cp \<noteq> 0x01C8 \<and> cp \<noteq> 0x01C9 \<and> cp \<noteq> 0x01CA \<and>
              cp \<noteq> 0x01CB \<and> cp \<noteq> 0x01CC" by (simp add: word_unat_eq_iff)
  then show ?thesis
  unfolding foldCase_def fold_code_def
  by (simp add: word_le_nat_alt and_one_u32 word_unat_eq_iff[of cp "0xD7"] word_unat_eq_iff[of cp "0x3A2"] unat_plus_u32)
qed

lemma fold_code_idem: "fold_code (fold_code n) = fold_code n"
  by (simp add: fold_code_def)

lemma token_code_fold: "token_code n \<Longrightarrow> token_code (fold_code n)"
  unfolding token_code_def fold_code_def by (simp split: if_split)

lemma foldCase_idem: "foldCase (foldCase cp) = foldCase cp"
  by (simp add: word_unat_eq_iff [of "foldCase (foldCase cp)"] foldCase_code fold_code_idem)

lemma token_char_fold: "isTokenCharacter cp \<Longrightarrow> isTokenCharacter (foldCase cp)"
  by (simp add: isTokenCharacter_code foldCase_code token_code_fold)

lemma token_code_less: "token_code n \<Longrightarrow> n < 55296"
proof (rule ccontr)
  assume "token_code n" "\<not> n < 55296"
  then show False by (simp add: token_code_def)
qed

lemma token_char_scalar: "isTokenCharacter cp \<Longrightarrow> scalar_value cp"
proof -
  assume "isTokenCharacter cp"
  then have "unat cp < 55296" using token_code_less isTokenCharacter_code by blast
  then have "cp < 0xD800" by (simp add: word_less_nat_alt)
  then show ?thesis by (simp add: scalar_value_def)
qed

section \<open>Tokens are normal forms\<close>

definition token_text :: "string \<Rightarrow> bool" where
  "token_text t \<longleftrightarrow> (\<exists>cps. cps \<noteq> [] \<and> t = concat (map encode cps) \<and>
     (\<forall>cp\<in>set cps. isTokenCharacter cp \<and> foldCase cp = cp))"

lemma token_text_ne: "token_text t \<Longrightarrow> t \<noteq> []"
  by (auto simp: token_text_def)

lemma token_text_append:
  assumes "cur = [] \<or> token_text cur" "isTokenCharacter cp"
  shows "token_text (appendCodepoint cur (foldCase cp))"
proof -
  obtain cps where cur: "cur = concat (map encode cps)"
    and ok: "\<forall>cp\<in>set cps. isTokenCharacter cp \<and> foldCase cp = cp"
    using assms(1) unfolding token_text_def by (metis concat.simps(1) empty_iff list.map_disc_iff list.set(1))
  have "appendCodepoint cur (foldCase cp) = concat (map encode (cps @ [foldCase cp]))"
    by (subst appendCodepoint_append) (simp add: cur)
  then show ?thesis
    using ok assms(2) unfolding token_text_def
    by (intro exI [of _ "cps @ [foldCase cp]"]) (auto simp: foldCase_idem token_char_fold)
qed

lemma tokenize_loop_tokens:
  "(\<forall>t\<in>set toks. token_text t) \<Longrightarrow> cur = [] \<or> token_text cur \<Longrightarrow>
     t \<in> set (tokenize_loop s off toks cur) \<Longrightarrow> token_text t"
proof (induction s off toks cur rule: tokenize_loop.induct)
  case (1 s off toks cur)
  have fl: "\<forall>t\<in>set (flush toks cur). token_text t" using "1.prems" by (auto simp: flush_def)
  obtain cp off' where d: "decodeUtf8 s off = (cp, off')" by fastforce
  show ?case
  proof (cases "off < length s")
    case True
    then show ?thesis
      using 1 fl d token_text_append [of cur cp]
      by (auto simp: tokenize_loop.simps [of s off toks cur] split: if_splits)
  next
    case False
    then show ?thesis using fl "1.prems" by (simp add: tokenize_loop.simps [of s off toks cur])
  qed
qed

lemma tokenize_loop_encoded:
  "\<forall>cp\<in>set cps. isTokenCharacter cp \<and> foldCase cp = cp \<Longrightarrow>
     tokenize_loop (pre @ concat (map encode cps)) (length pre) toks cur =
       flush toks (cur @ concat (map encode cps))"
proof (induction cps arbitrary: pre cur)
  case Nil
  then show ?case by (simp add: tokenize_loop.simps)
next
  case (Cons cp cps)
  have "decodeUtf8 (pre @ encode cp @ concat (map encode cps)) (length pre) =
      (cp, length (pre @ encode cp))"
    using Cons.prems by (simp add: decodeUtf8_encode token_char_scalar)
  moreover have "tokenize_loop ((pre @ encode cp) @ concat (map encode cps)) (length (pre @ encode cp))
      toks (cur @ encode cp) = flush toks ((cur @ encode cp) @ concat (map encode cps))"
    using Cons.prems by (intro Cons.IH) simp
  ultimately show ?case
    using Cons.prems
    by (simp add: tokenize_loop.simps [of "pre @ _" "length pre"] appendCodepoint_append [of cur])
qed

lemma tokenize_token_text: "token_text t \<Longrightarrow> tokenize t = [t]"
  using tokenize_loop_encoded [of _ "[]" "[]" "[]"] token_text_ne [of t]
  by (auto simp: token_text_def tokenize_def flush_def)

section \<open>Separators\<close>

lemma decode_cont_bad: "c \<in> set cs \<Longrightarrow> code c < 128 \<Longrightarrow> decode_cont cs cp = None"
proof (induction cs arbitrary: cp)
  case (Cons d ds)
  then show ?case by (cases "d = c") (auto simp: cont_byte_iff)
qed simp

lemma decodeUtf8_before_sep:
  assumes "off < length s" "code sep < 128"
  shows "decodeUtf8 (s @ sep # t) off = decodeUtf8 s off"
proof -
  have sub: "take k (drop (off + 1) (s @ sep # t)) = take k (drop (off + 1) s)"
    if "off + 1 + k \<le> length s" for k
    using that by simp
  have bad: "decode_cont (take k (drop (off + 1) (s @ sep # t))) cp = None"
    if "length s < off + 1 + k" for k cp
  proof (rule decode_cont_bad [OF _ assms(2)])
    have "sep \<in> set (take (k - (length s - (off + 1))) (sep # t))"
      using that by (cases "k - (length s - (off + 1))") (use assms(1) in auto)
    then show "sep \<in> set (take k (drop (off + 1) (s @ sep # t)))"
      using assms(1) by simp
  qed
  have "decodeUtf8 s off = decodeUtf8 (s @ sep # t) off"
  proof (cases "lead_byte (byte_of (s ! off))")
    case None
    then show ?thesis using assms(1) by (simp add: decodeUtf8_def Let_def nth_append)
  next
    case (Some nc)
    obtain n cp0 where nc: "nc = (n, cp0)" by fastforce
    have n: "n \<ge> 2" using lead_byte_range Some nc by fastforce
    show ?thesis
    proof (cases "off + n \<le> length s")
      case True
      then show ?thesis
        using assms(1) Some nc n sub [of "n - 1"]
        by (simp add: decodeUtf8_def Let_def nth_append del: drop_append take_append)
    next
      case False
      then show ?thesis
        using assms(1) Some nc n bad [of "n - 1" cp0]
        by (simp add: decodeUtf8_def Let_def nth_append del: drop_append take_append)
    qed
  qed
  then show ?thesis by simp
qed

lemma tokenize_loop_prefix:
  "tokenize_loop s off (pre @ toks) cur = pre @ tokenize_loop s off toks cur"
proof (induction s off toks cur rule: tokenize_loop.induct)
  case (1 s off toks cur)
  obtain cp off' where d: "decodeUtf8 s off = (cp, off')" by fastforce
  have fl: "flush (pre @ toks) cur = pre @ flush toks cur" by (simp add: flush_def)
  show ?case
    using "1.IH" [OF _ d [symmetric] refl] fl d
    by (simp add: tokenize_loop.simps [of s off])
qed

lemma tokenize_loop_shift:
  "tokenize_loop (pre @ s) (length pre + off) toks cur = tokenize_loop s off toks cur"
proof (induction s off toks cur rule: tokenize_loop.induct)
  case (1 s off toks cur)
  obtain cp off' where d: "decodeUtf8 s off = (cp, off')" by fastforce
  then have "decodeUtf8 (pre @ s) (length pre + off) = (cp, length pre + off')"
    by (simp add: decodeUtf8_shift)
  with "1.IH" [OF _ d [symmetric] refl] d show ?case
    by (simp add: tokenize_loop.simps [of s off] tokenize_loop.simps [of "pre @ s" "length pre + off"])
qed

lemma decodeUtf8_ascii:
  "code sep < 128 \<Longrightarrow> decodeUtf8 (s @ sep # t) (length s) = (byte_of sep, Suc (length s))"
  by (simp add: decodeUtf8_def Let_def byte_of_less_0x80)

lemma tokenize_loop_before_sep:
  assumes "code sep < 128" "\<not> isTokenCharacter (byte_of sep)"
  shows "off \<le> length s \<Longrightarrow>
    tokenize_loop (s @ sep # t) off toks cur =
      tokenize_loop (s @ sep # t) (Suc (length s)) (tokenize_loop s off toks cur) []"
proof (induction s off toks cur rule: tokenize_loop.induct)
  case (1 s off toks cur)
  obtain cp off' where d: "decodeUtf8 s off = (cp, off')" by fastforce
  show ?case
  proof (cases "off < length s")
    case True
    then have "off' \<le> length s" using decodeUtf8_progress [of off s] d by simp
    then show ?thesis
      using "1.IH" [OF True d [symmetric] refl] True d decodeUtf8_before_sep [OF True assms(1)]
      by (simp add: tokenize_loop.simps [of s off] tokenize_loop.simps [of "s @ sep # t" off])
  next
    case False
    then have "off = length s" using "1.prems" by simp
    then show ?thesis
      using decodeUtf8_ascii [OF assms(1)] assms(2)
      by (simp add: tokenize_loop.simps [of s] tokenize_loop.simps [of "s @ sep # t" "length s"])
  qed
qed

lemma tokenize_sep:
  assumes "code sep < 128" "\<not> isTokenCharacter (byte_of sep)"
  shows "tokenize (s @ sep # t) = tokenize s @ tokenize t"
proof -
  have "tokenize (s @ sep # t) = tokenize_loop (s @ sep # t) (Suc (length s)) (tokenize s) []"
    using tokenize_loop_before_sep [OF assms, of 0] by (simp add: tokenize_def)
  also have "\<dots> = tokenize_loop t 0 (tokenize s) []"
    using tokenize_loop_shift [of "s @ [sep]" t 0] by simp
  also have "\<dots> = tokenize s @ tokenize t"
    using tokenize_loop_prefix [of t 0 "tokenize s" "[]"] by (simp add: tokenize_def)
  finally show ?thesis .
qed

lemma tokenize_tokens: "t \<in> set (tokenize s) \<Longrightarrow> token_text t"
  unfolding tokenize_def by (rule tokenize_loop_tokens [of "[]" "[]"]) auto

section \<open>Properties\<close>

text \<open>
  C28: decoding inverts encoding. For every Unicode scalar value, wherever its encoding stands in
  a text, \<open>decodeUtf8\<close> returns the value and advances the offset past exactly its bytes.
\<close>

theorem decode_append_codepoint:
  assumes "scalar_value cp"
  shows "decodeUtf8 (pre @ appendCodepoint [] cp @ post) (length pre) =
           (cp, length pre + length (appendCodepoint [] cp))"
  using assms by (rule decodeUtf8_encode)

theorem decode_append_codepoint_witness:
  "decodeUtf8 (''ab'' @ appendCodepoint [] 0x20AC @ ''c'') (length ''ab'') =
     (0x20AC, length ''ab'' + length (appendCodepoint [] 0x20AC)) \<and>
   appendCodepoint [] 0x20AC = [CHR 0xE2, CHR 0x82, CHR 0xAC]"
proof -
  have "scalar_value 0x20AC" by (simp add: scalar_value_def)
  from decode_append_codepoint [OF this, of "''ab''" "''c''"]
  show ?thesis by (intro conjI) (assumption, code_simp)
qed

text \<open>
  C29: every token is a normal form. Whatever bytes the text has, malformed UTF-8 included, each
  token the tokenizer returns is non-empty and tokenizes to itself alone, so a term that comes out
  of a document is found again by a query that is that term.
\<close>

theorem tokenize_normal_form:
  assumes "t \<in> set (tokenize s)"
  shows "t \<noteq> [] \<and> tokenize t = [t]"
  using tokenize_tokens [OF assms] by (simp add: token_text_ne tokenize_token_text)

theorem tokenize_normal_form_witness: "tokenize ''hello'' = [''hello'']"
proof -
  have "''hello'' \<in> set (tokenize ''Hello, W0rld'')" by code_simp
  from tokenize_normal_form [OF this] show ?thesis by simp
qed

text \<open>
  an ASCII separator cuts the text. Tokenizing a text with an ASCII byte that is no letter or
  digit in it is tokenizing what is before it and what is after it, even when the part before ends
  in a truncated UTF-8 sequence; so title, snippet and content never share a token.
\<close>

theorem tokenize_separator:
  assumes "code sep < 128" "\<not> isTokenCharacter (byte_of sep)"
  shows "tokenize (s @ sep # t) = tokenize s @ tokenize t"
  using assms by (rule tokenize_sep)

theorem tokenize_separator_witness:
  "tokenize ([CHR 0xC3] @ CHR '' '' # ''b'') = tokenize [CHR 0xC3] @ [''b'']"
proof -
  have "code (CHR '' '') < 128" "\<not> isTokenCharacter (byte_of (CHR '' ''))" by code_simp+
  moreover have "tokenize ''b'' = [''b'']" by code_simp
  ultimately show ?thesis using tokenize_separator [of "CHR '' ''" "[CHR 0xC3]" "''b''"] by simp
qed

text \<open>
  case folding confuses distinct letters of Latin Extended-A. The rule "even code points are
  the capitals" does not hold from U+0139 to U+0148 and from U+0179 to U+017E: the small letter
  l-acute (U+013A) folds to the capital letter l-cedilla (U+013B), while its own capital (U+0139)
  folds to itself, so the two cases of l-acute are different terms.
\<close>

theorem foldCase_latin_extended_a_divergence:
  "foldCase 0x013A = 0x013B \<and> foldCase 0x0139 = 0x0139 \<and> foldCase 0x0139 \<noteq> foldCase 0x013A \<and>
   (\<forall>cp. foldCase (foldCase cp) = foldCase cp)"
  by (simp add: foldCase_idem) (simp add: foldCase_def)

end
