(* ===== verification/Inverted_Index.thy ===== *)
theory Inverted_Index
  imports Document Tokenizer "HOL-Library.AList"
begin

text \<open>
  The inverted index of \<open>src/inverted_index.cpp\<close>. Each \<open>std::unordered_map\<close> is an association
  list with distinct keys, whose order stands for the unspecified iteration order; frequencies are
  32-bit, identifiers, lengths and totals 64-bit words, so every sum wraps as in the program. The
  mutex makes each public operation atomic, hence one function from state to state each.
  The theory proves the data-structure invariant of every operation, the contents of every
  postings list, and that the index refines a map from URLs to documents.
\<close>

section \<open>State\<close>

record posting =
  p_docId :: u64
  p_termFreq :: u32

record inverted_index =
  ix_postings :: "(string \<times> posting list) list"
  ix_urlToId :: "(string \<times> u64) list"
  ix_docs :: "(u64 \<times> document) list"
  ix_docTerms :: "(u64 \<times> (string \<times> u32) list) list"
  ix_docLengths :: "(u64 \<times> u64) list"
  ix_nextId :: u64
  ix_totalTerms :: u64

definition empty_index :: inverted_index where
  "empty_index = \<lparr>ix_postings = [], ix_urlToId = [], ix_docs = [], ix_docTerms = [], ix_docLengths = [],
     ix_nextId = 1, ix_totalTerms = 0\<rparr>"

section \<open>Operations\<close>

text \<open>\<open>m[k]\<close> of an \<open>unordered_map\<close> whose values default to \<open>dflt\<close>.\<close>

definition at_default :: "'v \<Rightarrow> ('k \<times> 'v) list \<Rightarrow> 'k \<Rightarrow> 'v" where
  "at_default dflt m k = (case map_of m k of None \<Rightarrow> dflt | Some v \<Rightarrow> v)"

abbreviation add_to :: "'k \<Rightarrow> 'v::{zero,plus} \<Rightarrow> ('k \<times> 'v) list \<Rightarrow> ('k \<times> 'v) list" where
  "add_to k v m \<equiv> AList.update k (at_default 0 m k + v) m"

definition indexText :: "string \<Rightarrow> (string \<times> u32) list \<Rightarrow> (string \<times> u32) list" where
  "indexText t freqs = fold (\<lambda>tok m. add_to tok 1 m) (tokenize t) freqs"

text \<open>The weighted frequencies of one document: title three times, snippet and content once.\<close>

definition term_freqs :: "document \<Rightarrow> (string \<times> u32) list" where
  "term_freqs d =
     (let freqs = indexText (doc_title d) [];
          titleFreqs = indexText (doc_title d) [];
          body = indexText (doc_content d) (indexText (doc_snippet d) []);
          freqs = fold (\<lambda>(t, f) m. add_to t f m) body freqs
      in fold (\<lambda>(t, f) m. add_to t (2 * f) m) titleFreqs freqs)"

definition removePosting :: "u64 \<Rightarrow> string \<Rightarrow> inverted_index \<Rightarrow> inverted_index" where
  "removePosting docId t s =
     (case map_of (ix_postings s) t of
        None \<Rightarrow> s
      | Some l \<Rightarrow>
          let l' = filter (\<lambda>p. p_docId p \<noteq> docId) l
          in if l' = [] then s\<lparr>ix_postings := AList.delete t (ix_postings s)\<rparr>
             else s\<lparr>ix_postings := AList.update t l' (ix_postings s)\<rparr>)"

definition removePostings :: "u64 \<Rightarrow> (string \<times> u32) list \<Rightarrow> inverted_index \<Rightarrow> inverted_index" where
  "removePostings docId terms s = fold (\<lambda>(t, f). removePosting docId t) terms s"

text \<open>One turn of the loop that commits the frequencies of a document.\<close>

definition addPosting :: "u64 \<Rightarrow> string \<times> u32 \<Rightarrow> inverted_index \<Rightarrow> inverted_index" where
  "addPosting docId tf s =
     (case tf of (t, f) \<Rightarrow>
        s\<lparr>ix_postings := AList.update t
              (at_default [] (ix_postings s) t @ [\<lparr>p_docId = docId, p_termFreq = f\<rparr>]) (ix_postings s),
          ix_docTerms := AList.update docId (at_default [] (ix_docTerms s) docId @ [(t, f)]) (ix_docTerms s),
          ix_totalTerms := ix_totalTerms s + ucast f\<rparr>)"

definition freqs_length :: "(string \<times> u32) list \<Rightarrow> u64" where
  "freqs_length freqs = sum_list (map (\<lambda>(t, f). ucast f) freqs)"

text \<open>Allocating the identifier: a known URL is un-indexed and keeps its identifier.\<close>

definition allocateId :: "inverted_index \<Rightarrow> string \<Rightarrow> inverted_index \<times> u64" where
  "allocateId s u =
     (case map_of (ix_urlToId s) u of
        Some i \<Rightarrow>
          let s = removePostings i (at_default [] (ix_docTerms s) i) s;
              s = s\<lparr>ix_totalTerms := ix_totalTerms s - at_default 0 (ix_docLengths s) i\<rparr>;
              s = s\<lparr>ix_docLengths := AList.delete i (ix_docLengths s)\<rparr>;
              s = s\<lparr>ix_docTerms := AList.delete i (ix_docTerms s)\<rparr>
          in (s, i)
      | None \<Rightarrow>
          let i = ix_nextId s;
              s = s\<lparr>ix_nextId := ix_nextId s + 1\<rparr>;
              s = s\<lparr>ix_urlToId := AList.update u i (ix_urlToId s)\<rparr>
          in (s, i))"

definition addDocumentLocked :: "inverted_index \<Rightarrow> document \<Rightarrow> inverted_index \<times> u64" where
  "addDocumentLocked s d =
     (let (s, i) = allocateId s (doc_url d);
          freqs = term_freqs d;
          s = fold (addPosting i) freqs s;
          s = s\<lparr>ix_docLengths := AList.update i (freqs_length freqs) (ix_docLengths s)\<rparr>;
          stored = d\<lparr>doc_id := i\<rparr>;
          s = s\<lparr>ix_docs := AList.update i stored (ix_docs s)\<rparr>
      in (s, i))"

definition addDocument :: "inverted_index \<Rightarrow> document \<Rightarrow> inverted_index \<times> u64" where
  "addDocument s d = addDocumentLocked s d"

definition removeDocument :: "inverted_index \<Rightarrow> u64 \<Rightarrow> inverted_index" where
  "removeDocument s docId =
     (case map_of (ix_docs s) docId of
        None \<Rightarrow> s
      | Some d \<Rightarrow>
          let s = removePostings docId (at_default [] (ix_docTerms s) docId) s;
              s = s\<lparr>ix_totalTerms := ix_totalTerms s - at_default 0 (ix_docLengths s) docId\<rparr>;
              s = s\<lparr>ix_urlToId := AList.delete (doc_url d) (ix_urlToId s)\<rparr>;
              s = s\<lparr>ix_docLengths := AList.delete docId (ix_docLengths s)\<rparr>;
              s = s\<lparr>ix_docTerms := AList.delete docId (ix_docTerms s)\<rparr>
          in s\<lparr>ix_docs := AList.delete docId (ix_docs s)\<rparr>)"

definition clear_index :: "inverted_index \<Rightarrow> inverted_index" where
  "clear_index s = s\<lparr>ix_postings := [], ix_urlToId := [], ix_docs := [], ix_docTerms := [],
     ix_docLengths := [], ix_nextId := 1, ix_totalTerms := 0\<rparr>"

definition replaceAll :: "inverted_index \<Rightarrow> document list \<Rightarrow> inverted_index" where
  "replaceAll s ds = fold (\<lambda>d s. fst (addDocumentLocked s d)) ds
     (s\<lparr>ix_postings := [], ix_urlToId := [], ix_docs := [], ix_docTerms := [],
        ix_docLengths := [], ix_nextId := 1, ix_totalTerms := 0\<rparr>)"

text \<open>The readers; a null pointer is \<open>None\<close>.\<close>

definition postings :: "inverted_index \<Rightarrow> string \<Rightarrow> posting list option" where
  "postings s t = map_of (ix_postings s) t"

definition index_document :: "inverted_index \<Rightarrow> u64 \<Rightarrow> document option" where
  "index_document s docId = map_of (ix_docs s) docId"

definition documentCount :: "inverted_index \<Rightarrow> nat" where
  "documentCount s = length (ix_docs s)"

definition termCount :: "inverted_index \<Rightarrow> nat" where
  "termCount s = length (ix_postings s)"

definition docLength :: "inverted_index \<Rightarrow> u64 \<Rightarrow> u64" where
  "docLength s docId = (case map_of (ix_docLengths s) docId of None \<Rightarrow> 0 | Some n \<Rightarrow> n)"

definition allDocuments :: "inverted_index \<Rightarrow> document list" where
  "allDocuments s = map snd (ix_docs s)"

definition averageDocLength :: "inverted_index \<Rightarrow> 'd::field_char_0" where
  "averageDocLength s =
     (if ix_docs s = [] then 0
      else of_nat (unat (ix_totalTerms s)) / of_nat (length (ix_docs s)))"

section \<open>Association lists\<close>

lemma at_default_Nil [simp]: "at_default dflt [] k = dflt"
  by (simp add: at_default_def)

lemma at_default_Cons: "at_default dflt (kv # m) k = (if fst kv = k then snd kv else at_default dflt m k)"
  by (cases kv) (simp add: at_default_def)

lemma at_default_update [simp]:
  "at_default dflt (AList.update k v m) k' = (if k = k' then v else at_default dflt m k')"
  by (simp add: at_default_def update_conv')

lemma at_default_notin: "k \<notin> fst ` set m \<Longrightarrow> at_default dflt m k = dflt"
  by (simp add: at_default_def map_of_eq_None_iff split: option.split) (metis map_of_eq_None_iff option.distinct(1))

lemma keys_update [simp]: "fst ` set (AList.update k v m) = insert k (fst ` set m)"
  by (simp add: dom_update)

lemmas alist_simps = update_conv' delete_conv' distinct_update distinct_delete

section \<open>Frequencies of a document\<close>

text \<open>How often a term counts in a document: three times per occurrence in the title.\<close>

definition weight :: "document \<Rightarrow> string \<Rightarrow> nat" where
  "weight d t = 3 * count_list (tokenize (doc_title d)) t + count_list (tokenize (doc_snippet d)) t +
     count_list (tokenize (doc_content d)) t"

definition doc_terms :: "document \<Rightarrow> string set" where
  "doc_terms d = set (tokenize (doc_title d)) \<union> set (tokenize (doc_snippet d)) \<union>
     set (tokenize (doc_content d))"

lemma count_list_pos: "0 < count_list xs x \<longleftrightarrow> x \<in> set xs"
  by (metis count_list_0_iff gr0I less_numeral_extra(3))

lemma doc_terms_weight: "t \<in> doc_terms d \<longleftrightarrow> 0 < weight d t"
  by (auto simp: doc_terms_def weight_def count_list_pos)

lemma fold_bump:
  "at_default 0 (fold (\<lambda>tok m. add_to tok 1 m) ts m) t = at_default 0 m t + of_nat (count_list ts t)"
  "fst ` set (fold (\<lambda>tok m. add_to tok (1::u32) m) ts m) = fst ` set m \<union> set ts"
  "distinct (map fst m) \<Longrightarrow> distinct (map fst (fold (\<lambda>tok m. add_to tok (1::u32) m) ts m))"
  by (induction ts arbitrary: m) (auto simp: distinct_update)

lemma fold_add_to:
  assumes "distinct (map fst b)"
  shows "at_default 0 (fold (\<lambda>(t, f) m. add_to t (c * f) m) b m) t = at_default 0 m t + c * at_default (0::u32) b t"
  using assms
proof (induction b arbitrary: m)
  case (Cons tf b)
  then show ?case by (cases tf) (auto simp: at_default_Cons at_default_notin)
qed simp

lemma fold_add_to_keys:
  "fst ` set (fold (\<lambda>(t, f) m. add_to t (c * (f::u32)) m) b m) = fst ` set m \<union> fst ` set b"
  by (induction b arbitrary: m) (simp_all add: case_prod_beta)

lemma fold_add_to_distinct:
  "distinct (map fst m) \<Longrightarrow> distinct (map fst (fold (\<lambda>(t, f) m. add_to t (c * (f::u32)) m) b m))"
  by (induction b arbitrary: m) (simp_all add: case_prod_beta distinct_update)

lemmas fold_add_simps =
  fold_add_to fold_add_to [where c = 1, simplified]
  fold_add_to_keys fold_add_to_keys [where c = 1, simplified]
  fold_add_to_distinct fold_add_to_distinct [where c = 1, simplified]

lemma indexText_props:
  "at_default 0 (indexText s m) t = at_default 0 m t + of_nat (count_list (tokenize s) t)"
  "fst ` set (indexText s m) = fst ` set m \<union> set (tokenize s)"
  "distinct (map fst m) \<Longrightarrow> distinct (map fst (indexText s m))"
  by (simp_all add: indexText_def fold_bump)

lemma term_freqs_distinct: "distinct (map fst (term_freqs d))"
  by (simp add: term_freqs_def Let_def fold_add_simps indexText_props)

lemma term_freqs_keys: "fst ` set (term_freqs d) = doc_terms d"
proof -
  have "fst ` set (term_freqs d) = (set (tokenize (doc_title d)) \<union>
      (set (tokenize (doc_snippet d)) \<union> set (tokenize (doc_content d)))) \<union> set (tokenize (doc_title d))"
    by (simp only: term_freqs_def Let_def fold_add_simps indexText_props list.set image_empty Un_empty_left)
  then show ?thesis by (auto simp: doc_terms_def)
qed

lemma term_freqs_value: "at_default 0 (term_freqs d) t = of_nat (weight d t)"
  by (simp add: term_freqs_def Let_def fold_add_simps indexText_props weight_def)

lemma term_freqs_set: "(t, f) \<in> set (term_freqs d) \<longleftrightarrow> 0 < weight d t \<and> f = of_nat (weight d t)"
proof
  assume tf: "(t, f) \<in> set (term_freqs d)"
  then have "t \<in> doc_terms d" using term_freqs_keys by force
  moreover have "map_of (term_freqs d) t = Some f"
    using tf term_freqs_distinct by (simp add: map_of_is_SomeI)
  then have "at_default 0 (term_freqs d) t = f" by (simp add: at_default_def)
  ultimately show "0 < weight d t \<and> f = of_nat (weight d t)"
    by (simp add: doc_terms_weight term_freqs_value)
next
  assume *: "0 < weight d t \<and> f = of_nat (weight d t)"
  then have "t \<in> fst ` set (term_freqs d)" by (simp add: term_freqs_keys doc_terms_weight)
  then obtain g where "map_of (term_freqs d) t = Some g"
    by (metis map_of_eq_None_iff not_Some_eq)
  then show "(t, f) \<in> set (term_freqs d)"
    using * term_freqs_value [of d t] by (auto simp: at_default_def dest: map_of_SomeD)
qed

section \<open>Un-indexing and indexing one document\<close>

text \<open>The postings of a term; a term without an entry has none.\<close>

abbreviation plist :: "inverted_index \<Rightarrow> string \<Rightarrow> posting list" where
  "plist s t \<equiv> at_default [] (ix_postings s) t"

definition postings_wf :: "inverted_index \<Rightarrow> bool" where
  "postings_wf s \<longleftrightarrow> distinct (map fst (ix_postings s)) \<and> (\<forall>t. t \<in> fst ` set (ix_postings s) \<longleftrightarrow> plist s t \<noteq> [])"

lemma at_default_delete:
  "at_default dflt (AList.delete k m) k' = (if k = k' then dflt else at_default dflt m k')"
  by (simp add: at_default_def delete_conv')

lemma removePosting_fields [simp]:
  "ix_urlToId (removePosting i t s) = ix_urlToId s" "ix_docs (removePosting i t s) = ix_docs s"
  "ix_docTerms (removePosting i t s) = ix_docTerms s"
  "ix_docLengths (removePosting i t s) = ix_docLengths s"
  "ix_nextId (removePosting i t s) = ix_nextId s"
  "ix_totalTerms (removePosting i t s) = ix_totalTerms s"
  by (simp_all add: removePosting_def Let_def split: option.split)

lemma removePosting_plist:
  "plist (removePosting i t s) t' =
     (if t = t' then filter (\<lambda>p. p_docId p \<noteq> i) (plist s t') else plist s t')"
  by (auto simp: removePosting_def Let_def at_default_delete split: option.split)
    (auto simp: at_default_def)

lemma keys_delete: "fst ` set (AList.delete k m) = fst ` set m - {k}"
  by (metis delete_keys list.set_map set_removeAll removeAll_filter_not_eq)

lemma removePosting_wf: "postings_wf s \<Longrightarrow> postings_wf (removePosting i t s)"
  by (auto simp: removePosting_def postings_wf_def Let_def distinct_update distinct_delete
      at_default_delete keys_delete simp del: map_of_eq_Some_iff split: option.split if_splits)

lemma removePostings_fields [simp]:
  "ix_urlToId (removePostings i ts s) = ix_urlToId s" "ix_docs (removePostings i ts s) = ix_docs s"
  "ix_docTerms (removePostings i ts s) = ix_docTerms s"
  "ix_docLengths (removePostings i ts s) = ix_docLengths s"
  "ix_nextId (removePostings i ts s) = ix_nextId s"
  "ix_totalTerms (removePostings i ts s) = ix_totalTerms s"
  by (induction ts arbitrary: s) (simp_all add: removePostings_def case_prod_beta)

lemma removePostings_plist:
  "plist (removePostings i ts s) t =
     (if t \<in> fst ` set ts then filter (\<lambda>p. p_docId p \<noteq> i) (plist s t) else plist s t)"
  by (induction ts arbitrary: s)
    (simp_all add: removePostings_def case_prod_beta removePosting_plist)

lemma removePostings_wf: "postings_wf s \<Longrightarrow> postings_wf (removePostings i ts s)"
  by (induction ts arbitrary: s) (simp_all add: removePostings_def case_prod_beta removePosting_wf)

lemma addPosting_fields [simp]:
  "ix_urlToId (addPosting i tf s) = ix_urlToId s" "ix_docs (addPosting i tf s) = ix_docs s"
  "ix_docLengths (addPosting i tf s) = ix_docLengths s" "ix_nextId (addPosting i tf s) = ix_nextId s"
  by (simp_all add: addPosting_def case_prod_beta)

lemma fold_addPosting_fields [simp]:
  "ix_urlToId (fold (addPosting i) ts s) = ix_urlToId s" "ix_docs (fold (addPosting i) ts s) = ix_docs s"
  "ix_docLengths (fold (addPosting i) ts s) = ix_docLengths s"
  "ix_nextId (fold (addPosting i) ts s) = ix_nextId s"
  by (induction ts arbitrary: s) simp_all

lemma addPosting_wf: "postings_wf s \<Longrightarrow> postings_wf (addPosting i tf s)"
  by (auto simp: addPosting_def postings_wf_def distinct_update split: prod.split)

lemma fold_addPosting_wf: "postings_wf s \<Longrightarrow> postings_wf (fold (addPosting i) ts s)"
  by (induction ts arbitrary: s) (simp_all add: addPosting_wf)

lemma fold_addPosting_plist:
  "distinct (map fst ts) \<Longrightarrow>
     plist (fold (addPosting i) ts s) t =
       plist s t @ (case map_of ts t of None \<Rightarrow> [] | Some f \<Rightarrow> [\<lparr>p_docId = i, p_termFreq = f\<rparr>])"
proof (induction ts arbitrary: s)
  case (Cons tf ts)
  obtain u f where tf: "tf = (u, f)" by fastforce
  with Cons.prems have "map_of ts u = None" by (simp add: map_of_eq_None_iff)
  with Cons tf show ?case by (cases "u = t") (simp_all add: addPosting_def)
qed simp

lemma fold_addPosting_docTerms:
  "at_default [] (ix_docTerms (fold (addPosting i) ts s)) j =
     at_default [] (ix_docTerms s) j @ (if j = i then ts else [])"
  by (induction ts arbitrary: s) (auto simp: addPosting_def split: prod.split)

lemma fold_addPosting_docTerms_distinct:
  "distinct (map fst (ix_docTerms s)) \<Longrightarrow> distinct (map fst (ix_docTerms (fold (addPosting i) ts s)))"
  by (induction ts arbitrary: s) (simp_all add: addPosting_def distinct_update split: prod.split)

lemma fold_addPosting_total:
  "ix_totalTerms (fold (addPosting i) ts s) = ix_totalTerms s + freqs_length ts"
  by (induction ts arbitrary: s) (auto simp: addPosting_def freqs_length_def split: prod.split)

section \<open>The invariant\<close>

text \<open>
  \<open>indexed s D\<close>: the postings, per-document terms, lengths and the total of \<open>s\<close> reflect exactly
  the documents of the map \<open>D\<close>. During a replacement \<open>D\<close> lacks the document being replaced.
\<close>

definition posting_of :: "(u64 \<Rightarrow> document option) \<Rightarrow> string \<Rightarrow> posting \<Rightarrow> bool" where
  "posting_of D t p \<longleftrightarrow> (\<exists>d. D (p_docId p) = Some d \<and> 0 < weight d t \<and> p_termFreq p = of_nat (weight d t))"

abbreviation doc_weight :: "document \<Rightarrow> u64" where
  "doc_weight d \<equiv> freqs_length (term_freqs d)"

definition indexed :: "inverted_index \<Rightarrow> (u64 \<Rightarrow> document option) \<Rightarrow> bool" where
  "indexed s D \<longleftrightarrow>
     postings_wf s \<and> distinct (map fst (ix_docTerms s)) \<and> distinct (map fst (ix_docLengths s)) \<and>
     (\<forall>t. distinct (map p_docId (plist s t)) \<and> (\<forall>p. p \<in> set (plist s t) \<longleftrightarrow> posting_of D t p)) \<and>
     (\<forall>i. at_default [] (ix_docTerms s) i = (case D i of None \<Rightarrow> [] | Some d \<Rightarrow> term_freqs d)) \<and>
     (\<forall>i. map_of (ix_docLengths s) i = map_option doc_weight (D i)) \<and>
     finite (dom D) \<and> ix_totalTerms s = (\<Sum>i\<in>dom D. doc_weight (the (D i)))"

text \<open>Only the title and the texts of a document matter for its terms.\<close>

lemma weight_doc_id [simp]: "weight (d\<lparr>doc_id := i\<rparr>) = weight d"
  by (simp add: weight_def fun_eq_iff)

lemma term_freqs_doc_id [simp]: "term_freqs (d\<lparr>doc_id := i\<rparr>) = term_freqs d"
  by (simp add: term_freqs_def)

definition unindex :: "u64 \<Rightarrow> inverted_index \<Rightarrow> inverted_index" where
  "unindex i s =
     (let s' = removePostings i (at_default [] (ix_docTerms s) i) s
      in s'\<lparr>ix_totalTerms := ix_totalTerms s - at_default 0 (ix_docLengths s) i,
            ix_docLengths := AList.delete i (ix_docLengths s),
            ix_docTerms := AList.delete i (ix_docTerms s)\<rparr>)"

lemma sum_dom_delete:
  "finite (dom D) \<Longrightarrow> D i = Some d \<Longrightarrow>
     (\<Sum>j\<in>dom (D(i := None)). f (the ((D(i := None)) j))) = (\<Sum>j\<in>dom D. f (the (D j))) - (f d :: u64)"
proof -
  assume "finite (dom D)" "D i = Some d"
  then have "(\<Sum>j\<in>dom D. f (the (D j))) = f d + (\<Sum>j\<in>dom D - {i}. f (the (D j)))"
    by (subst sum.remove [of _ i]) auto
  moreover have "(\<Sum>j\<in>dom (D(i := None)). f (the ((D(i := None)) j))) = (\<Sum>j\<in>dom D - {i}. f (the (D j)))"
    by (rule sum.cong) auto
  ultimately show ?thesis by simp
qed

lemma sum_dom_insert:
  "finite (dom D) \<Longrightarrow> D i = None \<Longrightarrow>
     (\<Sum>j\<in>dom (D(i \<mapsto> d)). f (the ((D(i \<mapsto> d)) j))) = f d + (\<Sum>j\<in>dom D. (f (the (D j)) :: u64))"
proof -
  assume *: "finite (dom D)" "D i = None"
  have "dom (D(i \<mapsto> d)) = insert i (dom D)" "i \<notin> dom D" using * by auto
  moreover have "(\<Sum>j\<in>dom D. f (the ((D(i \<mapsto> d)) j))) = (\<Sum>j\<in>dom D. f (the (D j)))"
    using * by (intro sum.cong) auto
  ultimately show ?thesis using * by simp
qed

lemma unindex_indexed:
  assumes I: "indexed s D" and D: "D i = Some d"
  shows "indexed (unindex i s) (D(i := None))"
proof -
  have terms: "at_default [] (ix_docTerms s) i = term_freqs d" using I D by (simp add: indexed_def)
  have len: "at_default 0 (ix_docLengths s) i = doc_weight d"
    using I D by (simp add: indexed_def at_default_def)
  have pl: "plist (unindex i s) t = filter (\<lambda>p. p_docId p \<noteq> i) (plist s t)" for t
  proof (cases "t \<in> doc_terms d")
    case True
    then show ?thesis by (simp add: unindex_def Let_def removePostings_plist terms term_freqs_keys)
  next
    case False
    then have "\<forall>p\<in>set (plist s t). p_docId p \<noteq> i"
      using I D by (auto simp: indexed_def posting_of_def doc_terms_weight)
    then have "filter (\<lambda>p. p_docId p \<noteq> i) (plist s t) = plist s t" by (simp add: filter_id_conv)
    then show ?thesis using False
      by (simp add: unindex_def Let_def removePostings_plist terms term_freqs_keys)
  qed
  have dist: "distinct (map p_docId (plist (unindex i s) t))" for t
    using I by (simp add: pl indexed_def distinct_map_filter)
  have wf: "postings_wf (unindex i s)"
    using I removePostings_wf [of s i] by (simp add: indexed_def unindex_def Let_def postings_wf_def)
  have post: "p \<in> set (plist (unindex i s) t) \<longleftrightarrow> posting_of (D(i := None)) t p" for t p
    using I by (auto simp: pl indexed_def posting_of_def)
  have tot: "ix_totalTerms (unindex i s) =
      (\<Sum>j\<in>dom (D(i := None)). doc_weight (the ((D(i := None)) j)))"
    using sum_dom_delete [of D i d doc_weight] I D len by (simp add: indexed_def unindex_def Let_def)
  show ?thesis
    unfolding indexed_def
    using I wf post tot dist
    by (simp add: indexed_def)
      (simp add: indexed_def unindex_def Let_def at_default_delete distinct_delete delete_conv')
qed

definition index_terms :: "u64 \<Rightarrow> document \<Rightarrow> inverted_index \<Rightarrow> inverted_index" where
  "index_terms i d s =
     (let s = fold (addPosting i) (term_freqs d) s
      in s\<lparr>ix_docLengths := AList.update i (doc_weight d) (ix_docLengths s)\<rparr>)"

lemma index_terms_indexed:
  assumes I: "indexed s D" and D: "D i = None"
  shows "indexed (index_terms i d s) (D(i \<mapsto> d))"
proof -
  have pl: "plist (index_terms i d s) t = plist s t @
      (if t \<in> doc_terms d then [\<lparr>p_docId = i, p_termFreq = of_nat (weight d t)\<rparr>] else [])" for t
  proof (cases "t \<in> doc_terms d")
    case True
    then have "map_of (term_freqs d) t = Some (of_nat (weight d t))"
      using term_freqs_distinct by (simp add: map_of_eq_Some_iff term_freqs_set doc_terms_weight)
    with True show ?thesis
      by (simp add: index_terms_def Let_def fold_addPosting_plist term_freqs_distinct)
  next
    case False
    then have "map_of (term_freqs d) t = None" by (simp add: map_of_eq_None_iff term_freqs_keys)
    with False show ?thesis
      by (simp add: index_terms_def Let_def fold_addPosting_plist term_freqs_distinct)
  qed
  have fresh: "\<forall>p\<in>set (plist s t). p_docId p \<noteq> i" for t
    using I D by (auto simp: indexed_def posting_of_def)
  have dist: "distinct (map p_docId (plist (index_terms i d s) t))" for t
    using I fresh [of t] by (auto simp: pl indexed_def)
  have post: "p \<in> set (plist (index_terms i d s) t) \<longleftrightarrow> posting_of (D(i \<mapsto> d)) t p" for t p
  proof (cases "p_docId p = i")
    case True
    then have "p \<notin> set (plist s t)" using fresh by blast
    then show ?thesis
      using True by (cases p) (auto simp: pl posting_of_def doc_terms_weight)
  next
    case False
    then show ?thesis using I by (auto simp: pl indexed_def posting_of_def)
  qed
  have wf: "postings_wf (index_terms i d s)"
    using I fold_addPosting_wf [of s i] by (simp add: indexed_def index_terms_def Let_def postings_wf_def)
  have tot: "ix_totalTerms (index_terms i d s) =
      (\<Sum>j\<in>dom (D(i \<mapsto> d)). doc_weight (the ((D(i \<mapsto> d)) j)))"
    using sum_dom_insert [of D i doc_weight d] I D
    by (simp add: indexed_def index_terms_def Let_def fold_addPosting_total)
  show ?thesis
    unfolding indexed_def
    using I D wf post tot dist
    by (simp add: indexed_def)
      (simp add: index_terms_def Let_def fold_addPosting_docTerms fold_addPosting_docTerms_distinct
        alist_simps split: option.split)
qed

declare map_of_eq_Some_iff [simp del]

definition index_inv :: "inverted_index \<Rightarrow> bool" where
  "index_inv s \<longleftrightarrow>
     indexed s (map_of (ix_docs s)) \<and>
     distinct (map fst (ix_docs s)) \<and> distinct (map fst (ix_urlToId s)) \<and>
     (\<forall>i d. map_of (ix_docs s) i = Some d \<longrightarrow>
        doc_id d = i \<and> map_of (ix_urlToId s) (doc_url d) = Some i \<and> i < ix_nextId s) \<and>
     (\<forall>u i. map_of (ix_urlToId s) u = Some i \<longrightarrow>
        (\<exists>d. map_of (ix_docs s) i = Some d \<and> doc_url d = u))"

lemma index_invI:
  assumes "indexed s (map_of (ix_docs s))" "distinct (map fst (ix_docs s))"
    "distinct (map fst (ix_urlToId s))"
    "\<And>i d. map_of (ix_docs s) i = Some d \<Longrightarrow>
       doc_id d = i \<and> map_of (ix_urlToId s) (doc_url d) = Some i \<and> i < ix_nextId s"
    "\<And>u i. map_of (ix_urlToId s) u = Some i \<Longrightarrow> \<exists>d. map_of (ix_docs s) i = Some d \<and> doc_url d = u"
  shows "index_inv s"
  using assms by (simp add: index_inv_def)

text \<open>The identifier counter has not reached its last value, so the next increment does not wrap.\<close>

definition has_room :: "inverted_index \<Rightarrow> bool" where
  "has_room s \<longleftrightarrow> ix_nextId s < -1"

lemma index_inv_empty: "index_inv empty_index"
  by (simp add: index_inv_def indexed_def empty_index_def postings_wf_def posting_of_def)

lemma index_inv_indexed: "index_inv s \<Longrightarrow> indexed s (map_of (ix_docs s))"
  by (simp add: index_inv_def)

lemma index_inv_docD:
  "index_inv s \<Longrightarrow> map_of (ix_docs s) i = Some d \<Longrightarrow>
     doc_id d = i \<and> map_of (ix_urlToId s) (doc_url d) = Some i \<and> i < ix_nextId s"
  by (simp add: index_inv_def)

lemma index_inv_urlD:
  "index_inv s \<Longrightarrow> map_of (ix_urlToId s) u = Some i \<Longrightarrow>
     \<exists>d. map_of (ix_docs s) i = Some d \<and> doc_url d = u"
  by (simp add: index_inv_def)

lemma less_plus_one: "(w :: 'a::len word) < -1 \<Longrightarrow> w < w + 1"
proof -
  assume "w < -1"
  then have "w + 1 \<noteq> 0" by (metis add_eq_0_iff2 order_less_irrefl)
  then have "unat (w + 1) = unat w + 1" using unatSuc [of w] by (simp add: add.commute)
  then show ?thesis by (simp add: word_less_nat_alt)
qed

text \<open>What \<open>addDocumentLocked\<close> does, in terms of the two shared steps.\<close>

lemma unindex_fields [simp]:
  "ix_urlToId (unindex i s) = ix_urlToId s" "ix_docs (unindex i s) = ix_docs s"
  "ix_nextId (unindex i s) = ix_nextId s"
  by (simp_all add: unindex_def Let_def)

lemma index_terms_fields [simp]:
  "ix_urlToId (index_terms i d s) = ix_urlToId s" "ix_docs (index_terms i d s) = ix_docs s"
  "ix_nextId (index_terms i d s) = ix_nextId s"
  by (simp_all add: index_terms_def Let_def)

lemma indexed_irrelevant [simp]:
  "indexed (s\<lparr>ix_docs := x\<rparr>) D = indexed s D" "indexed (s\<lparr>ix_urlToId := y\<rparr>) D = indexed s D"
  "indexed (s\<lparr>ix_nextId := z\<rparr>) D = indexed s D"
  by (simp_all add: indexed_def postings_wf_def)

lemma addDocumentLocked_known:
  "map_of (ix_urlToId s) (doc_url d) = Some i \<Longrightarrow>
     addDocumentLocked s d =
       ((index_terms i d (unindex i s))\<lparr>ix_docs := AList.update i (d\<lparr>doc_id := i\<rparr>) (ix_docs s)\<rparr>, i)"
  by (simp add: addDocumentLocked_def allocateId_def index_terms_def unindex_def Let_def)

lemma addDocumentLocked_new:
  "map_of (ix_urlToId s) (doc_url d) = None \<Longrightarrow>
     addDocumentLocked s d =
       ((index_terms (ix_nextId s) d
          (s\<lparr>ix_nextId := ix_nextId s + 1, ix_urlToId := AList.update (doc_url d) (ix_nextId s) (ix_urlToId s)\<rparr>))
        \<lparr>ix_docs := AList.update (ix_nextId s) (d\<lparr>doc_id := ix_nextId s\<rparr>) (ix_docs s)\<rparr>, ix_nextId s)"
  by (simp add: addDocumentLocked_def allocateId_def index_terms_def Let_def)

lemma indexed_doc_id: "indexed s (D(i \<mapsto> d\<lparr>doc_id := j\<rparr>)) = indexed s (D(i \<mapsto> d))"
proof -
  have "posting_of (D(i \<mapsto> d\<lparr>doc_id := j\<rparr>)) = posting_of (D(i \<mapsto> d))"
    by (auto simp: posting_of_def fun_eq_iff)
  moreover have "(\<Sum>k\<in>insert i (dom D). doc_weight (the (if k = i then Some (d\<lparr>doc_id := j\<rparr>) else D k)))
      = (\<Sum>k\<in>insert i (dom D). doc_weight (the (if k = i then Some d else D k)))"
    by (rule sum.cong) auto
  ultimately show ?thesis by (simp add: indexed_def if_distrib cong: if_cong)
qed

lemma index_inv_unique_url:
  "index_inv s \<Longrightarrow> map_of (ix_urlToId s) u = Some i \<Longrightarrow> map_of (ix_docs s) i = Some e \<Longrightarrow> doc_url e = u"
  using index_inv_urlD by fastforce

lemma index_inv_add_known:
  assumes I: "index_inv s" and u: "map_of (ix_urlToId s) (doc_url d) = Some i"
  shows "index_inv (fst (addDocumentLocked s d))"
proof -
  obtain e where e: "map_of (ix_docs s) i = Some e" "doc_url e = doc_url d"
    using index_inv_urlD [OF I u] by blast
  have "indexed (unindex i s) ((map_of (ix_docs s))(i := None))"
    using unindex_indexed [OF index_inv_indexed [OF I] e(1)] .
  then have ind: "indexed (index_terms i d (unindex i s)) ((map_of (ix_docs s))(i \<mapsto> d))"
    using index_terms_indexed [of "unindex i s" "(map_of (ix_docs s))(i := None)" i d] by simp
  show ?thesis
  proof (rule index_invI, goal_cases)
    case (4 j f)
    then show ?case
      using I u index_inv_docD [OF I] e
      by (cases "j = i") (auto simp: addDocumentLocked_known update_conv')
  next
    case (5 v j)
    then show ?case
      using I u index_inv_urlD [OF I, of v j] index_inv_unique_url [OF I] e
      by (cases "j = i") (auto simp: addDocumentLocked_known update_conv')
  qed (use I u ind in \<open>simp_all add: addDocumentLocked_known index_inv_def update_conv'
      distinct_update indexed_doc_id\<close>)
qed

lemma index_inv_fresh: "index_inv s \<Longrightarrow> map_of (ix_docs s) (ix_nextId s) = None"
  using index_inv_docD [of s "ix_nextId s"] by (cases "map_of (ix_docs s) (ix_nextId s)") auto

lemma index_inv_add_new:
  assumes I: "index_inv s" and u: "map_of (ix_urlToId s) (doc_url d) = None" and r: "has_room s"
  shows "index_inv (fst (addDocumentLocked s d))"
proof -
  let ?i = "ix_nextId s"
  let ?t = "s\<lparr>ix_nextId := ?i + 1, ix_urlToId := AList.update (doc_url d) ?i (ix_urlToId s)\<rparr>"
  have lt: "?i < ?i + 1" using r by (simp add: has_room_def less_plus_one)
  note fresh = index_inv_fresh [OF I]
  have ind: "indexed (index_terms ?i d ?t) ((map_of (ix_docs s))(?i \<mapsto> d))"
    using index_inv_indexed [OF I] fresh by (intro index_terms_indexed) simp_all
  show ?thesis
  proof (rule index_invI, goal_cases)
    case (4 j f)
    then show ?case
      using u lt index_inv_docD [OF I, of j] less_trans [OF _ lt, of j]
      by (cases "j = ?i") (auto simp: addDocumentLocked_new update_conv')
  next
    case (5 v j)
    then show ?case
      using u fresh index_inv_urlD [OF I, of v j]
      by (cases "v = doc_url d") (auto simp: addDocumentLocked_new update_conv')
  qed (use I u ind in \<open>simp_all add: addDocumentLocked_new index_inv_def update_conv'
      distinct_update indexed_doc_id\<close>)
qed

lemma index_inv_add:
  assumes "index_inv s" "has_room s"
  shows "index_inv (fst (addDocumentLocked s d))"
  using assms index_inv_add_known index_inv_add_new
  by (cases "map_of (ix_urlToId s) (doc_url d)") blast+

lemma index_inv_remove:
  assumes I: "index_inv s"
  shows "index_inv (removeDocument s i)"
proof (cases "map_of (ix_docs s) i")
  case None
  with I show ?thesis by (simp add: removeDocument_def)
next
  case (Some e)
  have r: "removeDocument s i = (unindex i s)\<lparr>ix_urlToId := AList.delete (doc_url e) (ix_urlToId s),
      ix_docs := AList.delete i (ix_docs s)\<rparr>"
    using Some by (simp add: removeDocument_def unindex_def Let_def)
  have ind: "indexed (unindex i s) ((map_of (ix_docs s))(i := None))"
    using unindex_indexed [OF index_inv_indexed [OF I] Some] .
  show ?thesis
  proof (rule index_invI, goal_cases)
    case (4 j f)
    then show ?case
      using Some index_inv_docD [OF I Some] index_inv_docD [OF I, of j f]
      by (auto simp: r delete_conv' split: if_splits)
  next
    case (5 v j)
    then show ?case
      using Some index_inv_docD [OF I Some] index_inv_urlD [OF I, of v j]
      by (auto simp: r delete_conv' split: if_splits)
  qed (use I ind in \<open>simp_all add: r index_inv_def delete_conv' distinct_delete\<close>)
qed

section \<open>The index as a store of documents by URL\<close>

text \<open>
  What clients of the store rely on: adding a document overwrites the entry of its URL and no
  other, as long as identifiers remain. The identifier a document gets is not part of the view.
\<close>

definition strip_id :: "document \<Rightarrow> document" where
  "strip_id d = d\<lparr>doc_id := 0\<rparr>"

definition by_url :: "document list \<Rightarrow> string \<Rightarrow> document option" where
  "by_url ds = map_of (rev (map (\<lambda>d. (doc_url d, strip_id d)) ds))"

lemma by_url_Cons: "m ++ by_url (d # ds) = m(doc_url d \<mapsto> strip_id d) ++ by_url ds"
  by (simp add: by_url_def map_add_def fun_eq_iff split: option.split)

locale document_store =
  fixes invar :: "'s \<Rightarrow> bool"
    and room :: "'s \<Rightarrow> nat"
    and add :: "'s \<Rightarrow> document \<Rightarrow> 's"
    and view :: "'s \<Rightarrow> string \<Rightarrow> document option"
  assumes invar_add: "invar s \<Longrightarrow> 0 < room s \<Longrightarrow> invar (add s d)"
    and room_add: "invar s \<Longrightarrow> 0 < room s \<Longrightarrow> room s \<le> Suc (room (add s d))"
    and view_add: "invar s \<Longrightarrow> 0 < room s \<Longrightarrow> view (add s d) = (view s)(doc_url d \<mapsto> strip_id d)"
begin

lemma add_all:
  assumes "invar s" "length ds \<le> room s"
  shows "invar (fold (\<lambda>d s. add s d) ds s) \<and> view (fold (\<lambda>d s. add s d) ds s) = view s ++ by_url ds"
  using assms
proof (induction ds arbitrary: s)
  case Nil
  then show ?case by (simp add: by_url_def)
next
  case (Cons d ds)
  then have "invar (add s d)" "length ds \<le> room (add s d)"
    using invar_add [of s d] room_add [of s d] by simp_all
  moreover have "view (add s d) = (view s)(doc_url d \<mapsto> strip_id d)"
    using Cons.prems by (intro view_add) auto
  ultimately show ?case
    using Cons.IH [of "add s d"] by (simp only: fold_simps by_url_Cons)
qed

lemma add_all_room:
  "invar s \<Longrightarrow> length ds \<le> room s \<Longrightarrow> room s \<le> length ds + room (fold (\<lambda>d s. add s d) ds s)"
proof (induction ds arbitrary: s)
  case (Cons d ds)
  then have "invar (add s d)" "length ds \<le> room (add s d)" "room s \<le> Suc (room (add s d))"
    using invar_add [of s d] room_add [of s d] by simp_all
  with Cons.IH [of "add s d"] show ?case by simp
qed simp

end

definition index_room :: "inverted_index \<Rightarrow> nat" where
  "index_room s = 2 ^ 64 - 1 - unat (ix_nextId s)"

definition index_view :: "inverted_index \<Rightarrow> string \<Rightarrow> document option" where
  "index_view s u = (case map_of (ix_urlToId s) u of
      None \<Rightarrow> None
    | Some i \<Rightarrow> map_option strip_id (map_of (ix_docs s) i))"

lemma has_room_index_room: "has_room s \<longleftrightarrow> 0 < index_room s"
proof -
  have "unat (-1 :: u64) = 2 ^ 64 - 1"
    by (simp add: unsigned_minus_1_eq_mask mask_eq_exp_minus_1)
  then show ?thesis by (simp add: has_room_def index_room_def word_less_nat_alt)
qed

lemma index_room_add: "index_room s \<le> Suc (index_room (fst (addDocumentLocked s d)))"
proof -
  have "unat (w + 1) \<le> Suc (unat w)" for w :: u64
    by (cases "w + 1 = 0") (use unatSuc [of w] in \<open>simp_all add: add.commute\<close>)
  from this [of "ix_nextId s"] show ?thesis
    by (cases "map_of (ix_urlToId s) (doc_url d)")
      (simp_all add: addDocumentLocked_known addDocumentLocked_new index_room_def)
qed

lemma index_view_add:
  assumes I: "index_inv s"
  shows "index_view (fst (addDocumentLocked s d)) = (index_view s)(doc_url d \<mapsto> strip_id d)"
proof (rule ext)
  fix v
  show "index_view (fst (addDocumentLocked s d)) v = ((index_view s)(doc_url d \<mapsto> strip_id d)) v"
  proof (cases "map_of (ix_urlToId s) (doc_url d)")
    case None
    have "map_of (ix_urlToId s) v \<noteq> Some (ix_nextId s)"
      using index_inv_urlD [OF I, of v "ix_nextId s"] index_inv_fresh [OF I] by auto
    with None show ?thesis
      by (auto simp: addDocumentLocked_new index_view_def update_conv' strip_id_def split: option.split)
  next
    case (Some i)
    have "v \<noteq> doc_url d \<Longrightarrow> map_of (ix_urlToId s) v \<noteq> Some i"
      using index_inv_urlD [OF I Some] index_inv_unique_url [OF I] by blast
    with Some show ?thesis
      by (auto simp: addDocumentLocked_known index_view_def update_conv' strip_id_def split: option.split)
  qed
qed

lemma index_view_remove:
  assumes I: "index_inv s" and d: "map_of (ix_docs s) i = Some d"
  shows "index_view (removeDocument s i) = (index_view s)(doc_url d := None)"
proof (rule ext)
  fix v
  have "v \<noteq> doc_url d \<Longrightarrow> map_of (ix_urlToId s) v \<noteq> Some i"
    using index_inv_unique_url [OF I _ d] by blast
  with d show "index_view (removeDocument s i) v = ((index_view s)(doc_url d := None)) v"
    by (auto simp: removeDocument_def Let_def index_view_def delete_conv' split: option.split)
qed

interpretation store: document_store index_inv index_room "\<lambda>s d. fst (addDocumentLocked s d)" index_view
  by unfold_locales (simp_all add: index_inv_add has_room_index_room index_room_add index_view_add)

lemma clear_index_empty: "clear_index s = empty_index"
  by (simp add: clear_index_def empty_index_def)

lemma index_inv_clear: "index_inv (clear_index s)" "index_room (clear_index s) = 2 ^ 64 - 2"
  "index_view (clear_index s) = Map.empty"
  by (simp_all only: clear_index_empty index_inv_empty)
    (simp_all add: empty_index_def index_room_def index_view_def fun_eq_iff)

lemma replaceAll_clear: "replaceAll s ds = fold (\<lambda>d s. fst (addDocumentLocked s d)) ds (clear_index s)"
  by (simp add: replaceAll_def clear_index_def)

lemma replaceAll_store:
  assumes "length ds \<le> 2 ^ 64 - 2"
  shows "index_inv (replaceAll s ds)" "index_view (replaceAll s ds) = by_url ds"
  using store.add_all [of "clear_index s" ds] assms by (simp_all add: replaceAll_clear index_inv_clear)

lemma replaceAll_room:
  "length ds \<le> 2 ^ 64 - 2 \<Longrightarrow> 2 ^ 64 - 2 \<le> length ds + index_room (replaceAll s ds)"
  using store.add_all_room [of "clear_index s" ds] by (simp add: replaceAll_clear index_inv_clear)

section \<open>Sequences of operations\<close>

datatype index_op = AddDoc document | RemoveDoc u64 | ClearAll | ReplaceDocs "document list"

fun index_step :: "index_op \<Rightarrow> inverted_index \<Rightarrow> inverted_index" where
  "index_step (AddDoc d) s = fst (addDocument s d)"
| "index_step (RemoveDoc i) s = removeDocument s i"
| "index_step ClearAll s = clear_index s"
| "index_step (ReplaceDocs ds) s = replaceAll s ds"

definition index_run :: "index_op list \<Rightarrow> inverted_index \<Rightarrow> inverted_index" where
  "index_run ops s = fold index_step ops s"

text \<open>How many identifiers an operation may allocate.\<close>

fun op_ids :: "index_op \<Rightarrow> nat" where
  "op_ids (AddDoc d) = 1"
| "op_ids (ReplaceDocs ds) = length ds"
| "op_ids _ = 0"

lemma removeDocument_room: "index_room (removeDocument s i) = index_room s"
  by (simp add: removeDocument_def index_room_def Let_def split: option.split)

lemma index_run_inv_room:
  "index_inv s \<Longrightarrow> sum_list (map op_ids ops) \<le> index_room s \<Longrightarrow>
     sum_list (map op_ids ops) \<le> 2 ^ 64 - 2 \<Longrightarrow> index_inv (index_run ops s)"
proof (induction ops arbitrary: s)
  case (Cons ope ops)
  let ?s = "index_step ope s"
  have "index_inv ?s \<and> sum_list (map op_ids ops) \<le> index_room ?s"
  proof (cases ope)
    case (AddDoc d)
    with Cons.prems index_room_add [of s d] show ?thesis
      by (simp add: addDocument_def index_inv_add has_room_index_room)
  next
    case (ReplaceDocs ds)
    then show ?thesis
      using Cons.prems replaceAll_store [of ds s] replaceAll_room [of ds s] by simp
  qed (use Cons.prems in \<open>simp_all add: index_inv_remove removeDocument_room index_inv_clear\<close>)
  with Cons show ?case by (simp add: index_run_def)
qed (simp add: index_run_def)

section \<open>Lengths and counts\<close>

lemma sum_list_term_freqs:
  "sum_list (map (\<lambda>(t, f). g f) (term_freqs d)) = (\<Sum>t\<in>doc_terms d. g (of_nat (weight d t)))"
proof -
  have "sum_list (map (\<lambda>(t, f). g f) (term_freqs d)) =
      sum_list (map (\<lambda>t. g (of_nat (weight d t))) (map fst (term_freqs d)))"
    unfolding map_map by (rule arg_cong [of _ _ sum_list], rule map_cong) (auto simp: term_freqs_set)
  also have "\<dots> = (\<Sum>t\<in>set (map fst (term_freqs d)). g (of_nat (weight d t)))"
    by (rule sum_list_distinct_conv_sum_set [OF term_freqs_distinct])
  also have "set (map fst (term_freqs d)) = doc_terms d" by (simp add: term_freqs_keys)
  finally show ?thesis .
qed

definition doc_tokens :: "document \<Rightarrow> nat" where
  "doc_tokens d = 3 * length (tokenize (doc_title d)) + length (tokenize (doc_snippet d)) +
     length (tokenize (doc_content d))"

lemma sum_weight: "(\<Sum>t\<in>doc_terms d. weight d t) = doc_tokens d"
proof -
  have fin: "finite (doc_terms d)" by (simp add: doc_terms_def)
  have len: "set xs \<subseteq> doc_terms d \<Longrightarrow> sum (count_list xs) (doc_terms d) = length xs" for xs
    using sum_count_set [OF _ fin] by blast
  have "sum (count_list (tokenize (doc_title d))) (doc_terms d) = length (tokenize (doc_title d))"
    "sum (count_list (tokenize (doc_snippet d))) (doc_terms d) = length (tokenize (doc_snippet d))"
    "sum (count_list (tokenize (doc_content d))) (doc_terms d) = length (tokenize (doc_content d))"
    by (rule len; auto simp: doc_terms_def)+
  then show ?thesis
    by (simp add: weight_def doc_tokens_def sum.distrib flip: sum_distrib_left)
qed

lemma ucast_of_nat_u32: "n < 2 ^ 32 \<Longrightarrow> (ucast (of_nat n :: u32) :: u64) = of_nat n"
  by (simp add: word_unat_eq_iff unsigned_ucast_eq unat_of_nat take_bit_nat_eq_self)

lemma doc_weight_tokens:
  assumes "doc_tokens d < 2 ^ 32"
  shows "doc_weight d = of_nat (doc_tokens d)"
proof -
  have small: "weight d t < 2 ^ 32" if "t \<in> doc_terms d" for t
  proof -
    have "weight d t \<le> (\<Sum>t\<in>doc_terms d. weight d t)"
      using that by (intro member_le_sum) (simp_all add: doc_terms_def)
    then show ?thesis using assms by (simp add: sum_weight)
  qed
  have "doc_weight d = (\<Sum>t\<in>doc_terms d. ucast (of_nat (weight d t) :: u32))"
    by (simp add: freqs_length_def sum_list_term_freqs)
  also have "\<dots> = (\<Sum>t\<in>doc_terms d. of_nat (weight d t))"
    using small by (intro sum.cong refl ucast_of_nat_u32) auto
  also have "\<dots> = of_nat (\<Sum>t\<in>doc_terms d. weight d t)" by simp
  finally show ?thesis by (simp add: sum_weight)
qed

lemma index_inv_length:
  "index_inv s \<Longrightarrow> map_of (ix_docs s) i = Some d \<Longrightarrow> docLength s i = doc_weight d"
  by (simp add: docLength_def index_inv_def indexed_def)

lemma index_inv_terms:
  assumes "index_inv s"
  shows "fst ` set (ix_postings s) = (\<Union>d\<in>set (allDocuments s). doc_terms d)"
proof -
  have I: "indexed s (map_of (ix_docs s))" "distinct (map fst (ix_docs s))"
    using assms by (simp_all add: index_inv_def)
  have "t \<in> fst ` set (ix_postings s) \<longleftrightarrow> (\<exists>d\<in>set (allDocuments s). t \<in> doc_terms d)" for t
  proof -
    have "t \<in> fst ` set (ix_postings s) \<longleftrightarrow> plist s t \<noteq> []"
      using I(1) by (simp add: indexed_def postings_wf_def)
    also have "\<dots> \<longleftrightarrow> (\<exists>p. p \<in> set (plist s t))" by (cases "plist s t") auto
    also have "\<dots> \<longleftrightarrow> (\<exists>p. posting_of (map_of (ix_docs s)) t p)"
      using I(1) by (simp add: indexed_def)
    also have "\<dots> \<longleftrightarrow> (\<exists>i d. map_of (ix_docs s) i = Some d \<and> t \<in> doc_terms d)"
    proof
      assume "\<exists>i d. map_of (ix_docs s) i = Some d \<and> t \<in> doc_terms d"
      then obtain i d where "map_of (ix_docs s) i = Some d" "t \<in> doc_terms d" by blast
      then have "posting_of (map_of (ix_docs s)) t \<lparr>p_docId = i, p_termFreq = of_nat (weight d t)\<rparr>"
        by (simp add: posting_of_def doc_terms_weight)
      then show "\<exists>p. posting_of (map_of (ix_docs s)) t p" ..
    qed (auto simp: posting_of_def doc_terms_weight)
    also have "\<dots> \<longleftrightarrow> (\<exists>d\<in>set (allDocuments s). t \<in> doc_terms d)"
      using I(2) by (force simp: allDocuments_def map_of_eq_Some_iff)
    finally show ?thesis .
  qed
  then show ?thesis by blast
qed


section \<open>Properties\<close>

lemma inv_distinct_urls:
  assumes "index_inv s"
  shows "distinct (map doc_url (allDocuments s))"
proof -
  have "inj_on doc_url (set (allDocuments s)) \<and> distinct (allDocuments s)"
  proof
    show "inj_on doc_url (set (allDocuments s))"
    proof (rule inj_onI)
      fix d e assume *: "d \<in> set (allDocuments s)" "e \<in> set (allDocuments s)" "doc_url d = doc_url e"
      then obtain i j where "map_of (ix_docs s) i = Some d" "map_of (ix_docs s) j = Some e"
        using assms by (auto simp: allDocuments_def index_inv_def map_of_eq_Some_iff)
      then show "d = e"
        using index_inv_docD [OF assms] * by (metis option.inject)
    qed
    have "distinct (map fst (ix_docs s))" using assms by (simp add: index_inv_def)
    moreover have "map doc_id (allDocuments s) = map fst (ix_docs s)"
      using assms by (auto simp: allDocuments_def index_inv_def map_of_eq_Some_iff)
    ultimately show "distinct (allDocuments s)" by (metis distinct_map)
  qed
  then show ?thesis by (simp add: distinct_map)
qed

lemma inv_view_dom: "index_inv s \<Longrightarrow> dom (index_view s) = doc_url ` set (allDocuments s)"
proof -
  assume I: "index_inv s"
  have "index_view s u \<noteq> None \<longleftrightarrow> (\<exists>i d. map_of (ix_docs s) i = Some d \<and> doc_url d = u)" for u
  proof
    assume "index_view s u \<noteq> None"
    then show "\<exists>i d. map_of (ix_docs s) i = Some d \<and> doc_url d = u"
      using index_inv_urlD [OF I, of u] by (auto simp: index_view_def split: option.splits)
  next
    assume "\<exists>i d. map_of (ix_docs s) i = Some d \<and> doc_url d = u"
    then show "index_view s u \<noteq> None"
      using index_inv_docD [OF I] by (auto simp: index_view_def split: option.split)
  qed
  moreover have "d \<in> set (allDocuments s) \<longleftrightarrow> (\<exists>i. map_of (ix_docs s) i = Some d)" for d
    using I by (force simp: allDocuments_def index_inv_def map_of_eq_Some_iff)
  ultimately show ?thesis by (auto simp: dom_def image_iff) metis+
qed

lemma inv_documentCount: "index_inv s \<Longrightarrow> documentCount s = card (dom (index_view s))"
  using distinct_card [OF inv_distinct_urls [of s]]
  by (simp add: inv_view_dom documentCount_def allDocuments_def image_image)

lemma dom_by_url: "dom (by_url ds) = doc_url ` set ds"
  by (simp add: by_url_def dom_map_of_conv_image_fst image_image)

lemma room_run: "sum_list (map op_ids ops) \<le> 2 ^ 64 - 2 \<Longrightarrow> index_inv (index_run ops empty_index)"
  using index_run_inv_room [of empty_index ops] index_inv_clear(2) [of empty_index]
  by (simp add: index_inv_empty clear_index_empty)

lemma sum_list_of_nat: "sum_list (map (\<lambda>x. of_nat (f x)) xs) = of_nat (sum_list (map f xs))"
  by (induction xs) simp_all

lemma inv_total:
  assumes "index_inv s" "\<forall>d\<in>set (allDocuments s). doc_tokens d < 2 ^ 32"
  shows "ix_totalTerms s = of_nat (sum_list (map doc_tokens (allDocuments s)))"
proof -
  let ?D = "map_of (ix_docs s)"
  have dist: "distinct (map fst (ix_docs s))" using assms by (simp add: index_inv_def)
  have "ix_totalTerms s = (\<Sum>i\<in>dom ?D. doc_weight (the (?D i)))"
    using assms by (simp add: index_inv_def indexed_def)
  also have "\<dots> = (\<Sum>i\<in>set (map fst (ix_docs s)). doc_weight (the (?D i)))"
    by (simp add: dom_map_of_conv_image_fst)
  also have "\<dots> = sum_list (map (\<lambda>i. doc_weight (the (?D i))) (map fst (ix_docs s)))"
    by (rule sum_list_distinct_conv_sum_set [symmetric]) (rule dist)
  also have "map (\<lambda>i. doc_weight (the (?D i))) (map fst (ix_docs s)) = map doc_weight (allDocuments s)"
    using dist by (auto simp: allDocuments_def map_of_is_SomeI)
  also have "\<dots> = map (\<lambda>d. of_nat (doc_tokens d)) (allDocuments s)"
    using assms(2) by (auto simp: doc_weight_tokens)
  also have "sum_list \<dots> = of_nat (sum_list (map doc_tokens (allDocuments s)))"
    by (simp add: sum_list_of_nat)
  finally show ?thesis .
qed

text \<open>
  C23: For any sequence of insertions, removals, clears and replacements that allocates fewer than
  \<open>2 ^ 64 - 1\<close> identifiers, the postings of a term are exactly the pairs of a stored document
  that contains it and its weighted frequency there, with no document listed twice; a term that no
  stored document contains has no postings at all.
\<close>

theorem postings_exact:
  assumes "sum_list (map op_ids ops) \<le> 2 ^ 64 - 2" and "s = index_run ops empty_index"
  shows "case postings s t of
      None \<Rightarrow> \<forall>d\<in>set (allDocuments s). weight d t = 0
    | Some l \<Rightarrow> l \<noteq> [] \<and> distinct (map p_docId l) \<and>
        (\<forall>p. p \<in> set l \<longleftrightarrow> (\<exists>d. index_document s (p_docId p) = Some d \<and> 0 < weight d t \<and>
           p_termFreq p = of_nat (weight d t)))"
proof -
  have I: "index_inv s" using room_run [OF assms(1)] assms(2) by simp
  note ind = index_inv_indexed [OF I]
  show ?thesis
  proof (cases "postings s t")
    case None
    then have "t \<notin> fst ` set (ix_postings s)" by (simp add: postings_def map_of_eq_None_iff)
    then show ?thesis using None I by (auto simp: index_inv_terms doc_terms_weight)
  next
    case (Some l)
    then have "l = plist s t" by (simp add: postings_def at_default_def)
    moreover have "t \<in> fst ` set (ix_postings s)" using Some by (force simp: postings_def dest: map_of_SomeD)
    ultimately show ?thesis
      using Some ind by (simp add: indexed_def postings_wf_def posting_of_def index_document_def)
  qed
qed

abbreviation sample_doc :: "string \<Rightarrow> string \<Rightarrow> document" where
  "sample_doc u t \<equiv> empty_document\<lparr>doc_url := u, doc_title := t, doc_content := ''a tor''\<rparr>"

theorem postings_exact_witness:
  "let s = index_run [AddDoc (sample_doc ''u'' ''tor''), AddDoc (sample_doc ''v'' ''x''), RemoveDoc 1]
       empty_index
   in postings s ''tor'' = Some [\<lparr>p_docId = 2, p_termFreq = 1\<rparr>]"
proof -
  let ?ops = "[AddDoc (sample_doc ''u'' ''tor''), AddDoc (sample_doc ''v'' ''x''), RemoveDoc 1]"
  have "sum_list (map op_ids ?ops) \<le> 2 ^ 64 - 2" by simp
  note postings_exact [OF this refl, of "''tor''"]
  moreover have "postings (index_run ?ops empty_index) ''tor'' = Some [\<lparr>p_docId = 2, p_termFreq = 1\<rparr>]"
    by code_simp
  ultimately show ?thesis by simp
qed

text \<open>
  C24: Adding a document to a reachable index with identifiers left returns the identifier under
  which the document is then stored, changes the entry of its URL and no other, and keeps the
  identifier when the URL was already known.
\<close>

theorem addDocument_refines:
  assumes "sum_list (map op_ids ops) \<le> 2 ^ 64 - 2" and "s = index_run ops empty_index"
    and "addDocument s d = (s', i)"
  shows "index_view s' = (index_view s)(doc_url d \<mapsto> strip_id d) \<and>
    index_document s' i = Some (d\<lparr>doc_id := i\<rparr>) \<and>
    (\<forall>j e. index_document s j = Some e \<and> doc_url e = doc_url d \<longrightarrow> j = i) \<and>
    (\<forall>j. j \<noteq> i \<longrightarrow> index_document s' j = index_document s j)"
proof -
  have I: "index_inv s" using room_run [OF assms(1)] assms(2) by simp
  have s': "s' = fst (addDocumentLocked s d)" "i = snd (addDocumentLocked s d)"
    using assms(3) by (simp_all add: addDocument_def)
  have k: "map_of (ix_docs s) j = Some e \<Longrightarrow> doc_url e = doc_url d \<Longrightarrow>
      map_of (ix_urlToId s) (doc_url d) = Some j" for j e
    using index_inv_docD [OF I, of j e] by simp
  show ?thesis
  proof (cases "map_of (ix_urlToId s) (doc_url d)")
    case None
    then show ?thesis
      using k I
      by (simp add: s' index_view_add) (auto simp: addDocumentLocked_new index_document_def update_conv')
  next
    case (Some k)
    then show ?thesis
      using k I
      by (simp add: s' index_view_add) (auto simp: addDocumentLocked_known index_document_def update_conv')
  qed
qed

theorem addDocument_refines_witness:
  "index_document (fst (addDocument (index_run [AddDoc (sample_doc ''u'' ''tor'')] empty_index)
      (sample_doc ''u'' ''x''))) 1 = Some (sample_doc ''u'' ''x''\<lparr>doc_id := 1\<rparr>)"
proof -
  let ?s = "index_run [AddDoc (sample_doc ''u'' ''tor'')] empty_index"
  have "sum_list (map op_ids [AddDoc (sample_doc ''u'' ''tor'')]) \<le> 2 ^ 64 - 2" by simp
  note addDocument_refines [OF this refl, of "sample_doc ''u'' ''x''"]
  moreover have "snd (addDocument ?s (sample_doc ''u'' ''x'')) = 1" by code_simp
  ultimately show ?thesis by (metis prod.collapse)
qed

text \<open>
  C25: Removing a stored document removes exactly the entry of its URL and leaves no posting with
  its identifier; removing an unknown identifier changes nothing.
\<close>

theorem removeDocument_refines:
  assumes "sum_list (map op_ids ops) \<le> 2 ^ 64 - 2" and "s = index_run ops empty_index"
  shows "case index_document s i of
      None \<Rightarrow> removeDocument s i = s
    | Some d \<Rightarrow> index_view (removeDocument s i) = (index_view s)(doc_url d := None) \<and>
        index_document (removeDocument s i) = (index_document s)(i := None) \<and>
        (\<forall>t l p. postings (removeDocument s i) t = Some l \<and> p \<in> set l \<longrightarrow> p_docId p \<noteq> i)"
proof (cases "index_document s i")
  case None
  then show ?thesis by (simp add: removeDocument_def index_document_def)
next
  case (Some d)
  have I: "index_inv s" using room_run [OF assms(1)] assms(2) by simp
  have d: "map_of (ix_docs s) i = Some d" using Some by (simp add: index_document_def)
  have doc: "index_document (removeDocument s i) = (index_document s)(i := None)"
    using d by (simp add: removeDocument_def Let_def index_document_def fun_eq_iff delete_conv')
  have "p_docId p \<noteq> i" if "postings (removeDocument s i) t = Some l" "p \<in> set l" for t l p
  proof -
    have "p \<in> set (plist (removeDocument s i) t)" using that by (simp add: postings_def at_default_def)
    then have "posting_of (map_of (ix_docs (removeDocument s i))) t p"
      using index_inv_indexed [OF index_inv_remove [OF I]] by (simp add: indexed_def)
    then show ?thesis using fun_cong [OF doc, of i] by (auto simp: posting_of_def index_document_def)
  qed
  then show ?thesis
    using Some doc index_view_remove [OF I d] by simp blast
qed

theorem removeDocument_refines_witness:
  "index_view (removeDocument (index_run [AddDoc (sample_doc ''u'' ''tor'')] empty_index) 1) ''u'' = None"
proof -
  let ?s = "index_run [AddDoc (sample_doc ''u'' ''tor'')] empty_index"
  have "sum_list (map op_ids [AddDoc (sample_doc ''u'' ''tor'')]) \<le> 2 ^ 64 - 2" by simp
  note removeDocument_refines [OF this refl, of 1]
  moreover have "index_document ?s 1 = Some (sample_doc ''u'' ''tor''\<lparr>doc_id := 1\<rparr>)" by code_simp
  ultimately show ?thesis by simp
qed

text \<open>
  C26: Replacing the whole index by a list of documents keeps, for every URL, the last document of
  the list with it, whatever the index held before, and the document count is the number of
  distinct URLs.
\<close>

theorem replaceAll_last_wins:
  assumes "length ds \<le> 2 ^ 64 - 2"
  shows "index_view (replaceAll s ds) u =
      map_option strip_id (find (\<lambda>d. doc_url d = u) (rev ds)) \<and>
    documentCount (replaceAll s ds) = card (doc_url ` set ds)"
proof -
  have "map_of (map (\<lambda>d. (doc_url d, strip_id d)) xs) u = map_option strip_id (find (\<lambda>d. doc_url d = u) xs)" for xs
    by (induction xs) auto
  then show ?thesis
    using replaceAll_store [OF assms, of s]
    by (simp add: inv_documentCount dom_by_url) (simp add: by_url_def rev_map)
qed

theorem replaceAll_last_wins_witness:
  "index_view (replaceAll empty_index [sample_doc ''u'' ''x'', sample_doc ''u'' ''y'']) ''u'' =
     Some (sample_doc ''u'' ''y'')"
  using replaceAll_last_wins [of "[sample_doc ''u'' ''x'', sample_doc ''u'' ''y'']" empty_index "''u''"]
  by (simp add: strip_id_def empty_document_def)

text \<open>
  C27: In a reachable index whose documents have fewer than \<open>2 ^ 32\<close> weighted tokens each and
  \<open>2 ^ 64\<close> together, no length has wrapped: a document's length is its number of tokens with the
  title counted three times, the average length times the document count is the sum over all
  stored documents, and the term count is the number of distinct terms in them.
\<close>

theorem lengths_exact:
  assumes "sum_list (map op_ids ops) \<le> 2 ^ 64 - 2" and "s = index_run ops empty_index"
    and "\<forall>d\<in>set (allDocuments s). doc_tokens d < 2 ^ 32"
    and "sum_list (map doc_tokens (allDocuments s)) < 2 ^ 64"
  shows "(\<forall>i d. index_document s i = Some d \<longrightarrow> unat (docLength s i) = doc_tokens d) \<and>
    (averageDocLength s * of_nat (documentCount s) :: rat) =
      of_nat (sum_list (map doc_tokens (allDocuments s))) \<and>
    termCount s = card (\<Union>d\<in>set (allDocuments s). doc_terms d)"
proof (intro conjI allI impI)
  have I: "index_inv s" using room_run [OF assms(1)] assms(2) by simp
  show "unat (docLength s i) = doc_tokens d" if "index_document s i = Some d" for i d
  proof -
    have "d \<in> set (allDocuments s)"
      using that by (force simp: index_document_def allDocuments_def dest: map_of_SomeD)
    then have "doc_tokens d < 2 ^ 32" using assms(3) by blast
    moreover from this have "docLength s i = of_nat (doc_tokens d)"
      using that index_inv_length [OF I, of i d] doc_weight_tokens [of d]
      by (simp add: index_document_def)
    ultimately show ?thesis by (simp add: unat_of_nat_u64)
  qed
  have "unat (ix_totalTerms s) = sum_list (map doc_tokens (allDocuments s))"
    using inv_total [OF I assms(3)] assms(4) by (simp add: unat_of_nat_u64)
  then show "(averageDocLength s * of_nat (documentCount s) :: rat) =
      of_nat (sum_list (map doc_tokens (allDocuments s)))"
    by (simp add: averageDocLength_def documentCount_def allDocuments_def)
  have "distinct (map fst (ix_postings s))"
    using index_inv_indexed [OF I] by (simp add: indexed_def postings_wf_def)
  then show "termCount s = card (\<Union>d\<in>set (allDocuments s). doc_terms d)"
    using distinct_card [of "map fst (ix_postings s)"] index_inv_terms [OF I]
    by (simp add: termCount_def)
qed

theorem lengths_exact_witness:
  "(averageDocLength (index_run [AddDoc (sample_doc ''u'' ''tor'')] empty_index) :: rat) = 5"
proof -
  let ?s = "index_run [AddDoc (sample_doc ''u'' ''tor'')] empty_index"
  have 1: "sum_list (map op_ids [AddDoc (sample_doc ''u'' ''tor'')]) \<le> 2 ^ 64 - 2" by simp
  have 2: "map doc_tokens (allDocuments ?s) = [5]" by code_simp
  then have "\<forall>d\<in>set (allDocuments ?s). doc_tokens d < 2 ^ 32" by (auto simp: map_eq_Cons_conv)
  moreover have "sum_list (map doc_tokens (allDocuments ?s)) < 2 ^ 64" using 2 by simp
  moreover have "documentCount ?s = 1" by code_simp
  ultimately show ?thesis using lengths_exact [OF 1 refl] 2 by simp
qed

end
