(* ===== verification/Bm25.thy ===== *)
theory Bm25
  imports Inverted_Index "HOL-Library.List_Lexorder" "HOL-Library.Product_Lexorder"
begin

text \<open>
  The ranker of \<open>src/bm25.cpp\<close>. Its \<open>double\<close> arithmetic is idealised: scores live in any
  ordered field \<open>'d\<close> and the natural logarithm is a parameter \<open>lg\<close>, so rounding is not
  modelled; at \<open>real\<close> the parameter is \<open>ln\<close>. The theory shows that \<open>rank\<close> returns the first
  \<open>limit\<close> matching documents in the order of the textbook score, with that score.
\<close>

record 'd scored_document =
  sc_doc :: document
  sc_score :: 'd

definition idf :: "('d \<Rightarrow> 'd) \<Rightarrow> 'd::linordered_field \<Rightarrow> 'd \<Rightarrow> 'd" where
  "idf lg N n = lg (1 + (N - n + 1 / 2) / (n + 1 / 2))"

definition tf :: "'d::linordered_field \<Rightarrow> 'd \<Rightarrow> 'd \<Rightarrow> 'd \<Rightarrow> 'd \<Rightarrow> 'd" where
  "tf k1 b avgdl f dl = (let denom = f + k1 * (1 - b + b * dl / avgdl) in f * (k1 + 1) / denom)"

text \<open>The turn of the main loop for one query term, and its inner loop over the postings.\<close>

definition accumulate_postings ::
    "'d::linordered_field \<Rightarrow> 'd \<Rightarrow> 'd \<Rightarrow> inverted_index \<Rightarrow> 'd \<Rightarrow> posting list \<Rightarrow> (u64 \<times> 'd) list \<Rightarrow> (u64 \<times> 'd) list" where
  "accumulate_postings k1 b avgdl index w ps accum =
     fold (\<lambda>p accum. add_to (p_docId p)
         (w * tf k1 b avgdl (of_nat (unat (p_termFreq p))) (of_nat (unat (docLength index (p_docId p))))) accum)
       ps accum"

definition accumulate_term ::
    "('d \<Rightarrow> 'd) \<Rightarrow> 'd::linordered_field \<Rightarrow> 'd \<Rightarrow> inverted_index \<Rightarrow> 'd \<Rightarrow> 'd \<Rightarrow> string \<Rightarrow> (u64 \<times> 'd) list \<Rightarrow> (u64 \<times> 'd) list" where
  "accumulate_term lg k1 b index N avgdl term accum =
     (case postings index term of
        None \<Rightarrow> accum
      | Some ps \<Rightarrow> accumulate_postings k1 b avgdl index (idf lg N (of_nat (length ps))) ps accum)"

text \<open>The comparator of the final sort orders by descending score, then ascending identifier.\<close>

definition rank_key :: "'d::linordered_field scored_document \<Rightarrow> 'd \<times> u64" where
  "rank_key r = (- sc_score r, doc_id (sc_doc r))"

definition rank ::
    "('d \<Rightarrow> 'd) \<Rightarrow> 'd::linordered_field \<Rightarrow> 'd \<Rightarrow> inverted_index \<Rightarrow> string list \<Rightarrow> nat \<Rightarrow> 'd scored_document list" where
  "rank lg k1 b index queryTokens limit =
     (if queryTokens = [] then []
      else
        let N = of_nat (documentCount index); avgdl = averageDocLength index
        in if N = 0 \<or> avgdl \<le> 0 then []
           else
             let terms = remdups_adj (sort queryTokens);
                 accum = fold (accumulate_term lg k1 b index N avgdl) terms [];
                 results = List.map_filter
                   (\<lambda>(docId, score). map_option (\<lambda>d. \<lparr>sc_doc = d, sc_score = score\<rparr>)
                      (index_document index docId)) accum;
                 results = sort_key rank_key results
             in if limit < length results then take limit results else results)"

section \<open>The accumulator\<close>

definition contribution ::
    "('d \<Rightarrow> 'd) \<Rightarrow> 'd::linordered_field \<Rightarrow> 'd \<Rightarrow> inverted_index \<Rightarrow> 'd \<Rightarrow> 'd \<Rightarrow> string \<Rightarrow> u64 \<Rightarrow> 'd" where
  "contribution lg k1 b s N avgdl t i =
     (case find (\<lambda>p. p_docId p = i) (plist s t) of
        None \<Rightarrow> 0
      | Some p \<Rightarrow> idf lg N (of_nat (length (plist s t))) *
          tf k1 b avgdl (of_nat (unat (p_termFreq p))) (of_nat (unat (docLength s i))))"

lemma accumulate_postings_props:
  "fst ` set (accumulate_postings k1 b avgdl s w ps m) = fst ` set m \<union> p_docId ` set ps"
  "distinct (map fst m) \<Longrightarrow> distinct (map fst (accumulate_postings k1 b avgdl s w ps m))"
  by (induction ps arbitrary: m) (simp_all add: accumulate_postings_def distinct_update)

lemma accumulate_postings_value:
  "distinct (map p_docId ps) \<Longrightarrow>
     at_default 0 (accumulate_postings k1 b avgdl s w ps m) i = at_default 0 m i +
       (case find (\<lambda>p. p_docId p = i) ps of None \<Rightarrow> 0
        | Some p \<Rightarrow> w * tf k1 b avgdl (of_nat (unat (p_termFreq p))) (of_nat (unat (docLength s i))))"
proof (induction ps arbitrary: m)
  case (Cons p ps)
  have "p_docId p = i \<Longrightarrow> find (\<lambda>q. p_docId q = i) ps = None"
    using Cons.prems by (auto simp: find_None_iff image_iff)
  with Cons show ?case by (auto simp: accumulate_postings_def)
qed (simp add: accumulate_postings_def)

lemma accumulate_term_plist:
  "accumulate_term lg k1 b s N avgdl t m =
     accumulate_postings k1 b avgdl s (idf lg N (of_nat (length (plist s t)))) (plist s t) m"
  by (simp add: accumulate_term_def postings_def at_default_def accumulate_postings_def split: option.split)

lemma distinct_remdups_adj_sort: "distinct (remdups_adj (sort (xs :: 'a::linorder list)))"
proof -
  have "sorted ys \<Longrightarrow> distinct (remdups_adj ys)" for ys :: "'a list"
    by (induction ys rule: remdups_adj.induct) (auto simp: less_le)
  then show ?thesis by simp
qed

lemma accumulate_terms:
  assumes "\<And>t. distinct (map p_docId (plist s t))" and "distinct ts"
  shows "at_default 0 (fold (accumulate_term lg k1 b s N avgdl) ts m) i =
      at_default 0 m i + (\<Sum>t\<in>set ts. contribution lg k1 b s N avgdl t i)"
    and "fst ` set (fold (accumulate_term lg k1 b s N avgdl) ts m) =
      fst ` set m \<union> (\<Union>t\<in>set ts. p_docId ` set (plist s t))"
    and "distinct (map fst m) \<Longrightarrow> distinct (map fst (fold (accumulate_term lg k1 b s N avgdl) ts m))"
  using assms(2)
proof (induction ts arbitrary: m)
  case (Cons t ts)
  {
    case 1
    with Cons.IH(1) assms(1) show ?case
      by (simp add: accumulate_term_plist accumulate_postings_value contribution_def add.assoc)
  next
    case 2
    with Cons.IH(2) show ?case
      by (simp add: accumulate_term_plist accumulate_postings_props Un_assoc)
  next
    case 3
    with Cons.IH(3) show ?case
      by (simp add: accumulate_term_plist accumulate_postings_props)
  }
qed simp_all

section \<open>The textbook score\<close>

definition doc_freq :: "document list \<Rightarrow> string \<Rightarrow> nat" where
  "doc_freq ds t = length (filter (\<lambda>d. t \<in> doc_terms d) ds)"

definition bm25_score :: "('d \<Rightarrow> 'd) \<Rightarrow> 'd::linordered_field \<Rightarrow> 'd \<Rightarrow> document list \<Rightarrow> string list \<Rightarrow> document \<Rightarrow> 'd" where
  "bm25_score lg k1 b ds qs d =
     (let N = of_nat (length ds); avgdl = of_nat (sum_list (map doc_tokens ds)) / N
      in \<Sum>t\<in>set qs \<inter> doc_terms d. idf lg N (of_nat (doc_freq ds t)) *
           tf k1 b avgdl (of_nat (weight d t)) (of_nat (doc_tokens d)))"

section \<open>The ranker computes the textbook score\<close>

lemma plist_ids:
  "index_inv s \<Longrightarrow> p_docId ` set (plist s t) = {i. \<exists>d. map_of (ix_docs s) i = Some d \<and> t \<in> doc_terms d}"
proof -
  assume "index_inv s"
  then have "p \<in> set (plist s t) \<longleftrightarrow> posting_of (map_of (ix_docs s)) t p" for p
    using index_inv_indexed by (simp add: indexed_def)
  moreover have "posting_of D t \<lparr>p_docId = i, p_termFreq = of_nat (weight d t)\<rparr>"
    if "D i = Some d" "t \<in> doc_terms d" for D i d
    using that by (simp add: posting_of_def doc_terms_weight)
  ultimately show ?thesis
    by (auto simp: image_iff posting_of_def doc_terms_weight) (metis posting.select_convs)
qed

lemma plist_length:
  assumes "index_inv s"
  shows "length (plist s t) = doc_freq (allDocuments s) t"
proof -
  let ?F = "filter (\<lambda>x. t \<in> doc_terms (snd x)) (ix_docs s)"
  have d: "distinct (map fst (ix_docs s))" using assms by (simp add: index_inv_def)
  have "distinct (map p_docId (plist s t))" using index_inv_indexed [OF assms] by (simp add: indexed_def)
  then have "length (plist s t) = card (p_docId ` set (plist s t))" by (metis distinct_card length_map set_map)
  also have "p_docId ` set (plist s t) = set (map fst ?F)"
    using d by (force simp: plist_ids [OF assms] map_of_eq_Some_iff)
  also have "card \<dots> = length ?F"
    using distinct_card [of "map fst ?F"] distinct_map_filter [OF d] by simp
  also have "\<dots> = doc_freq (allDocuments s) t"
    by (simp add: doc_freq_def allDocuments_def filter_map comp_def)
  finally show ?thesis .
qed

definition small_docs :: "document list \<Rightarrow> bool" where
  "small_docs ds \<longleftrightarrow> (\<forall>d\<in>set ds. doc_tokens d < 2 ^ 32) \<and> sum_list (map doc_tokens ds) < 2 ^ 64"

lemma weight_le: "weight d t \<le> doc_tokens d"
proof (cases "t \<in> doc_terms d")
  case True
  then have "weight d t \<le> (\<Sum>t\<in>doc_terms d. weight d t)"
    by (intro member_le_sum) (simp_all add: doc_terms_def)
  then show ?thesis by (simp add: sum_weight)
qed (simp add: doc_terms_weight)

lemma docLength_tokens:
  assumes "index_inv s" "doc_tokens d < 2 ^ 32" "map_of (ix_docs s) i = Some d"
  shows "unat (docLength s i) = doc_tokens d"
  using assms index_inv_length [OF assms(1,3)] doc_weight_tokens [OF assms(2)]
  by (simp add: unat_of_nat_u64)

lemma contribution_textbook:
  assumes I: "index_inv s" and d: "map_of (ix_docs s) i = Some d" and small: "doc_tokens d < 2 ^ 32"
  shows "contribution lg k1 b s N avgdl t i =
     (if t \<in> doc_terms d
      then idf lg N (of_nat (doc_freq (allDocuments s) t)) *
        tf k1 b avgdl (of_nat (weight d t)) (of_nat (doc_tokens d)) else 0)"
proof (cases "find (\<lambda>p. p_docId p = i) (plist s t)")
  case None
  then have "i \<notin> p_docId ` set (plist s t)" by (auto simp: find_None_iff)
  with None d show ?thesis by (simp add: contribution_def plist_ids [OF I])
next
  case (Some p)
  then have p: "p \<in> set (plist s t)" "p_docId p = i"
    by (auto simp: find_Some_iff)
  then have "posting_of (map_of (ix_docs s)) t p"
    using index_inv_indexed [OF I] by (simp add: indexed_def)
  with p d have w: "0 < weight d t" "p_termFreq p = of_nat (weight d t)"
    by (simp_all add: posting_of_def)
  have "unat (p_termFreq p) = weight d t"
    using w(2) weight_le [of d t] small by (simp add: unat_of_nat_u32)
  with w(1) Some show ?thesis
    using docLength_tokens [OF I small d]
    by (simp add: contribution_def plist_length [OF I] doc_terms_weight)
qed

lemma inv_average:
  assumes "index_inv s" "small_docs (allDocuments s)"
  shows "averageDocLength s =
     of_nat (sum_list (map doc_tokens (allDocuments s))) / of_nat (documentCount s)"
proof -
  have "unat (ix_totalTerms s) = sum_list (map doc_tokens (allDocuments s))"
    using inv_total [OF assms(1)] assms(2) by (simp add: small_docs_def unat_of_nat_u64)
  then show ?thesis by (simp add: averageDocLength_def documentCount_def)
qed

lemma inj_doc_id:
  assumes "index_inv s"
  shows "inj_on doc_id (set (allDocuments s))"
proof (rule inj_onI)
  fix d e assume *: "d \<in> set (allDocuments s)" "e \<in> set (allDocuments s)" "doc_id d = doc_id e"
  then obtain i j where "map_of (ix_docs s) i = Some d" "map_of (ix_docs s) j = Some e"
    using assms by (auto simp: allDocuments_def index_inv_def map_of_eq_Some_iff)
  then show "d = e" using index_inv_docD [OF assms] * by (metis option.inject)
qed

lemma documentCount_all: "documentCount s = length (allDocuments s)"
  by (simp add: documentCount_def allDocuments_def)

text \<open>The list the ranker sorts and cuts.\<close>

definition matches ::
    "('d \<Rightarrow> 'd) \<Rightarrow> 'd::linordered_field \<Rightarrow> 'd \<Rightarrow> inverted_index \<Rightarrow> string list \<Rightarrow> 'd scored_document list" where
  "matches lg k1 b s qs =
     List.map_filter (\<lambda>(i, score). map_option (\<lambda>d. \<lparr>sc_doc = d, sc_score = score\<rparr>) (index_document s i))
       (fold (accumulate_term lg k1 b s (of_nat (documentCount s)) (averageDocLength s))
          (remdups_adj (sort qs)) [])"

lemma matches_props:
  assumes I: "index_inv s" and small: "small_docs (allDocuments s)"
  shows "\<forall>r\<in>set (matches lg k1 b s qs). sc_score r = bm25_score lg k1 b (allDocuments s) qs (sc_doc r)"
    and "sc_doc ` set (matches lg k1 b s qs) = {d \<in> set (allDocuments s). set qs \<inter> doc_terms d \<noteq> {}}"
    and "distinct (map sc_doc (matches lg k1 b s qs))"
proof -
  let ?N = "of_nat (documentCount s)" and ?avg = "averageDocLength s"
  let ?acc = "fold (accumulate_term lg k1 b s ?N ?avg) (remdups_adj (sort qs)) []"
  have dist: "distinct (map p_docId (plist s t))" for t
    using index_inv_indexed [OF I] by (simp add: indexed_def)
  have dt: "distinct (remdups_adj (sort qs))" by (simp add: distinct_remdups_adj_sort)
  note acc = accumulate_terms [OF dist dt, where m = "[]" and lg = lg and ?k1.0 = k1 and b = b
      and N = ?N and avgdl = ?avg]
  have keys: "fst ` set ?acc = (\<Union>t\<in>set qs. p_docId ` set (plist s t))" using acc(2) by simp
  have kd: "distinct (map fst ?acc)" using acc(3) by simp
  have stored: "\<exists>d. map_of (ix_docs s) i = Some d \<and> set qs \<inter> doc_terms d \<noteq> {}" if "(i, x) \<in> set ?acc" for i x
  proof -
    have "i \<in> fst ` set ?acc" using that by force
    then show ?thesis unfolding keys by (auto simp: plist_ids [OF I])
  qed
  have doc: "doc_id d = i" "d \<in> set (allDocuments s)" if "map_of (ix_docs s) i = Some d" for i d
    using that index_inv_docD [OF I that] by (force simp: allDocuments_def dest: map_of_SomeD)+
  have mem: "r \<in> set (matches lg k1 b s qs) \<longleftrightarrow>
      (\<exists>i d x. (i, x) \<in> set ?acc \<and> map_of (ix_docs s) i = Some d \<and> r = \<lparr>sc_doc = d, sc_score = x\<rparr>)" for r
    by (force simp: matches_def map_filter_def index_document_def)
  have score: "x = bm25_score lg k1 b (allDocuments s) qs d"
    if ix: "(i, x) \<in> set ?acc" and d: "map_of (ix_docs s) i = Some d" for i d x
  proof -
    have sm: "doc_tokens d < 2 ^ 32" using small doc [OF d] by (simp add: small_docs_def)
    have "map_of ?acc i = Some x" using ix kd by (simp add: map_of_eq_Some_iff)
    then have "x = at_default 0 ?acc i" by (simp add: at_default_def)
    also have "\<dots> = (\<Sum>t\<in>set qs. contribution lg k1 b s ?N ?avg t i)" using acc(1) [of i] by simp
    also have "\<dots> = bm25_score lg k1 b (allDocuments s) qs d"
      by (simp add: bm25_score_def Let_def contribution_textbook [OF I d sm] inv_average [OF I small]
          documentCount_all sum.inter_restrict)
    finally show ?thesis .
  qed
  show "\<forall>r\<in>set (matches lg k1 b s qs). sc_score r = bm25_score lg k1 b (allDocuments s) qs (sc_doc r)"
    using score by (auto simp: mem)
  show "sc_doc ` set (matches lg k1 b s qs) = {d \<in> set (allDocuments s). set qs \<inter> doc_terms d \<noteq> {}}"
  proof (intro set_eqI iffI)
    fix d assume "d \<in> sc_doc ` set (matches lg k1 b s qs)"
    then show "d \<in> {d \<in> set (allDocuments s). set qs \<inter> doc_terms d \<noteq> {}}"
      using stored doc(2) by (fastforce simp: mem)
  next
    fix d assume d: "d \<in> {d \<in> set (allDocuments s). set qs \<inter> doc_terms d \<noteq> {}}"
    then obtain i where i: "map_of (ix_docs s) i = Some d"
      using I by (auto simp: allDocuments_def index_inv_def map_of_eq_Some_iff)
    then have "i \<in> fst ` set ?acc" unfolding keys using d by (auto simp: plist_ids [OF I])
    then obtain x where "(i, x) \<in> set ?acc" by force
    with i have "\<lparr>sc_doc = d, sc_score = x\<rparr> \<in> set (matches lg k1 b s qs)" by (auto simp: mem)
    then show "d \<in> sc_doc ` set (matches lg k1 b s qs)" by force
  qed
  have "map doc_id (map sc_doc (matches lg k1 b s qs)) = map fst ?acc"
  proof -
    have "\<forall>(i, x)\<in>set xs. \<exists>d. map_of (ix_docs s) i = Some d \<Longrightarrow>
        map doc_id (map sc_doc (List.map_filter
          (\<lambda>(i, score). map_option (\<lambda>d. \<lparr>sc_doc = d, sc_score = score\<rparr>) (index_document s i)) xs)) = map fst xs" for xs
      by (induction xs) (auto simp: map_filter_simps index_document_def doc(1))
    then show ?thesis unfolding matches_def using stored by blast
  qed
  then show "distinct (map sc_doc (matches lg k1 b s qs))" using kd by (metis distinct_map)
qed

definition ranked_before :: "'d::linordered_field scored_document \<Rightarrow> 'd scored_document \<Rightarrow> bool" where
  "ranked_before r q \<longleftrightarrow> sc_score q < sc_score r \<or>
     (sc_score r = sc_score q \<and> doc_id (sc_doc r) < doc_id (sc_doc q))"

lemma sorted_ranked:
  assumes "distinct (map (\<lambda>r. doc_id (sc_doc r)) rs)"
  shows "sorted_wrt ranked_before (sort_key rank_key rs)"
proof -
  let ?s = "sort_key rank_key rs"
  have "sorted_wrt (\<lambda>r q. rank_key r \<le> rank_key q) ?s"
    using sorted_sort_key [of rank_key rs] by (simp add: sorted_wrt_map)
  moreover have "distinct (map (\<lambda>r. doc_id (sc_doc r)) ?s)"
    using assms by (simp add: distinct_map)
  then have "sorted_wrt (\<lambda>r q. doc_id (sc_doc r) \<noteq> doc_id (sc_doc q)) ?s"
    by (auto simp: sorted_wrt_iff_nth_less distinct_conv_nth)
  ultimately have "sorted_wrt (\<lambda>r q. rank_key r \<le> rank_key q \<and> doc_id (sc_doc r) \<noteq> doc_id (sc_doc q)) ?s"
    by (simp add: sorted_wrt_iff_nth_less)
  then show ?thesis
    by (rule sorted_wrt_mono_rel [rotated]) (auto simp: rank_key_def ranked_before_def less_eq_prod_def)
qed

lemma no_tokens: "doc_tokens d = 0 \<Longrightarrow> doc_terms d = {}"
  using weight_le [of d] by (auto simp: doc_terms_weight)

lemma matches_empty:
  assumes "index_inv s" "small_docs (allDocuments s)"
    and "qs = [] \<or> documentCount s = 0 \<or> averageDocLength s \<le> (0 :: 'd::linordered_field)"
  shows "matches lg (k1 :: 'd) b s qs = []"
proof -
  have "{d \<in> set (allDocuments s). set qs \<inter> doc_terms d \<noteq> {}} = {}"
  proof (cases "qs = [] \<or> documentCount s = 0")
    case True
    then show ?thesis by (auto simp: documentCount_def allDocuments_def)
  next
    case False
    then have "0 < (of_nat (documentCount s) :: 'd)" by simp
    then have "of_nat (sum_list (map doc_tokens (allDocuments s))) \<le> (0 :: 'd)"
      using assms(3) False by (metis inv_average [OF assms(1,2)] divide_pos_pos not_le)
    then have "\<forall>d\<in>set (allDocuments s). doc_tokens d = 0" by simp
    then show ?thesis by (auto dest: no_tokens)
  qed
  then have "sc_doc ` set (matches lg k1 b s qs) = {}"
    using matches_props(2) [OF assms(1,2), of lg k1 b qs] by simp
  then show ?thesis by simp
qed

lemma rank_matches:
  assumes "index_inv s" "small_docs (allDocuments s)"
  shows "rank lg k1 b s qs limit = take limit (sort_key rank_key (matches lg k1 b s qs))"
proof (cases "qs = [] \<or> documentCount s = 0 \<or> averageDocLength s \<le> (0 :: 'a)")
  case True
  then show ?thesis using matches_empty [OF assms True, where lg = lg and ?k1.0 = k1 and b = b] by (auto simp: rank_def)
next
  case False
  then show ?thesis by (simp add: rank_def Let_def matches_def)
qed

lemma rankD:
  assumes "index_inv s" "small_docs (allDocuments s)" "r \<in> set (rank lg k1 b s qs limit)"
  shows "sc_score r = bm25_score lg k1 b (allDocuments s) qs (sc_doc r)"
    "sc_doc r \<in> set (allDocuments s)" "set qs \<inter> doc_terms (sc_doc r) \<noteq> {}"
proof -
  note props = matches_props [OF assms(1,2), of lg k1 b qs]
  have r: "r \<in> set (matches lg k1 b s qs)"
    using assms(3) in_set_takeD [of r limit] unfolding rank_matches [OF assms(1,2)] by (metis set_sort)
  then show "sc_score r = bm25_score lg k1 b (allDocuments s) qs (sc_doc r)" using props(1) by blast
  have "sc_doc r \<in> sc_doc ` set (matches lg k1 b s qs)" using r by (rule imageI)
  then show "sc_doc r \<in> set (allDocuments s)" "set qs \<inter> doc_terms (sc_doc r) \<noteq> {}"
    unfolding props(2) by auto
qed

lemma rank_nonempty:
  assumes "index_inv s" "small_docs (allDocuments s)" "d \<in> set (allDocuments s)"
    and "t \<in> set qs" "t \<in> doc_terms d" "0 < limit"
  shows "rank lg k1 b s qs limit \<noteq> []"
proof -
  have "d \<in> sc_doc ` set (matches lg k1 b s qs)"
    unfolding matches_props(2) [OF assms(1,2)] using assms(3-5) by blast
  then have "sort_key rank_key (matches lg k1 b s qs) \<noteq> []" by (metis set_sort empty_iff image_empty list.set(1))
  with assms(6) show ?thesis by (simp add: rank_matches [OF assms(1,2)])
qed

section \<open>Laws of the logarithm\<close>

text \<open>What the ranking needs of the logarithm, met by the real one.\<close>

locale log_like =
  fixes lg :: "'d::linordered_field \<Rightarrow> 'd"
  assumes lg_pos: "1 < x \<Longrightarrow> 0 < lg x"
begin

lemma idf_pos: "0 \<le> n \<Longrightarrow> n \<le> N \<Longrightarrow> 0 < idf lg N n"
  unfolding idf_def by (rule lg_pos) (simp add: field_simps)

lemma tf_pos:
  assumes "0 < f" "0 \<le> k1" "0 \<le> b" "b \<le> 1" "0 \<le> dl" "0 < avgdl"
  shows "0 < tf k1 b avgdl f dl"
proof -
  have "0 \<le> k1 * (1 - b + b * dl / avgdl)" using assms by simp
  then show ?thesis using assms by (simp add: tf_def Let_def add_pos_nonneg)
qed

lemma summand_pos:
  assumes "d \<in> set ds" "t \<in> doc_terms d" "0 \<le> k1" "0 \<le> b" "b \<le> 1"
  shows "0 < idf lg (of_nat (length ds)) (of_nat (doc_freq ds t)) *
    tf k1 b (of_nat (sum_list (map doc_tokens ds)) / of_nat (length ds)) (of_nat (weight d t))
      (of_nat (doc_tokens d))"
proof -
  have "doc_tokens d \<noteq> 0" using no_tokens assms(2) by blast
  then have "0 < sum_list (map doc_tokens ds)"
    using assms(1) member_le_sum_list [of "doc_tokens d" "map doc_tokens ds"] by fastforce
  moreover have "ds \<noteq> []" using assms(1) by auto
  moreover have "0 < weight d t" using assms(2) by (simp add: doc_terms_weight)
  moreover have "doc_freq ds t \<le> length ds" by (simp add: doc_freq_def)
  ultimately show ?thesis using assms(3-5) by (intro mult_pos_pos idf_pos tf_pos) simp_all
qed

lemma score_pos:
  "d \<in> set ds \<Longrightarrow> set qs \<inter> doc_terms d \<noteq> {} \<Longrightarrow> 0 \<le> k1 \<Longrightarrow> 0 \<le> b \<Longrightarrow> b \<le> 1 \<Longrightarrow>
     0 < bm25_score lg k1 b ds qs d"
  unfolding bm25_score_def Let_def by (rule sum_pos) (auto intro: summand_pos)

lemma score_mono:
  "d \<in> set ds \<Longrightarrow> set qs \<subseteq> set qs' \<Longrightarrow> 0 \<le> k1 \<Longrightarrow> 0 \<le> b \<Longrightarrow> b \<le> 1 \<Longrightarrow>
     bm25_score lg k1 b ds qs d \<le> bm25_score lg k1 b ds qs' d"
  unfolding bm25_score_def Let_def by (rule sum_mono2) (auto intro: summand_pos less_imp_le)

end

interpretation real_log: log_like "ln :: real \<Rightarrow> real"
  by unfold_locales simp

section \<open>Properties\<close>

text \<open>
  C12: On a reachable index without length overflow, the ranker returns the first \<open>limit\<close> of the
  documents that contain a query term, each once, with the textbook BM25 score of the stored
  documents, in strictly descending order of score with ties by ascending identifier.
\<close>

theorem rank_textbook:
  assumes "sum_list (map op_ids ops) \<le> 2 ^ 64 - 2" and "s = index_run ops empty_index"
    and "small_docs (allDocuments s)"
  shows "\<exists>full. rank lg k1 b s qs limit = take limit full \<and>
    distinct (map sc_doc full) \<and> sorted_wrt ranked_before full \<and>
    sc_doc ` set full = {d \<in> set (allDocuments s). set qs \<inter> doc_terms d \<noteq> {}} \<and>
    (\<forall>r\<in>set full. sc_score r = bm25_score lg k1 b (allDocuments s) qs (sc_doc r))"
proof (intro exI conjI)
  have I: "index_inv s" using room_run [OF assms(1)] assms(2) by simp
  note props = matches_props [OF I assms(3), of lg k1 b qs]
  let ?full = "sort_key rank_key (matches lg k1 b s qs)"
  show "rank lg k1 b s qs limit = take limit ?full" by (rule rank_matches [OF I assms(3)])
  show "distinct (map sc_doc ?full)"
    using props(3) by (simp add: distinct_map)
  note inj_doc_id [OF I]
  then have "distinct (map doc_id (map sc_doc (matches lg k1 b s qs)))"
    using props(2,3) by (subst distinct_map) (auto intro: inj_on_subset)
  then show "sorted_wrt ranked_before ?full" by (simp add: sorted_ranked comp_def)
qed (use matches_props [OF room_run [OF assms(1), folded assms(2)] assms(3), of lg k1 b qs] in simp_all)

theorem rank_textbook_witness:
  "let s = index_run [AddDoc (sample_doc ''u'' ''tor''), AddDoc (sample_doc ''v'' ''x'')] empty_index;
       rs = rank (\<lambda>x. x - 1) (6 / 5 :: rat) (3 / 4) s [''tor''] 10
   in rs \<noteq> [] \<and> (\<forall>r\<in>set rs. sc_score r =
        bm25_score (\<lambda>x. x - 1) (6 / 5) (3 / 4) (allDocuments s) [''tor''] (sc_doc r))"
proof -
  let ?ops = "[AddDoc (sample_doc ''u'' ''tor''), AddDoc (sample_doc ''v'' ''x'')]"
  let ?s = "index_run ?ops empty_index"
  have 1: "sum_list (map op_ids ?ops) \<le> 2 ^ 64 - 2" by simp
  have "map doc_tokens (allDocuments ?s) = [5, 5]" by code_simp
  then have 2: "small_docs (allDocuments ?s)" by (auto simp: small_docs_def map_eq_Cons_conv)
  have "map (\<lambda>d. weight d ''tor'') (allDocuments ?s) = [4, 1]" by code_simp
  then have "{d \<in> set (allDocuments ?s). set [''tor''] \<inter> doc_terms d \<noteq> {}} \<noteq> {}"
    by (auto simp: map_eq_Cons_conv doc_terms_weight)
  moreover obtain full where
    "rank (\<lambda>x. x - 1) (6 / 5 :: rat) (3 / 4) ?s [''tor''] 10 = take 10 full"
    "sc_doc ` set full = {d \<in> set (allDocuments ?s). set [''tor''] \<inter> doc_terms d \<noteq> {}}"
    "\<forall>r\<in>set full. sc_score r = bm25_score (\<lambda>x. x - 1) (6 / 5) (3 / 4) (allDocuments ?s) [''tor''] (sc_doc r)"
    using rank_textbook [OF 1 refl 2, of "\<lambda>x :: rat. x - 1" "6 / 5" "3 / 4" "[''tor'']" 10] by blast
  ultimately show ?thesis by (auto dest: in_set_takeD)
qed

text \<open>
  With the real logarithm and the usual parameter ranges, every returned document has a
  positive score, and no document that is returned for a query scores lower when words are added
  to the query.
\<close>

theorem rank_positive_monotone:
  assumes "sum_list (map op_ids ops) \<le> 2 ^ 64 - 2" and "s = index_run ops empty_index"
    and "small_docs (allDocuments s)" and "0 \<le> k1" "0 \<le> b" "b \<le> (1 :: real)"
    and "r \<in> set (rank ln k1 b s qs limit)" "r' \<in> set (rank ln k1 b s qs' limit')"
    and "set qs \<subseteq> set qs'" "sc_doc r = sc_doc r'"
  shows "0 < sc_score r \<and> sc_score r \<le> sc_score r'"
proof -
  have I: "index_inv s" using room_run [OF assms(1)] assms(2) by simp
  note r = rankD [OF I assms(3,7)] and r' = rankD [OF I assms(3,8)]
  show ?thesis
    unfolding r(1) r'(1) assms(10) [symmetric]
    using real_log.score_pos [OF r(2,3) assms(4-6)] real_log.score_mono [OF r(2) assms(9) assms(4-6)] by blast
qed

theorem rank_positive_monotone_witness:
  "let s = index_run [AddDoc (sample_doc ''u'' ''tor'')] empty_index
   in \<exists>r. r \<in> set (rank ln (6 / 5 :: real) (3 / 4) s [''tor''] 10) \<and> 0 < sc_score r"
proof -
  let ?ops = "[AddDoc (sample_doc ''u'' ''tor'')]"
  let ?s = "index_run ?ops empty_index"
  have 1: "sum_list (map op_ids ?ops) \<le> 2 ^ 64 - 2" by simp
  have "map doc_tokens (allDocuments ?s) = [5]" by code_simp
  then have 2: "small_docs (allDocuments ?s)" by (auto simp: small_docs_def map_eq_Cons_conv)
  have I: "index_inv ?s" by (rule room_run [OF 1])
  have "map (\<lambda>d. weight d ''tor'') (allDocuments ?s) = [4]" by code_simp
  then obtain d where "d \<in> set (allDocuments ?s)" "''tor'' \<in> doc_terms d"
    by (auto simp: map_eq_Cons_conv doc_terms_weight)
  then have "rank ln (6 / 5 :: real) (3 / 4) ?s [''tor''] 10 \<noteq> []"
    by (intro rank_nonempty [OF I 2, of d "''tor''"]) simp_all
  then obtain r where r: "r \<in> set (rank ln (6 / 5 :: real) (3 / 4) ?s [''tor''] 10)"
    by (metis list.set_intros(1) neq_Nil_conv)
  have "0 < sc_score r"
    using rank_positive_monotone [OF 1 refl 2 _ _ _ r r] by simp
  with r show ?thesis unfolding Let_def by blast
qed

end
