(* ===== verification/Html.thy ===== *)
theory Html
  imports Prelude
begin

text \<open>
  The HTML helpers of \<open>src/crawler.cpp\<close>: title, description, visible text and links of a page.
  Every scanning loop is a recursive function on the scan position with a termination proof. The
  theory proves that white space is collapsed to the words of the text, that the extracted text
  has no tag opener left, and that every extracted link is an absolute http or https URL.
\<close>

section \<open>Text helpers\<close>

definition ciFind :: "string \<Rightarrow> string \<Rightarrow> nat \<Rightarrow> nat option" where
  "ciFind hay needle pos =
     (if needle = [] \<or> length hay \<le> pos then None
      else map_option ((+) pos) (str_find (map lower_char needle) (map lower_char (drop pos hay))))"

definition readAttributeValue :: "string \<Rightarrow> nat \<Rightarrow> string" where
  "readAttributeValue html valueStart =
     (if length html \<le> valueStart then []
      else
        let q = html ! valueStart
        in case find_from [q] html (valueStart + 1) of
             None \<Rightarrow> []
           | Some e \<Rightarrow> take (e - valueStart - 1) (drop (valueStart + 1) html))"

definition collapse_step :: "char \<Rightarrow> string \<times> bool \<Rightarrow> string \<times> bool" where
  "collapse_step c st =
     (case st of (out, inSpace) \<Rightarrow>
        if is_space c then (out, True)
        else ((if inSpace \<and> out \<noteq> [] then out @ '' '' else out) @ [c], False))"

definition collapseWhitespace :: "string \<Rightarrow> string" where
  "collapseWhitespace s = fst (fold collapse_step s ([], False))"

section \<open>Title and description\<close>

definition htmlExtractTitle :: "string \<Rightarrow> string" where
  "htmlExtractTitle html =
     (case ciFind html ''<title'' 0 of
        None \<Rightarrow> []
      | Some tag \<Rightarrow>
          (case find_from ''>'' html tag of
             None \<Rightarrow> []
           | Some op \<Rightarrow>
               (case ciFind html ''</title>'' (op + 1) of
                  None \<Rightarrow> []
                | Some cl \<Rightarrow> trim (collapseWhitespace (take (cl - op - 1) (drop (op + 1) html))))))"

lemma ciFind_bounds [find_simps]: "ciFind hay needle pos = Some i \<Longrightarrow> pos \<le> i \<and> i < length hay"
  by (auto simp: ciFind_def split: if_splits dest!: str_find_Some) (metis length_greater_0_conv
      less_diff_conv add.commute less_le_trans add_less_cancel_right trans_less_add1 nat_add_left_cancel_less)

definition quoted :: "string \<Rightarrow> string \<Rightarrow> string \<Rightarrow> string" where
  "quoted a q v = a @ q @ v @ q"

abbreviation dquote :: string where "dquote \<equiv> [char_of (34 :: nat)]"
abbreviation squote :: string where "squote \<equiv> [char_of (39 :: nat)]"

function description_loop :: "string \<Rightarrow> nat \<Rightarrow> string" where
  "description_loop html pos0 =
     (case ciFind html ''<meta'' pos0 of
        None \<Rightarrow> []
      | Some pos \<Rightarrow>
          (case find_from ''>'' html pos of
             None \<Rightarrow> []
           | Some op \<Rightarrow>
               let tag = take (op - pos) (drop pos html)
               in if ciFind tag (quoted ''name='' dquote ''description'') 0 \<noteq> None \<or>
                    ciFind tag (quoted ''name='' squote ''description'') 0 \<noteq> None \<or>
                    ciFind tag (quoted ''name='' dquote ''DESCRIPTION'') 0 \<noteq> None
                  then (case ciFind tag ''content='' 0 of
                          Some eq \<Rightarrow> collapseWhitespace (readAttributeValue tag (eq + 8))
                        | None \<Rightarrow> description_loop html (op + 1))
                  else description_loop html (op + 1)))"
  by pat_completeness auto
termination
  by (relation "measure (\<lambda>(html, pos). length html - pos)") (auto dest!: ciFind_bounds find_from_bounds)

declare description_loop.simps [simp del]

definition htmlExtractDescription :: "string \<Rightarrow> string" where
  "htmlExtractDescription html = description_loop html 0"

section \<open>Visible text\<close>

definition isRemoveBlock :: "string \<Rightarrow> bool" where
  "isRemoveBlock lower \<longleftrightarrow> lower \<in> set [''script'', ''style'', ''noscript'', ''template'', ''svg'',
     ''head'', ''nav'', ''footer'', ''header'', ''aside'']"

definition lowerAsciiHtml :: "string \<Rightarrow> string" where
  "lowerAsciiHtml s = map lower_char s"

definition appendText :: "string \<Rightarrow> char \<Rightarrow> string" where
  "appendText out c =
     (if 1 \<le> length out \<and> last out = CHR '' '' \<and> is_punct c then butlast out else out) @ [c]"

definition separator :: "string \<Rightarrow> string" where
  "separator out = (if out \<noteq> [] \<and> last out \<noteq> CHR '' '' then out @ '' '' else out)"

abbreviation "tab \<equiv> char_of (9 :: nat)"
abbreviation "lf \<equiv> char_of (10 :: nat)"

text \<open>The first matching close tag at or after a position.\<close>

definition close_tag_at :: "string \<Rightarrow> string \<Rightarrow> nat \<Rightarrow> bool" where
  "close_tag_at html cl s \<longleftrightarrow>
     map lower_char (take (length cl) (drop s html)) = cl \<and>
     (let after = s + length cl
      in length html \<le> after \<or> html ! after \<in> {CHR '' '', CHR ''>'', CHR ''/'', tab, lf})"

definition findClose :: "string \<Rightarrow> string \<Rightarrow> nat \<Rightarrow> nat option" where
  "findClose html cl searchFrom = find (close_tag_at html cl) [searchFrom..<Suc (length html) - length cl]"

definition or_end :: "string \<Rightarrow> nat \<Rightarrow> nat option \<Rightarrow> nat" where
  "or_end html k p = (case p of None \<Rightarrow> length html | Some e \<Rightarrow> e + k)"

definition tag_name :: "string \<Rightarrow> nat \<Rightarrow> nat option \<Rightarrow> string" where
  "tag_name html i gt =
     (let tagEnd = or_end html 0 gt;
          nameStart = (if i + 1 < length html \<and> html ! (i + 1) = CHR ''/'' then i + 2 else i + 1)
      in lowerAsciiHtml (takeWhile (\<lambda>c. c \<noteq> CHR '' '' \<and> c \<noteq> tab \<and> c \<noteq> lf \<and> c \<noteq> CHR ''/'')
           (take (tagEnd - nameStart) (drop nameStart html))))"

text \<open>One turn of the loop: the next position and output.\<close>

definition strip_step :: "string \<Rightarrow> nat \<Rightarrow> string \<Rightarrow> nat \<times> string" where
  "strip_step html i out =
     (if html ! i \<noteq> CHR ''<'' then (i + 1, appendText out (html ! i))
      else if take 4 (drop i html) = ''<!--'' then (or_end html 3 (find_from ''-->'' html (i + 4)), out)
      else
        let gt = find_from ''>'' html i;
            name = tag_name html i gt;
            selfClosing = (case gt of None \<Rightarrow> False | Some g \<Rightarrow> i < g \<and> html ! (g - 1) = CHR ''/'')
        in if name \<noteq> [] \<and> isRemoveBlock name \<and> \<not> selfClosing then
             let cl = ''</'' @ name
             in case findClose html cl (or_end html 1 gt) of
                  None \<Rightarrow> (length html, out)
                | Some closePos \<Rightarrow>
                    (or_end html 1 (find_from ''>'' html (closePos + length cl)), separator out)
           else (or_end html 1 gt, separator out))"

lemma or_end_greater:
  "i < length html \<Longrightarrow> (\<And>e. p = Some e \<Longrightarrow> i < e + k) \<Longrightarrow> i < or_end html k p"
  by (simp add: or_end_def split: option.split)

lemma findClose_bound: "findClose html cl from = Some s \<Longrightarrow> from \<le> s"
  by (auto simp: findClose_def find_Some_iff)

lemma strip_step_progress: "i < length html \<Longrightarrow> i < fst (strip_step html i out)"
proof -
  assume i: "i < length html"
  have gt: "i < or_end html 1 (find_from ''>'' html i)"
    using i by (intro or_end_greater) (auto dest: find_from_bounds)
  have com: "i < or_end html 3 (find_from ''-->'' html (i + 4))"
    using i by (intro or_end_greater) (auto dest: find_from_bounds)
  have cl: "i < or_end html 1 (find_from ''>'' html (c + k))"
    if "findClose html x (or_end html 1 (find_from ''>'' html i)) = Some c" for x c k
    using i findClose_bound [OF that] gt by (intro or_end_greater) (auto dest!: find_from_bounds)
  have "i < i + 1" by simp
  with i gt com cl show ?thesis
    unfolding strip_step_def Let_def by (auto simp only: fst_conv split: if_split option.split)
qed

function strip_loop :: "string \<Rightarrow> nat \<Rightarrow> string \<Rightarrow> string" where
  "strip_loop html i out =
     (if i < length html then let (i', out') = strip_step html i out in strip_loop html i' out' else out)"
  by pat_completeness auto
termination
proof (relation "measure (\<lambda>(html, i, out). length html - i)", simp)
  fix html i out x i' out'
  assume *: "i < length html" "x = strip_step html i out" "(i', out') = x"
  then have "i < i'" using strip_step_progress by (metis fst_conv)
  with *(1) show "((html, i', out'), html, i, out) \<in> measure (\<lambda>(html, i, out). length html - i)" by simp
qed

declare strip_loop.simps [simp del]

definition htmlStripTags :: "string \<Rightarrow> string" where
  "htmlStripTags html = collapseWhitespace (strip_loop html 0 [])"

section \<open>Links\<close>

text \<open>The base URL as scheme, host and path.\<close>

definition parse_base :: "string \<Rightarrow> string \<times> string \<times> string" where
  "parse_base baseUrl =
     (case str_find ''://'' baseUrl of
        None \<Rightarrow> ([], [], [])
      | Some schemeEnd \<Rightarrow>
          let hostStart = schemeEnd + 3
          in case find_from ''/'' baseUrl hostStart of
               None \<Rightarrow> (take schemeEnd baseUrl, drop hostStart baseUrl, ''/'')
             | Some slash \<Rightarrow>
                 (take schemeEnd baseUrl, take (slash - hostStart) (drop hostStart baseUrl), drop slash baseUrl))"

definition resolve_link :: "string \<Rightarrow> string \<Rightarrow> string \<Rightarrow> string \<Rightarrow> string" where
  "resolve_link scheme host dir raw =
     (if raw = [] then []
      else if prefix ''http://'' raw \<or> prefix ''https://'' raw then raw
      else if prefix ''//'' raw then scheme @ '':'' @ raw
      else if contains raw '':'' then []
      else if hd raw = CHR ''/'' then scheme @ ''://'' @ host @ raw
      else scheme @ ''://'' @ host @ dir @ raw)"

function links_loop :: "string \<Rightarrow> (string \<Rightarrow> string) \<Rightarrow> nat \<Rightarrow> string list \<Rightarrow> string list" where
  "links_loop html resolve pos0 links =
     (case ciFind html ''<a '' pos0 of
        None \<Rightarrow> links
      | Some pos \<Rightarrow>
          (case find_from ''>'' html pos of
             None \<Rightarrow> links
           | Some e \<Rightarrow>
               let tag = take (e - pos) (drop pos html);
                   links' = (case ciFind tag ''href='' 0 of
                      None \<Rightarrow> links
                    | Some href \<Rightarrow>
                        let resolved = resolve (readAttributeValue tag (href + 5))
                        in if resolved \<noteq> [] then links @ [resolved] else links)
               in links_loop html resolve (e + 1) links'))"
  by pat_completeness auto
termination
  by (relation "measure (\<lambda>(html, r, pos, l). length html - pos)") (auto dest!: ciFind_bounds find_from_bounds)

declare links_loop.simps [simp del]

definition htmlExtractLinks :: "string \<Rightarrow> string \<Rightarrow> string list" where
  "htmlExtractLinks html baseUrl =
     (case parse_base baseUrl of (scheme, host, path) \<Rightarrow>
        if scheme \<noteq> ''http'' \<and> scheme \<noteq> ''https'' then []
        else
          let dir = (case rfind_char (CHR ''/'') path of None \<Rightarrow> ''/'' | Some l \<Rightarrow> take (l + 1) path)
          in links_loop html (resolve_link scheme host dir) 0 [])"

section \<open>White space\<close>

text \<open>The words of a text, and their reference rendering with single blanks.\<close>

function words :: "string \<Rightarrow> string list" where
  "words s =
     (let t = dropWhile is_space s
      in if t = [] then []
         else takeWhile (\<lambda>c. \<not> is_space c) t # words (dropWhile (\<lambda>c. \<not> is_space c) t))"
  by pat_completeness auto
termination
proof (relation "measure length", simp)
  fix s t :: string assume t: "t = dropWhile is_space s" "t \<noteq> []"
  then have "\<not> is_space (hd t)" by (simp add: hd_dropWhile)
  with t(2) have "length (dropWhile (\<lambda>c. \<not> is_space c) t) < length t"
    by (cases t) (simp_all add: le_imp_less_Suc length_dropWhile_le)
  also have "\<dots> \<le> length s" using t(1) by (simp add: length_dropWhile_le)
  finally show "(dropWhile (\<lambda>c. \<not> is_space c) t, s) \<in> measure length" by simp
qed

declare words.simps [simp del]

fun unwords :: "string list \<Rightarrow> string" where
  "unwords [] = []"
| "unwords [w] = w"
| "unwords (w # ws) = w @ '' '' @ unwords ws"

lemma unwords_Cons: "unwords (w # ws) = w @ (if ws = [] then [] else '' '' @ unwords ws)"
  by (cases ws) auto

lemma collapse_spaces:
  "\<forall>c\<in>set sp. is_space c \<Longrightarrow> fold collapse_step sp (out, b) = (out, b \<or> sp \<noteq> [])"
  by (induction sp arbitrary: b) (simp_all add: collapse_step_def)

lemma collapse_word:
  "\<forall>c\<in>set w. \<not> is_space c \<Longrightarrow> fold collapse_step w (out, False) = (out @ w, False)"
  by (induction w arbitrary: out) (simp_all add: collapse_step_def)

lemma collapse_word_start:
  assumes "w \<noteq> []" "\<forall>c\<in>set w. \<not> is_space c"
  shows "fold collapse_step w (out, True) = ((if out \<noteq> [] then out @ '' '' else out) @ w, False)"
  using assms collapse_word [of "tl w"] by (cases w) (simp_all add: collapse_step_def)

lemma collapse_first_space:
  "s \<noteq> [] \<Longrightarrow> is_space (hd s) \<Longrightarrow> fold collapse_step s (out, b) = fold collapse_step s (out, True)"
  by (cases s) (simp_all add: collapse_step_def)

lemma takeWhile_ne: "t \<noteq> [] \<Longrightarrow> P (hd t) \<Longrightarrow> takeWhile P t \<noteq> []"
  by (cases t) simp_all

lemma collapse_words:
  "fst (fold collapse_step s (out, True)) =
     (if words s = [] then out else (if out = [] then [] else out @ '' '') @ unwords (words s))"
proof (induction s arbitrary: out rule: words.induct)
  case (1 s)
  define sp t where "sp = takeWhile is_space s" and "t = dropWhile is_space s"
  have s: "s = sp @ t" by (simp add: sp_def t_def)
  have "\<forall>c\<in>set sp. is_space c" by (auto simp: sp_def dest: set_takeWhileD)
  from collapse_spaces [OF this] have sp: "fold collapse_step sp (out, True) = (out, True)" by simp
  show ?case
  proof (cases "t = []")
    case True
    then have "words s = []" by (simp add: words.simps [of s] t_def)
    with True sp show ?thesis by (simp add: s)
  next
    case False
    define w r where "w = takeWhile (\<lambda>c. \<not> is_space c) t" and "r = dropWhile (\<lambda>c. \<not> is_space c) t"
    have t: "t = w @ r" by (simp add: w_def r_def)
    have w: "w \<noteq> []" "\<forall>c\<in>set w. \<not> is_space c"
      using False hd_dropWhile [of is_space s] by (auto simp: w_def t_def takeWhile_ne dest: set_takeWhileD)
    have ws: "words s = w # words r"
      using False by (simp add: words.simps [of s] t_def [symmetric] w_def [symmetric] r_def [symmetric] Let_def)
    let ?out = "(if out = [] then [] else out @ '' '') @ w"
    have "fst (fold collapse_step s (out, True)) = fst (fold collapse_step r (?out, False))"
      using w sp by (simp add: s t collapse_word_start)
    also have "\<dots> = (if words r = [] then ?out else ?out @ '' '' @ unwords (words r))"
    proof (cases "r = []")
      case True
      then show ?thesis by (simp add: words.simps)
    next
      case r: False
      then have "is_space (hd r)" unfolding r_def using hd_dropWhile by blast
      then have "fold collapse_step r (?out, False) = fold collapse_step r (?out, True)"
        by (rule collapse_first_space [OF r])
      moreover have "fst (fold collapse_step r (o', True)) =
          (if words r = [] then o' else (if o' = [] then [] else o' @ '' '') @ unwords (words r))" for o'
        using 1 [OF t_def] False by (simp add: r_def)
      ultimately show ?thesis using w(1) by simp
    qed
    finally show ?thesis using w(1) by (simp add: ws unwords_Cons)
  qed
qed

lemma collapse_unwords: "collapseWhitespace s = unwords (words s)"
proof (cases s)
  case Nil
  then show ?thesis by (simp add: collapseWhitespace_def words.simps)
next
  case (Cons c cs)
  have "collapse_step c ([], False) = collapse_step c ([], True)" by (simp add: collapse_step_def)
  then have "collapseWhitespace s = fst (fold collapse_step s ([], True))"
    by (simp add: collapseWhitespace_def Cons)
  then show ?thesis by (simp add: collapse_words)
qed

definition word :: "string \<Rightarrow> bool" where
  "word w \<longleftrightarrow> w \<noteq> [] \<and> (\<forall>c\<in>set w. \<not> is_space c)"

lemma words_word: "\<forall>w\<in>set (words s). word w"
proof (induction s rule: words.induct)
  case (1 s)
  let ?t = "dropWhile is_space s"
  show ?case
  proof (cases "?t = []")
    case False
    then have "word (takeWhile (\<lambda>c. \<not> is_space c) ?t)"
      using hd_dropWhile [of is_space s] by (auto simp: word_def takeWhile_ne dest: set_takeWhileD)
    moreover have "words s = takeWhile (\<lambda>c. \<not> is_space c) ?t # words (dropWhile (\<lambda>c. \<not> is_space c) ?t)"
      using False by (subst words.simps) (simp only: Let_def if_False)
    ultimately show ?thesis using 1 [OF refl False] by (simp only: list.set ball_simps)
  next
    case True
    then have "words s = []" by (subst words.simps) simp
    then show ?thesis by simp
  qed
qed

lemma word_drop: "word w \<Longrightarrow> dropWhile is_space (w @ r) = w @ r"
  by (cases w) (auto simp: word_def)

lemma is_space_blank [simp]: "is_space (CHR '' '')"
  by (simp add: is_space_def)

lemma words_word_Cons: "word w \<Longrightarrow> words (w @ CHR '' '' # r) = w # words r"
proof -
  assume w: "word w"
  have "words (CHR '' '' # r) = words r" by (simp add: words.simps [of "CHR '' '' # r"] words.simps [of r])
  with w show ?thesis
    by (subst words.simps) (simp add: word_drop Let_def takeWhile_append dropWhile_append word_def)
qed

lemma words_single: "word w \<Longrightarrow> words w = [w]"
proof -
  assume w: "word w"
  then have "dropWhile (\<lambda>c. \<not> is_space c) w = []" "takeWhile (\<lambda>c. \<not> is_space c) w = w"
    by (simp_all add: word_def dropWhile_eq_Nil_conv takeWhile_eq_all_conv)
  moreover have "words [] = []" by (subst words.simps) simp
  ultimately have "words (dropWhile (\<lambda>c. \<not> is_space c) w) = []" "takeWhile (\<lambda>c. \<not> is_space c) w = w"
    by (simp_all only:)
  then show "words w = [w]"
    using w word_drop [OF w, of "[]"] by (subst words.simps) (simp add: Let_def word_def)
qed

lemma words_unwords: "\<forall>w\<in>set ws. word w \<Longrightarrow> words (unwords ws) = ws"
  by (induction ws rule: unwords.induct) (simp_all add: words_single words_word_Cons words.simps [of "[]"])

lemma unwords_ends:
  "\<forall>w\<in>set ws. word w \<Longrightarrow> unwords ws \<noteq> [] \<Longrightarrow>
     \<not> is_space (hd (unwords ws)) \<and> \<not> is_space (last (unwords ws))"
proof (induction ws rule: unwords.induct)
  case (3 w v ws)
  have "unwords (v # ws) \<noteq> []" using 3 by (simp add: unwords_Cons word_def)
  with 3 show ?case by (simp add: word_def hd_append)
qed (auto simp: word_def)

lemma trim_collapse: "trim (collapseWhitespace s) = collapseWhitespace s"
  using unwords_ends [OF words_word, of s] by (intro trim_eq_selfI) (auto simp: collapse_unwords)

lemma set_collapse: "set (collapseWhitespace s) \<subseteq> insert (CHR '' '') (set s)"
proof -
  have "set (fst (fold collapse_step s (out, b))) \<subseteq> insert (CHR '' '') (set out \<union> set s)" for out b
    by (induction s arbitrary: out b) (fastforce simp: collapse_step_def split: if_splits)+
  from this [of "[]"] show ?thesis by (simp add: collapseWhitespace_def)
qed

section \<open>Tags and links\<close>

lemma strip_step_no_open: "CHR ''<'' \<notin> set out \<Longrightarrow> CHR ''<'' \<notin> set (snd (strip_step html i out))"
proof -
  assume out: "CHR ''<'' \<notin> set out"
  have "CHR ''<'' \<notin> set (appendText out (html ! i))" if "html ! i \<noteq> CHR ''<''"
    using that out in_set_butlastD [of "CHR ''<''" out] by (auto simp: appendText_def)
  moreover have "CHR ''<'' \<notin> set (separator out)" using out by (simp add: separator_def)
  ultimately show ?thesis
    using out unfolding strip_step_def Let_def
    by (auto simp only: snd_conv split: if_split option.split)
qed

lemma strip_loop_no_open: "CHR ''<'' \<notin> set out \<Longrightarrow> CHR ''<'' \<notin> set (strip_loop html i out)"
proof (induction html i out rule: strip_loop.induct)
  case (1 html i out)
  show ?case
  proof (cases "i < length html")
    case True
    then have "strip_loop html i out = strip_loop html (fst (strip_step html i out)) (snd (strip_step html i out))"
      by (subst strip_loop.simps) (simp add: case_prod_beta)
    with 1 True strip_step_no_open show ?thesis by (metis prod.collapse)
  next
    case False
    with 1 show ?thesis by (subst strip_loop.simps) simp
  qed
qed

definition web_url :: "string \<Rightarrow> bool" where
  "web_url u \<longleftrightarrow> prefix ''http://'' u \<or> prefix ''https://'' u"

lemma resolve_link_web:
  "scheme = ''http'' \<or> scheme = ''https'' \<Longrightarrow> resolve_link scheme host dir raw \<noteq> [] \<Longrightarrow>
     web_url (resolve_link scheme host dir raw)"
  by (auto simp: resolve_link_def web_url_def prefix_def split: if_splits)

lemma links_loop_all:
  "(\<And>raw. resolve raw \<noteq> [] \<Longrightarrow> P (resolve raw)) \<Longrightarrow> \<forall>l\<in>set links. P l \<Longrightarrow>
     \<forall>l\<in>set (links_loop html resolve pos links). P l"
proof (induction html resolve pos links rule: links_loop.induct)
  case (1 html resolve pos0 links)
  show ?case
  proof (cases "ciFind html ''<a '' pos0")
    case None
    with 1 show ?thesis by (subst links_loop.simps) simp
  next
    case a: (Some pos)
    show ?thesis
    proof (cases "find_from ''>'' html pos")
      case None
      with a 1 show ?thesis by (subst links_loop.simps) simp
    next
      case e: (Some e)
      define tag where "tag = take (e - pos) (drop pos html)"
      define links' where "links' = (case ciFind tag ''href='' 0 of None \<Rightarrow> links
        | Some href \<Rightarrow> let resolved = resolve (readAttributeValue tag (href + 5))
            in if resolved \<noteq> [] then links @ [resolved] else links)"
      have "\<forall>l\<in>set links'. P l"
        using "1.prems" by (auto simp: links'_def Let_def split: option.split)
      with "1.IH" [OF a e tag_def links'_def] "1.prems"(1)
      have "\<forall>l\<in>set (links_loop html resolve (e + 1) links'). P l" by blast
      moreover have "links_loop html resolve pos0 links = links_loop html resolve (e + 1) links'"
        by (subst links_loop.simps) (simp only: a e option.case Let_def tag_def links'_def)
      ultimately show ?thesis by simp
    qed
  qed
qed

lemma links_loop_web:
  "scheme = ''http'' \<or> scheme = ''https'' \<Longrightarrow>
     \<forall>l\<in>set (links_loop html (resolve_link scheme host dir) pos []). web_url l"
  by (rule links_loop_all) (auto intro: resolve_link_web)

section \<open>Properties\<close>

text \<open>
  Collapsing white space yields exactly the maximal runs of non-space characters of the text,
  joined by single blanks; doing it twice is the same as once.
\<close>

theorem collapse_reference:
  "collapseWhitespace s = unwords (words s) \<and>
   collapseWhitespace (collapseWhitespace s) = collapseWhitespace s"
  by (simp add: collapse_unwords words_unwords words_word)

text \<open>
  The visible text of any page, well-formed or not, contains no tag opener, and like the title
  it is in collapsed form.
\<close>

theorem html_text_clean:
  "CHR ''<'' \<notin> set (htmlStripTags html) \<and>
   collapseWhitespace (htmlStripTags html) = htmlStripTags html \<and>
   collapseWhitespace (htmlExtractTitle html) = htmlExtractTitle html \<and>
   trim (htmlExtractTitle html) = htmlExtractTitle html"
proof (intro conjI)
  have "CHR ''<'' \<notin> set (strip_loop html 0 [])" by (rule strip_loop_no_open) simp
  then show "CHR ''<'' \<notin> set (htmlStripTags html)"
    using set_collapse [of "strip_loop html 0 []"] by (auto simp: htmlStripTags_def)
  have idem: "collapseWhitespace (collapseWhitespace s) = collapseWhitespace s" for s
    by (simp add: collapse_unwords words_unwords words_word)
  then show "collapseWhitespace (htmlStripTags html) = htmlStripTags html"
    by (simp add: htmlStripTags_def)
  have "collapseWhitespace [] = []" by (simp add: collapseWhitespace_def)
  with idem show "collapseWhitespace (htmlExtractTitle html) = htmlExtractTitle html"
    by (simp add: htmlExtractTitle_def trim_collapse split: option.split)
  show "trim (htmlExtractTitle html) = htmlExtractTitle html"
    by (simp add: htmlExtractTitle_def split: option.split) (simp add: trim_def)
qed

text \<open>
  C22: Every link extracted from a page is an absolute http or https URL, whatever the page and the
  base URL, and a base URL with another scheme gives no links.
\<close>

theorem html_links_web:
  "list_all web_url (htmlExtractLinks html baseUrl) \<and>
   (web_url baseUrl \<or> htmlExtractLinks html baseUrl = [])"
proof
  obtain scheme host path where b: "parse_base baseUrl = (scheme, host, path)" by (metis prod_cases3)
  show "list_all web_url (htmlExtractLinks html baseUrl)"
    unfolding list_all_iff htmlExtractLinks_def b
    using links_loop_web [of scheme] by (auto simp: Let_def)
  have "web_url baseUrl" if sch: "scheme = ''http'' \<or> scheme = ''https''"
  proof -
    obtain i where i: "str_find ''://'' baseUrl = Some i" "take i baseUrl = scheme"
      using b sch by (auto simp: parse_base_def Let_def split: option.splits)
    then have "baseUrl = scheme @ ''://'' @ drop 3 (drop i baseUrl)"
      using str_find_Some [OF i(1)] by (metis append_take_drop_id length_Cons list.size(3) numeral_3_eq_3)
    with sch show ?thesis by (metis append_Cons append_Nil prefixI web_url_def)
  qed
  then show "web_url baseUrl \<or> htmlExtractLinks html baseUrl = []"
    by (auto simp: htmlExtractLinks_def b)
qed

text \<open>An unquoted attribute value is not read: its first letter is taken for the quote.\<close>

lemma unquoted_link_lost:
  "htmlExtractLinks ''<a href=page>x</a>'' ''http://h/'' = []"
  "htmlExtractLinks (''<a href='' @ dquote @ ''page'' @ dquote @ ''>x</a>'') ''http://h/'' = [''http://h/page'']"
  by code_simp+

end
