(* ===== verification/Stub_Fetcher.thy ===== *)
theory Stub_Fetcher
  imports Prelude
begin

text \<open>
  The result type of the \<open>Fetcher\<close> interface of \<open>include/shadowse/fetcher.hpp\<close> and the
  deterministic \<open>StubFetcher\<close> of \<open>src/fetcher.cpp\<close>. A fetcher is a function from a world and a
  URL to a result and a world; the stub leaves the world alone.
\<close>

record fetch_result =
  fr_ok :: bool
  fr_html :: string
  fr_error :: string

definition empty_result :: fetch_result where
  "empty_result = \<lparr>fr_ok = False, fr_html = [], fr_error = []\<rparr>"

type_synonym 'w fetcher = "'w \<Rightarrow> string \<Rightarrow> fetch_result \<times> 'w"

definition stubHost :: "string \<Rightarrow> string" where
  "stubHost url =
     (let scheme = str_find ''://'' url;
          start = (case scheme of None \<Rightarrow> 0 | Some i \<Rightarrow> i + 3);
          fin = find_from ''/'' url start
      in slice url start fin)"

text \<open>The last occurrence of a pattern, \<open>rfind\<close>.\<close>

definition rfind :: "string \<Rightarrow> string \<Rightarrow> nat option" where
  "rfind p s = map_option (\<lambda>i. length s - i - length p) (str_find (rev p) (rev s))"

definition nl :: string where "nl = [char_of (10 :: nat)]"

definition stub_fetch :: "string \<Rightarrow> fetch_result" where
  "stub_fetch url =
     (let rp = rfind ''robots.txt'' url;
          isRobots = (case rp of None \<Rightarrow> False
            | Some i \<Rightarrow> i = 0 \<or> url ! (i - 1) = CHR ''/'' \<or> url ! (i - 1) = CHR ''?'')
      in if isRobots
         then empty_result\<lparr>fr_ok := True, fr_html := ''User-agent: *'' @ nl @ ''Allow: /'' @ nl\<rparr>
         else
           let host = stubHost url;
               safeHost = (if host = [] then ''unknown'' else host);
               dq = [char_of (34 :: nat)];
               html =
                 ''<!DOCTYPE html>'' @ nl @ ''<html><head>'' @ nl @
                 ''  <title>Stub Index: '' @ safeHost @ ''</title>'' @ nl @
                 ''  <meta name='' @ dq @ ''description'' @ dq @ '' content='' @ dq @
                 ''Sample stub document for '' @ url @
                 '' generated by the Shadow SE offline fetcher.'' @ dq @ ''>'' @ nl @
                 ''</head><body>'' @ nl @
                 ''  <h1>'' @ safeHost @ ''</h1>'' @ nl @
                 ''  <p>This deterministic sample page was produced by the Shadow SE stub '' @
                 ''fetcher. It contains indexable telemetry text about '' @ safeHost @
                 '' and the shadow search engine index compression pipeline.</p>'' @ nl @
                 ''  <p>References: inverted index, bm25 ranking, tor routing, onion '' @
                 ''hidden services, sandbox parsing and threat intelligence feeds.</p>'' @ nl @
                 ''  <a href='' @ dq @ ''/docs/a'' @ dq @ ''>Document A</a>'' @ nl @
                 ''  <a href='' @ dq @ ''/docs/b'' @ dq @ ''>Document B</a>'' @ nl @
                 ''  <a href='' @ dq @ ''https://'' @ safeHost @ ''/mirror'' @ dq @ ''>Mirror</a>'' @ nl @
                 ''</body></html>'' @ nl
           in empty_result\<lparr>fr_ok := True, fr_html := html\<rparr>)"

lemma stub_fetch_ok: "fr_ok (stub_fetch url)"
  by (simp add: stub_fetch_def Let_def)

end
