(* ===== verification/Robots.thy ===== *)
theory Robots
  imports Stub_Fetcher
begin

text \<open>
  The robots.txt policy of \<open>src/robots_txt.cpp\<close>: parsing, the per-origin cache and the decision
  for a URL. The fetcher is a function threaded with its world, so how often it is called shows.
  The theory proves that the decision is the longest matching rule with ties for Allow, that a
  printed policy is parsed back, and that each origin is fetched once.
\<close>

section \<open>Definitions\<close>

record domain_rules =
  dr_loaded :: bool
  dr_rules :: "(bool \<times> string) list"

record robots =
  rb_ua :: string
  rb_domains :: "(string \<times> domain_rules) list"

definition lowerAscii :: "string \<Rightarrow> string" where
  "lowerAscii s = map lower_char s"

definition trimWs :: "string \<Rightarrow> string" where
  "trimWs s = trim s"

definition stripComment :: "string \<Rightarrow> string" where
  "stripComment line = slice line 0 (str_find ''#'' line)"

definition originOf :: "string \<Rightarrow> string" where
  "originOf url =
     (case str_find ''://'' url of
        None \<Rightarrow> []
      | Some scheme \<Rightarrow>
          let hostStart = scheme + 3;
              fin = find_first_of ''/?#'' url hostStart;
              host = slice url hostStart fin
          in if host = [] then [] else take (scheme + 3) url @ lowerAscii host)"

definition pathOf :: "string \<Rightarrow> string" where
  "pathOf url =
     (case str_find ''://'' url of
        None \<Rightarrow> ''/''
      | Some scheme \<Rightarrow>
          let hostStart = scheme + 3
          in case find_from ''/'' url hostStart of
               None \<Rightarrow> ''/''
             | Some slash \<Rightarrow> slice url slash (find_first_of ''?#'' url slash))"

text \<open>The lines \<open>std::getline\<close> yields.\<close>

function getlines :: "string \<Rightarrow> string list" where
  "getlines s =
     (if s = [] then []
      else takeWhile (\<lambda>c. c \<noteq> char_of (10 :: nat)) s #
        getlines (drop 1 (dropWhile (\<lambda>c. c \<noteq> char_of (10 :: nat)) s)))"
  by pat_completeness auto
termination
proof (relation "measure length")
  fix s :: string
  assume "s \<noteq> []"
  then have "0 < length s" by simp
  with length_dropWhile_le [of "\<lambda>c. c \<noteq> char_of (10 :: nat)" s]
  show "(drop 1 (dropWhile (\<lambda>c. c \<noteq> char_of (10 :: nat)) s), s) \<in> measure length"
    by (simp only: in_measure length_drop)
qed simp

declare getlines.simps [simp del]

record parse_state =
  ps_matching :: bool
  ps_group :: "(bool \<times> string) list"
  ps_rules :: "(bool \<times> string) list"

definition flushGroup :: "parse_state \<Rightarrow> parse_state" where
  "flushGroup p =
     (let p = (if ps_matching p then p\<lparr>ps_rules := ps_rules p @ ps_group p, ps_group := []\<rparr> else p)
      in p\<lparr>ps_matching := False\<rparr>)"

definition parse_line :: "string \<Rightarrow> string \<Rightarrow> parse_state \<Rightarrow> parse_state" where
  "parse_line ourUA raw p =
     (let line = trimWs (stripComment raw)
      in if line = [] then p
         else
           let lower = lowerAscii line;
               colon = str_find '':'' lower;
               key = trimWs (slice lower 0 colon);
               value = trimWs (case colon of None \<Rightarrow> line | Some c \<Rightarrow> drop (c + 1) line)
           in if key = ''user-agent'' then
                let p = flushGroup p;
                    agent = lowerAscii value
                in p\<lparr>ps_matching := (agent = ''*'' \<or> contains ourUA agent \<or> contains agent ourUA)\<rparr>
              else if key = ''allow'' then
                (if ps_matching p \<and> value \<noteq> [] then p\<lparr>ps_group := ps_group p @ [(True, value)]\<rparr> else p)
              else if key = ''disallow'' then
                (if ps_matching p \<and> value \<noteq> [] then p\<lparr>ps_group := ps_group p @ [(False, value)]\<rparr> else p)
              else p)"

definition parseBody :: "string \<Rightarrow> string \<Rightarrow> domain_rules \<Rightarrow> domain_rules" where
  "parseBody ua body out =
     (let ourUA = lowerAscii ua;
          p = fold (parse_line ourUA) (getlines body)
                \<lparr>ps_matching = False, ps_group = [], ps_rules = dr_rules out\<rparr>;
          p = flushGroup p
      in out\<lparr>dr_rules := ps_rules p, dr_loaded := True\<rparr>)"

text \<open>The stored policy of an origin: replaced in place, or appended.\<close>

fun store_rules :: "string \<Rightarrow> domain_rules \<Rightarrow> (string \<times> domain_rules) list \<Rightarrow> (string \<times> domain_rules) list" where
  "store_rules og r [] = [(og, r)]"
| "store_rules og r ((p, q) # ds) = (if p = og then (p, r) # ds else (p, q) # store_rules og r ds)"

definition loadDomain :: "'w fetcher \<Rightarrow> string \<Rightarrow> robots \<times> 'w \<Rightarrow> robots \<times> 'w" where
  "loadDomain fetch url rw =
     (case rw of (rb, w) \<Rightarrow>
        let og = originOf url
        in if og = [] then (rb, w)
           else if list_ex (\<lambda>(p, r). p = og \<and> dr_loaded r) (rb_domains rb) then (rb, w)
           else
             let (res, w) = fetch w (og @ ''/robots.txt'');
                 rules = \<lparr>dr_loaded = False, dr_rules = []\<rparr>;
                 rules = (if fr_ok res then parseBody (rb_ua rb) (fr_html res) rules
                          else rules\<lparr>dr_loaded := True\<rparr>)
             in (rb\<lparr>rb_domains := store_rules og rules (rb_domains rb)\<rparr>, w))"

definition hasRules :: "robots \<Rightarrow> string \<Rightarrow> bool" where
  "hasRules rb url =
     (case map_of (rb_domains rb) (originOf url) of
        None \<Rightarrow> False
      | Some r \<Rightarrow> dr_loaded r \<and> dr_rules r \<noteq> [])"

text \<open>One turn of the loop that looks for the deciding rule.\<close>

definition better_rule :: "string \<Rightarrow> bool \<times> string \<Rightarrow> nat \<times> bool \<times> bool \<Rightarrow> nat \<times> bool \<times> bool" where
  "better_rule path rule best =
     (case rule of (allow, rulePath) \<Rightarrow> case best of (bestLen, bestAllow, matched) \<Rightarrow>
        if bestLen \<le> length rulePath \<and> take (length rulePath) path = rulePath
        then if bestLen < length rulePath then (length rulePath, allow, True)
             else (bestLen, (if allow then True else bestAllow), True)
        else (bestLen, bestAllow, matched))"

definition decide :: "(bool \<times> string) list \<Rightarrow> string \<Rightarrow> bool" where
  "decide rules path =
     (if rules = [] then True
      else case fold (better_rule path) rules (0, True, False) of
        (bestLen, bestAllow, matched) \<Rightarrow> if \<not> matched then True else bestAllow)"

definition allowed :: "robots \<Rightarrow> string \<Rightarrow> bool" where
  "allowed rb url =
     (let rules = (case map_of (rb_domains rb) (originOf url) of None \<Rightarrow> [] | Some r \<Rightarrow> dr_rules r)
      in if rules = [] then True else decide rules (pathOf url))"

definition cachedOrigins :: "robots \<Rightarrow> nat" where
  "cachedOrigins rb = length (rb_domains rb)"

section \<open>The decision\<close>

definition matching :: "string \<Rightarrow> bool \<times> string \<Rightarrow> bool" where
  "matching path r \<longleftrightarrow> prefix (snd r) path"

lemma take_prefix: "take (length p) s = p \<longleftrightarrow> prefix p s"
  by (metis append_eq_conv_conj prefix_def)

text \<open>What the loop has found after a list of rules, for non-empty rule paths.\<close>

definition best_inv :: "string \<Rightarrow> (bool \<times> string) list \<Rightarrow> nat \<times> bool \<times> bool \<Rightarrow> bool" where
  "best_inv path rs best \<longleftrightarrow>
     (case best of (l, a, m) \<Rightarrow>
        (m \<longleftrightarrow> (\<exists>r\<in>set rs. matching path r)) \<and>
        (\<forall>r\<in>set rs. matching path r \<longrightarrow> length (snd r) \<le> l) \<and>
        (if m then (\<exists>r\<in>set rs. matching path r \<and> length (snd r) = l) else l = 0) \<and>
        (a \<longleftrightarrow> \<not> m \<or> (\<exists>r\<in>set rs. matching path r \<and> fst r \<and> length (snd r) = l)))"

lemma best_inv_step:
  "best_inv path rs best \<Longrightarrow> snd r \<noteq> [] \<Longrightarrow> best_inv path (rs @ [r]) (better_rule path r best)"
proof -
  assume I: "best_inv path rs best" and ne: "snd r \<noteq> []"
  obtain l a m where b: "best = (l, a, m)" by (metis prod_cases3)
  obtain x p where r: "r = (x, p)" by fastforce
  show ?thesis
  proof (cases "l \<le> length p \<and> prefix p path")
    case False
    with I b r show ?thesis
      by (auto simp: best_inv_def better_rule_def take_prefix matching_def split: if_splits)
  next
    case True
    show ?thesis
    proof (cases "l < length p")
      case True
      with I b r \<open>l \<le> length p \<and> prefix p path\<close> show ?thesis
        by (fastforce simp: best_inv_def better_rule_def take_prefix matching_def split: if_splits)
    next
      case False
      with I b r ne \<open>l \<le> length p \<and> prefix p path\<close> show ?thesis
        by (auto simp: best_inv_def better_rule_def take_prefix matching_def split: if_splits)
    qed
  qed
qed

lemma best_inv_fold:
  "\<forall>r\<in>set rs. snd r \<noteq> [] \<Longrightarrow> best_inv path rs (fold (better_rule path) rs (0, True, False))"
proof (induction rs rule: rev_induct)
  case (snoc r rs)
  then show ?case using best_inv_step [of path rs _ r] by simp
qed (simp add: best_inv_def)

lemma decide_longest:
  assumes "\<forall>r\<in>set rs. snd r \<noteq> []"
  shows "decide rs path \<longleftrightarrow> (\<forall>p. (False, p) \<in> set rs \<and> prefix p path \<longrightarrow>
     (\<exists>q. (True, q) \<in> set rs \<and> prefix q path \<and> length p \<le> length q))"
proof -
  obtain l a m where b: "fold (better_rule path) rs (0, True, False) = (l, a, m)" by (metis prod_cases3)
  have I: "best_inv path rs (l, a, m)" using best_inv_fold [OF assms, of path] b by simp
  have le: "r \<in> set rs \<Longrightarrow> prefix (snd r) path \<Longrightarrow> length (snd r) \<le> l" for r
    using I by (simp add: best_inv_def matching_def)
  have d: "decide rs path \<longleftrightarrow> (m \<longrightarrow> a)" using b by (auto simp: decide_def)
  show ?thesis
  proof (cases m)
    case False
    with I d show ?thesis by (auto simp: best_inv_def matching_def)
  next
    case True
    show ?thesis
    proof (cases a)
      case True
      with I \<open>m\<close> obtain q where q: "(True, q) \<in> set rs" "prefix q path" "length q = l"
        by (auto simp: best_inv_def matching_def)
      have "length p \<le> length q" if "(False, p) \<in> set rs" "prefix p path" for p
        using le [OF that(1)] that(2) q(3) by simp
      with q(1,2) d True show ?thesis by blast
    next
      case False
      with I \<open>m\<close> obtain x p where p: "(x, p) \<in> set rs" "prefix p path" "length p = l"
        by (auto simp: best_inv_def matching_def)
      have ne: "length q \<noteq> l" if "(True, q) \<in> set rs" "prefix q path" for q
        using I False \<open>m\<close> that by (force simp: best_inv_def matching_def)
      have "\<not> x" using ne [of p] p by (cases x) auto
      moreover have "length q < length p" if "(True, q) \<in> set rs" "prefix q path" for q
        using le [OF that(1)] ne [OF that] that(2) p(3) by simp
      ultimately show ?thesis using d False \<open>m\<close> p(1,2) by (metis (full_types) not_le)
    qed
  qed
qed

section \<open>Parsing\<close>

lemma flushGroup_wf:
  "\<forall>r\<in>set (ps_group p @ ps_rules p). snd r \<noteq> [] \<Longrightarrow>
     \<forall>r\<in>set (ps_group (flushGroup p) @ ps_rules (flushGroup p)). snd r \<noteq> []"
  by (auto simp: flushGroup_def Let_def)

lemma parse_line_wf:
  "\<forall>r\<in>set (ps_group p @ ps_rules p). snd r \<noteq> [] \<Longrightarrow>
     \<forall>r\<in>set (ps_group (parse_line ua l p) @ ps_rules (parse_line ua l p)). snd r \<noteq> []"
  using flushGroup_wf [of p] by (auto simp: parse_line_def Let_def)

lemma parse_lines_wf:
  "\<forall>r\<in>set (ps_group p @ ps_rules p). snd r \<noteq> [] \<Longrightarrow>
     \<forall>r\<in>set (ps_group (fold (parse_line ua) ls p) @ ps_rules (fold (parse_line ua) ls p)). snd r \<noteq> []"
proof (induction ls arbitrary: p)
  case (Cons l ls)
  from Cons.IH [OF parse_line_wf [OF Cons.prems]] show ?case by simp
qed simp

lemma parseBody_wf: "dr_rules out = [] \<Longrightarrow> \<forall>r\<in>set (dr_rules (parseBody ua body out)). snd r \<noteq> []"
proof -
  assume "dr_rules out = []"
  then have "\<forall>r\<in>set (ps_group (fold (parse_line (lowerAscii ua)) (getlines body)
      \<lparr>ps_matching = False, ps_group = [], ps_rules = dr_rules out\<rparr>) @ ps_rules (fold (parse_line (lowerAscii ua))
      (getlines body) \<lparr>ps_matching = False, ps_group = [], ps_rules = dr_rules out\<rparr>)). snd r \<noteq> []"
    by (intro parse_lines_wf) simp
  from flushGroup_wf [OF this] show ?thesis by (simp add: parseBody_def Let_def)
qed

section \<open>The cache\<close>

definition robots_inv :: "robots \<Rightarrow> bool" where
  "robots_inv rb \<longleftrightarrow> distinct (map fst (rb_domains rb)) \<and>
     (\<forall>(og, r)\<in>set (rb_domains rb). dr_loaded r \<and> og \<noteq> [] \<and> (\<forall>x\<in>set (dr_rules r). snd x \<noteq> []))"

lemma store_rules_map: "map_of (store_rules og r ds) = (map_of ds)(og \<mapsto> r)"
  by (induction og r ds rule: store_rules.induct) (auto simp: fun_eq_iff)

lemma store_rules_set: "set (store_rules og r ds) \<subseteq> insert (og, r) (set ds)"
  by (induction og r ds rule: store_rules.induct) auto

lemma store_rules_keys:
  "fst ` set (store_rules og r ds) = insert og (fst ` set ds)"
  "distinct (map fst ds) \<Longrightarrow> distinct (map fst (store_rules og r ds))"
  by (induction og r ds rule: store_rules.induct) auto

text \<open>The policy a load computes from what the fetcher returns.\<close>

definition fetched_rules :: "string \<Rightarrow> fetch_result \<Rightarrow> domain_rules" where
  "fetched_rules ua res = (if fr_ok res then parseBody ua (fr_html res) \<lparr>dr_loaded = False, dr_rules = []\<rparr>
     else \<lparr>dr_loaded = True, dr_rules = []\<rparr>)"

lemma fetched_rules_wf: "dr_loaded (fetched_rules ua res)" "\<forall>x\<in>set (dr_rules (fetched_rules ua res)). snd x \<noteq> []"
  using parseBody_wf [of "\<lparr>dr_loaded = False, dr_rules = []\<rparr>"]
  by (auto simp: fetched_rules_def) (simp add: parseBody_def Let_def)

lemma loaded_iff: "robots_inv rb \<Longrightarrow> list_ex (\<lambda>(p, r). p = og \<and> dr_loaded r) (rb_domains rb) \<longleftrightarrow> map_of (rb_domains rb) og \<noteq> None"
proof -
  assume "robots_inv rb"
  then have "\<forall>x\<in>set (rb_domains rb). dr_loaded (snd x)" by (auto simp: robots_inv_def)
  then have "list_ex (\<lambda>(p, r). p = og \<and> dr_loaded r) (rb_domains rb) \<longleftrightarrow> og \<in> fst ` set (rb_domains rb)"
    by (induction "rb_domains rb") (auto simp: list_ex_iff image_iff case_prod_beta)
  then show ?thesis by (simp add: map_of_eq_None_iff)
qed

lemma loadDomain_eq:
  assumes "robots_inv rb"
  shows "loadDomain fetch url (rb, w) =
     (if originOf url = [] \<or> map_of (rb_domains rb) (originOf url) \<noteq> None then (rb, w)
      else (rb\<lparr>rb_domains := store_rules (originOf url)
               (fetched_rules (rb_ua rb) (fst (fetch w (originOf url @ ''/robots.txt'')))) (rb_domains rb)\<rparr>,
            snd (fetch w (originOf url @ ''/robots.txt''))))"
  by (auto simp: loadDomain_def Let_def loaded_iff [OF assms] fetched_rules_def case_prod_beta)

lemma loadDomain_inv:
  assumes "robots_inv (fst rw)"
  shows "robots_inv (fst (loadDomain fetch url rw))" "rb_ua (fst (loadDomain fetch url rw)) = rb_ua (fst rw)"
proof -
  obtain rb w where rw: "rw = (rb, w)" by fastforce
  have I: "robots_inv rb" using assms rw by simp
  have "robots_inv (rb\<lparr>rb_domains := store_rules og (fetched_rules ua res) (rb_domains rb)\<rparr>)" if "og \<noteq> []" for og ua res
  proof -
    let ?P = "\<lambda>(og, r). dr_loaded r \<and> og \<noteq> [] \<and> (\<forall>x\<in>set (dr_rules r). snd x \<noteq> [])"
    have "\<forall>x\<in>set (rb_domains rb). ?P x" "?P (og, fetched_rules ua res)"
      using I that fetched_rules_wf by (simp_all add: robots_inv_def)
    then have "\<forall>x\<in>set (store_rules og (fetched_rules ua res) (rb_domains rb)). ?P x"
      using store_rules_set [of og "fetched_rules ua res" "rb_domains rb"] by blast
    then show ?thesis using I store_rules_keys(2) by (simp add: robots_inv_def)
  qed
  then show "robots_inv (fst (loadDomain fetch url rw))" using I by (simp add: rw loadDomain_eq [OF I])
  show "rb_ua (fst (loadDomain fetch url rw)) = rb_ua (fst rw)" by (simp add: rw loadDomain_eq [OF I])
qed

definition loadAll :: "'w fetcher \<Rightarrow> string list \<Rightarrow> robots \<times> 'w \<Rightarrow> robots \<times> 'w" where
  "loadAll fetch urls rw = fold (loadDomain fetch) urls rw"

definition new_robots :: "string \<Rightarrow> robots" where
  "new_robots ua = \<lparr>rb_ua = ua, rb_domains = []\<rparr>"

lemma loadAll_inv: "robots_inv (fst rw) \<Longrightarrow> robots_inv (fst (loadAll fetch urls rw))"
proof (induction urls arbitrary: rw)
  case (Cons u us)
  from Cons.IH [OF loadDomain_inv(1) [OF Cons.prems]] show ?case by (simp add: loadAll_def)
qed (simp add: loadAll_def)

lemma robots_inv_new: "robots_inv (new_robots ua)"
  by (simp add: robots_inv_def new_robots_def)

section \<open>Properties\<close>

text \<open>
  C20: After any loads through any fetcher, a URL is allowed exactly when every Disallow rule of
  its origin that matches its path is matched or beaten in length by a matching Allow rule: the
  longest matching rule decides, Allow wins ties, and an origin without a policy is allowed.
\<close>

theorem robots_longest_rule:
  assumes "rb = fst (loadAll fetch urls (new_robots ua, w))"
  shows "allowed rb url \<longleftrightarrow>
    (\<forall>r p. map_of (rb_domains rb) (originOf url) = Some r \<and> (False, p) \<in> set (dr_rules r) \<and>
       prefix p (pathOf url) \<longrightarrow>
     (\<exists>q. (True, q) \<in> set (dr_rules r) \<and> prefix q (pathOf url) \<and> length p \<le> length q))"
proof -
  have I: "robots_inv rb"
    unfolding assms using loadAll_inv [of "(new_robots ua, w)" fetch urls] robots_inv_new by simp
  show ?thesis
  proof (cases "map_of (rb_domains rb) (originOf url)")
    case None
    then show ?thesis by (simp add: allowed_def)
  next
    case (Some r)
    then have "(originOf url, r) \<in> set (rb_domains rb)" by (rule map_of_SomeD)
    then have "\<forall>x\<in>set (dr_rules r). snd x \<noteq> []" using I by (auto simp: robots_inv_def)
    note longest = decide_longest [OF this, of "pathOf url"]
    have "allowed rb url = decide (dr_rules r) (pathOf url)"
      using Some by (simp add: allowed_def decide_def)
    with longest Some show ?thesis by simp
  qed
qed

theorem robots_longest_rule_witness:
  "\<not> allowed (fst (loadAll (\<lambda>w u. (empty_result\<lparr>fr_ok := True,
       fr_html := ''User-agent: *'' @ nl @ ''Disallow: /a'' @ nl @ ''Allow: /a/b''\<rparr>, w))
     [''http://h/''] (new_robots ''bot'', ()))) ''http://h/a/c?q''"
proof -
  let ?f = "\<lambda>w u. (empty_result\<lparr>fr_ok := True,
       fr_html := ''User-agent: *'' @ nl @ ''Disallow: /a'' @ nl @ ''Allow: /a/b''\<rparr>, w)"
  let ?rb = "fst (loadAll ?f [''http://h/''] (new_robots ''bot'', ()))"
  have "map_of (rb_domains ?rb) (originOf ''http://h/a/c?q'') =
      Some \<lparr>dr_loaded = True, dr_rules = [(False, ''/a''), (True, ''/a/b'')]\<rparr>" by code_simp
  moreover have "pathOf ''http://h/a/c?q'' = ''/a/c''" by code_simp
  ultimately show ?thesis
    using robots_longest_rule [of ?rb ?f "[''http://h/'']" "''bot''" "()" "''http://h/a/c?q''"] by simp
qed

text \<open>
  After an origin was loaded, loading any URL of it again calls no fetcher and changes
  nothing; a load never touches the policy of another origin; and when the fetch failed, every
  URL of the origin is allowed.
\<close>

theorem robots_load_once:
  assumes "rb = fst (loadAll fetch urls (new_robots ua, w))" and "originOf url \<noteq> []"
    and "loadDomain fetch url (rb, w1) = (rb', w2)"
  shows "(originOf url' = originOf url \<longrightarrow> loadDomain fetch url' (rb', w3) = (rb', w3)) \<and>
    (originOf url' \<noteq> originOf url \<longrightarrow> allowed rb' url' = allowed rb url') \<and>
    (map_of (rb_domains rb) (originOf url) = None \<and> \<not> fr_ok (fst (fetch w1 (originOf url @ ''/robots.txt''))) \<and>
       originOf url' = originOf url \<longrightarrow> allowed rb' url')"
proof -
  have I: "robots_inv rb"
    unfolding assms(1) using loadAll_inv [of "(new_robots ua, w)" fetch urls] robots_inv_new by simp
  have I': "robots_inv rb'" using loadDomain_inv(1) [of "(rb, w1)" fetch url] I assms(3) by simp
  show ?thesis
    using assms(2,3) unfolding loadDomain_eq [OF I] loadDomain_eq [OF I']
    by (auto simp: store_rules_map allowed_def fetched_rules_def split: if_splits)
qed

section \<open>Printing a policy\<close>

text \<open>A rule path that survives comment stripping, line splitting and trimming.\<close>

definition clean_path :: "string \<Rightarrow> bool" where
  "clean_path p \<longleftrightarrow> p \<noteq> [] \<and> CHR ''#'' \<notin> set p \<and> char_of (10 :: nat) \<notin> set p \<and>
     \<not> is_space (hd p) \<and> \<not> is_space (last p)"

definition print_rule :: "bool \<times> string \<Rightarrow> string" where
  "print_rule r = (if fst r then ''Allow: '' else ''Disallow: '') @ snd r"

definition print_policy :: "(bool \<times> string) list \<Rightarrow> string" where
  "print_policy rs = ''User-agent: *'' @ nl @ concat (map (\<lambda>r. print_rule r @ nl) rs)"

lemma getlines_Nil [simp]: "getlines [] = []"
  by (simp add: getlines.simps)

lemma getlines_line: "char_of (10 :: nat) \<notin> set l \<Longrightarrow> getlines (l @ nl @ s) = l # getlines s"
proof -
  assume l: "char_of (10 :: nat) \<notin> set l"
  then have "takeWhile (\<lambda>c. c \<noteq> char_of (10 :: nat)) (l @ nl @ s) = l"
    "dropWhile (\<lambda>c. c \<noteq> char_of (10 :: nat)) (l @ nl @ s) = nl @ s"
    by (subst takeWhile_append2 dropWhile_append2; auto simp: nl_def)+
  then show ?thesis by (subst getlines.simps) (simp add: nl_def)
qed

lemma str_find_char: "str_find [c] s = None \<longleftrightarrow> c \<notin> set s"
  by (induction s) auto

lemma stripComment_id: "CHR ''#'' \<notin> set l \<Longrightarrow> stripComment l = l"
  using str_find_char [of "CHR ''#''" l] by (simp add: stripComment_def slice_def)

lemma trim_Cons_space: "is_space c \<Longrightarrow> trim (c # s) = trim s"
  by (simp add: trim_def)

lemma lower_char_colon: "lower_char c = CHR '':'' \<longleftrightarrow> c = CHR '':''"
  by (auto simp: lower_char_def is_upper_def char_eq_code)

lemma str_find_char_append: "c \<notin> set k \<Longrightarrow> str_find [c] (k @ c # v) = Some (length k)"
  by (induction k) auto

text \<open>A line with a colon: the key before it and the value after it.\<close>

lemma field_split:
  assumes "CHR '':'' \<notin> set k"
  shows "str_find '':'' (lowerAscii (k @ '':'' @ v)) = Some (length k)"
    "slice (lowerAscii (k @ '':'' @ v)) 0 (Some (length k)) = lowerAscii k"
    "drop (length k + 1) (k @ '':'' @ v) = v"
proof -
  have "CHR '':'' \<notin> set (lowerAscii k)"
    unfolding lowerAscii_def set_map image_iff using assms lower_char_colon by metis
  moreover have l: "lowerAscii (k @ '':'' @ v) = lowerAscii k @ CHR '':'' # lowerAscii v"
    by (simp add: lowerAscii_def) (simp add: lower_char_def is_upper_def)
  moreover have len: "length (lowerAscii k) = length k" by (simp add: lowerAscii_def)
  ultimately show "str_find '':'' (lowerAscii (k @ '':'' @ v)) = Some (length k)"
    using str_find_char_append [of "CHR '':''" "lowerAscii k" "lowerAscii v"] by simp
  show "slice (lowerAscii (k @ '':'' @ v)) 0 (Some (length k)) = lowerAscii k"
    unfolding l by (simp add: slice_def flip: len)
qed simp

lemma parse_rule_line:
  assumes "clean_path (snd r)" "ps_matching p"
  shows "parse_line ua (print_rule r) p = p\<lparr>ps_group := ps_group p @ [r]\<rparr>"
proof -
  obtain a q where r: "r = (a, q)" by fastforce
  have q: "q \<noteq> []" "CHR ''#'' \<notin> set q" "\<not> is_space (hd q)" "\<not> is_space (last q)"
    using assms(1) r by (simp_all add: clean_path_def)
  have tq: "trim (CHR '' '' # q) = q"
    using q by (simp add: trim_Cons_space is_space_def trim_eq_selfI)
  have strip: "stripComment (print_rule r) = print_rule r"
    using q(2) by (intro stripComment_id) (simp add: print_rule_def r)
  have line: "trim (print_rule r) = print_rule r"
    using q by (intro trim_eq_selfI) (simp add: print_rule_def r is_space_def)
  let ?k = "if a then ''Allow'' else ''Disallow''"
  have k: "print_rule r = ?k @ '':'' @ CHR '' '' # q" by (simp add: print_rule_def r)
  have c: "CHR '':'' \<notin> set ?k" by simp
  have keys: "trim (lowerAscii ''Allow'') = ''allow''" "trim (lowerAscii ''Disallow'') = ''disallow''"
    by code_simp+
  have ne: "print_rule r \<noteq> []" by (simp add: k)
  show ?thesis
    unfolding parse_line_def strip trimWs_def line Let_def if_not_P [OF ne]
    unfolding k field_split [OF c] option.case tq
    using assms(2) q(1) r by (cases a) (simp_all add: keys)
qed

lemma parse_rule_lines:
  "\<forall>r\<in>set rs. clean_path (snd r) \<Longrightarrow> ps_matching p \<Longrightarrow>
     fold (parse_line ua) (map print_rule rs) p = p\<lparr>ps_group := ps_group p @ rs\<rparr>"
  by (induction rs arbitrary: p) (simp_all add: parse_rule_line)

lemma getlines_policy:
  "\<forall>r\<in>set rs. clean_path (snd r) \<Longrightarrow> getlines (concat (map (\<lambda>r. print_rule r @ nl) rs)) = map print_rule rs"
proof (induction rs)
  case (Cons r rs)
  then have "char_of (10 :: nat) \<notin> set (print_rule r)"
    by (auto simp: print_rule_def clean_path_def char_eq_code)
  with Cons show ?case by (simp add: getlines_line)
qed simp

text \<open>
  C21: A printed policy for all agents is parsed back rule by rule, for every user agent and every
  list of rules whose paths contain no comment sign or line break and no white space at their ends.
\<close>

theorem robots_parse_print:
  assumes "\<forall>r\<in>set rs. clean_path (snd r)"
  shows "parseBody ua (print_policy rs) \<lparr>dr_loaded = False, dr_rules = []\<rparr> =
    \<lparr>dr_loaded = True, dr_rules = rs\<rparr>"
proof -
  let ?p = "\<lparr>ps_matching = False, ps_group = [], ps_rules = []\<rparr>"
  have "char_of (10 :: nat) \<notin> set ''User-agent: *''" by code_simp
  from getlines_line [OF this] have lines: "getlines (print_policy rs) = ''User-agent: *'' # map print_rule rs"
    unfolding print_policy_def by (simp only: getlines_policy [OF assms])
  have v: "trimWs (stripComment ''User-agent: *'') = ''User-agent: *''"
    "trimWs (slice (lowerAscii ''User-agent: *'') 0 (str_find '':'' (lowerAscii ''User-agent: *''))) = ''user-agent''"
    "str_find '':'' (lowerAscii ''User-agent: *'') = Some 10" "lowerAscii (trimWs (drop (10 + 1) ''User-agent: *'')) = ''*''"
    by code_simp+
  have "parse_line u ''User-agent: *'' ?p = ?p\<lparr>ps_matching := True\<rparr>" for u
    unfolding parse_line_def v Let_def using v(2-4) by (simp add: flushGroup_def Let_def)
  then show ?thesis
    by (simp add: parseBody_def lines Let_def parse_rule_lines [OF assms] flushGroup_def)
qed

theorem robots_parse_print_witness:
  "parseBody ''bot'' (print_policy [(False, ''/a'')]) \<lparr>dr_loaded = False, dr_rules = []\<rparr> =
     \<lparr>dr_loaded = True, dr_rules = [(False, ''/a'')]\<rparr>"
  by (rule robots_parse_print) (simp add: clean_path_def is_space_def char_eq_code)

text \<open>
  Two consecutive User-agent lines do not open one group for both agents: the second one closes
  the group of the first, so the rules that follow apply only if the last agent matches.
\<close>

lemma robots_multi_agent_divergence:
  "parseBody ''shadowse'' (''User-agent: shadowse'' @ nl @ ''User-agent: other'' @ nl @ ''Disallow: /private'')
     \<lparr>dr_loaded = False, dr_rules = []\<rparr> = \<lparr>dr_loaded = True, dr_rules = []\<rparr>"
  by code_simp

end
