(* ===== verification/Bloom.thy ===== *)
theory Bloom
  imports Prelude
begin

text \<open>
  The Bloom filter of \<open>src/bloom_filter.cpp\<close>. The standard library's string hash is a parameter
  \<open>h\<close> (any function of the key), the floating-point sizing of the constructor is idealised over
  an ordered field with floor, with the logarithm as a parameter. The theory proves that the filter
  never gives a false negative, whatever the hash, that every bit it touches exists, and states
  the contract the crawler relies on as a locale.
\<close>

section \<open>The filter\<close>

record bloom_filter =
  bf_bits :: "u64 list"
  bf_m :: nat
  bf_k :: nat

definition fnv1a :: "string \<Rightarrow> u64" where
  "fnv1a s = fold (\<lambda>c hash. (xor hash (byte_of c)) * 1099511628211) s 1469598103934665603"

definition bloom_new :: "('d \<Rightarrow> 'd) \<Rightarrow> nat \<Rightarrow> 'd::floor_ceiling \<Rightarrow> bloom_filter" where
  "bloom_new lg expectedItems falsePositiveRate =
     (let kLn2 = 6931471805599453 / 10 ^ 16;
          kLn2Sq = 4804530139182014 / 10 ^ 16;
          expectedItems = (if expectedItems = 0 then 1 else expectedItems);
          falsePositiveRate = (if falsePositiveRate \<le> 0 then 1 / 10000 else falsePositiveRate);
          falsePositiveRate = (if falsePositiveRate \<ge> 1 then 1 / 2 else falsePositiveRate);
          mBits = \<lceil>- of_nat expectedItems * lg falsePositiveRate / kLn2Sq\<rceil>;
          m = nat mBits;
          m = (if m = 0 then 1 else m);
          k = (kLn2 * of_nat m / of_nat expectedItems :: 'd);
          k = nat (max 1 (round k))
      in \<lparr>bf_bits = replicate ((m + 63) div 64) 0, bf_m = m, bf_k = k\<rparr>)"

text \<open>The double hashing shared by insertion and lookup: the \<open>i\<close>-th bit of a key.\<close>

definition bloom_bit :: "(string \<Rightarrow> u64) \<Rightarrow> nat \<Rightarrow> string \<Rightarrow> nat \<Rightarrow> nat" where
  "bloom_bit h m key i =
     (let h1 = h key;
          h2 = fnv1a key;
          h2 = (if h2 = 0 then 1 else h2)
      in unat (h1 + of_nat i * h2) mod m)"

definition set_bit_at :: "u64 list \<Rightarrow> nat \<Rightarrow> u64 list" where
  "set_bit_at bits b = bits[b div 64 := or (bits ! (b div 64)) (push_bit (b mod 64) 1)]"

definition bit_at :: "u64 list \<Rightarrow> nat \<Rightarrow> bool" where
  "bit_at bits b \<longleftrightarrow> and (bits ! (b div 64)) (push_bit (b mod 64) 1) \<noteq> 0"

definition bloom_insert :: "(string \<Rightarrow> u64) \<Rightarrow> string \<Rightarrow> bloom_filter \<Rightarrow> bloom_filter" where
  "bloom_insert h key f =
     f\<lparr>bf_bits := fold (\<lambda>i bits. set_bit_at bits (bloom_bit h (bf_m f) key i)) [0..<bf_k f] (bf_bits f)\<rparr>"

definition maybeContains :: "(string \<Rightarrow> u64) \<Rightarrow> bloom_filter \<Rightarrow> string \<Rightarrow> bool" where
  "maybeContains h f key \<longleftrightarrow> list_all (\<lambda>i. bit_at (bf_bits f) (bloom_bit h (bf_m f) key i)) [0..<bf_k f]"

definition bloom_clear :: "bloom_filter \<Rightarrow> bloom_filter" where
  "bloom_clear f = f\<lparr>bf_bits := map (\<lambda>b. 0) (bf_bits f)\<rparr>"

section \<open>Bits\<close>

lemma bit_at_iff: "bit_at bits b \<longleftrightarrow> bit (bits ! (b div 64)) (b mod 64)"
  by (simp add: bit_at_def push_bit_eq_mult and_exp_eq_0_iff_not_bit)

lemma length_set_bit_at [simp]: "length (set_bit_at bits b) = length bits"
  by (simp add: set_bit_at_def)

lemma bit_at_set_bit_at:
  assumes "b div 64 < length bits"
  shows "bit_at (set_bit_at bits b) c \<longleftrightarrow> b = c \<or> bit_at bits c"
proof (cases "b div 64 = c div 64")
  case True
  have "b mod 64 = c mod 64 \<longleftrightarrow> b = c" using True by (metis div_mult_mod_eq)
  moreover have "b mod 64 < 64" "c mod 64 < 64" by simp_all
  ultimately show ?thesis using True assms
    by (auto simp: bit_at_iff set_bit_at_def bit_simps)
next
  case False
  then show ?thesis by (auto simp: bit_at_iff set_bit_at_def)
qed

lemma bits_set:
  assumes "\<forall>b\<in>set bs. b div 64 < length bits"
  shows "length (fold (\<lambda>b bits. set_bit_at bits b) bs bits) = length bits"
    and "bit_at (fold (\<lambda>b bits. set_bit_at bits b) bs bits) c \<longleftrightarrow> c \<in> set bs \<or> bit_at bits c"
  using assms by (induction bs arbitrary: bits) (auto simp: bit_at_set_bit_at)

section \<open>The invariant\<close>

definition bloom_inv :: "bloom_filter \<Rightarrow> bool" where
  "bloom_inv f \<longleftrightarrow> 1 \<le> bf_m f \<and> 1 \<le> bf_k f \<and> length (bf_bits f) = (bf_m f + 63) div 64"

definition key_bits :: "(string \<Rightarrow> u64) \<Rightarrow> bloom_filter \<Rightarrow> string \<Rightarrow> nat set" where
  "key_bits h f key = bloom_bit h (bf_m f) key ` {0..<bf_k f}"

lemma bloom_bit_less: "bloom_inv f \<Longrightarrow> bloom_bit h (bf_m f) key i < bf_m f"
  by (simp add: bloom_bit_def bloom_inv_def Let_def)

lemma bloom_bit_word: "bloom_inv f \<Longrightarrow> bloom_bit h (bf_m f) key i div 64 < length (bf_bits f)"
proof -
  assume "bloom_inv f"
  then have "bloom_bit h (bf_m f) key i < bf_m f" "length (bf_bits f) = (bf_m f + 63) div 64"
    by (simp_all add: bloom_bit_less) (simp add: bloom_inv_def)
  then show ?thesis by (simp add: less_eq_div_iff_mult_less_eq Suc_le_eq [symmetric] div_less_iff_less_mult)
qed

lemma bloom_insert_eq:
  "bloom_insert h key f = f\<lparr>bf_bits := fold (\<lambda>b bits. set_bit_at bits b)
     (map (bloom_bit h (bf_m f) key) [0..<bf_k f]) (bf_bits f)\<rparr>"
  by (simp add: bloom_insert_def fold_map comp_def)

lemma bloom_insert_fields [simp]:
  "bf_m (bloom_insert h key f) = bf_m f" "bf_k (bloom_insert h key f) = bf_k f"
  "bf_m (bloom_clear f) = bf_m f" "bf_k (bloom_clear f) = bf_k f"
  by (simp_all add: bloom_insert_def bloom_clear_def)

lemma bloom_insert_bits:
  assumes "bloom_inv f"
  shows "bit_at (bf_bits (bloom_insert h key f)) c \<longleftrightarrow> c \<in> key_bits h f key \<or> bit_at (bf_bits f) c"
    and "length (bf_bits (bloom_insert h key f)) = length (bf_bits f)"
  using bits_set [of "map (bloom_bit h (bf_m f) key) [0..<bf_k f]" "bf_bits f"] bloom_bit_word [OF assms]
  by (auto simp: bloom_insert_eq key_bits_def)

lemma key_bits_simps [simp]:
  "key_bits h (bloom_insert h' key' f) = key_bits h f" "key_bits h (bloom_clear f) = key_bits h f"
  by (simp_all add: key_bits_def fun_eq_iff)

lemma maybeContains_bits: "maybeContains h f key \<longleftrightarrow> (\<forall>c\<in>key_bits h f key. bit_at (bf_bits f) c)"
  by (auto simp: maybeContains_def key_bits_def list_all_iff)

lemma bloom_inv_new: "bloom_inv (bloom_new lg n p)"
  by (simp add: bloom_new_def bloom_inv_def Let_def) (simp add: le_nat_iff)

lemma bloom_inv_insert: "bloom_inv f \<Longrightarrow> bloom_inv (bloom_insert h key f)"
  using bloom_insert_bits(2) [of f h key] by (simp add: bloom_inv_def)

lemma bloom_inv_clear: "bloom_inv f \<Longrightarrow> bloom_inv (bloom_clear f)"
  by (simp add: bloom_inv_def bloom_clear_def)

lemma bloom_clear_empty: "bloom_inv f \<Longrightarrow> \<not> maybeContains h (bloom_clear f) key"
proof -
  assume I: "bloom_inv f"
  have "bloom_bit h (bf_m f) key 0 \<in> key_bits h f key" using I by (simp add: key_bits_def bloom_inv_def)
  moreover have "\<not> bit_at (bf_bits (bloom_clear f)) (bloom_bit h (bf_m f) key 0)"
    using bloom_bit_word [OF I, of h key 0] by (simp add: bit_at_iff bloom_clear_def)
  ultimately show ?thesis by (auto simp: maybeContains_bits)
qed

section \<open>The contract of a duplicate pre-filter\<close>

locale duplicate_filter =
  fixes invar :: "'f \<Rightarrow> bool"
    and ins :: "string \<Rightarrow> 'f \<Rightarrow> 'f"
    and mem :: "'f \<Rightarrow> string \<Rightarrow> bool"
  assumes invar_ins: "invar f \<Longrightarrow> invar (ins x f)"
    and mem_ins: "invar f \<Longrightarrow> mem (ins x f) x"
    and mem_keep: "invar f \<Longrightarrow> mem f y \<Longrightarrow> mem (ins x f) y"
begin

definition covers :: "'f \<Rightarrow> string set \<Rightarrow> bool" where
  "covers f A \<longleftrightarrow> invar f \<and> (\<forall>x\<in>A. mem f x)"

lemma covers_ins: "covers f A \<Longrightarrow> covers (ins x f) (insert x A)"
  by (simp add: covers_def invar_ins mem_ins mem_keep)

lemma covers_fold: "covers f A \<Longrightarrow> covers (fold ins xs f) (A \<union> set xs)"
proof (induction xs arbitrary: f A)
  case (Cons x xs)
  from Cons.IH [OF covers_ins [OF Cons.prems, of x]] show ?case by simp
qed simp

text \<open>
  A set tested only after the filter is hit decides like the set alone: the filter can save work
  but never change an answer.
\<close>

lemma prefilter_exact: "covers f A \<Longrightarrow> (if mem f x then x \<in> A else False) \<longleftrightarrow> x \<in> A"
  by (auto simp: covers_def)

end

interpretation bloom: duplicate_filter bloom_inv "bloom_insert h" "maybeContains h" for h
  by unfold_locales (auto simp: bloom_inv_insert maybeContains_bits bloom_insert_bits)

section \<open>Properties\<close>

datatype bloom_op = BInsert string | BClear

fun bloom_step :: "(string \<Rightarrow> u64) \<Rightarrow> bloom_op \<Rightarrow> bloom_filter \<Rightarrow> bloom_filter" where
  "bloom_step h (BInsert key) f = bloom_insert h key f"
| "bloom_step h BClear f = bloom_clear f"

definition bloom_run :: "(string \<Rightarrow> u64) \<Rightarrow> bloom_op list \<Rightarrow> bloom_filter \<Rightarrow> bloom_filter" where
  "bloom_run h ops f = fold (bloom_step h) ops f"

text \<open>The keys inserted since the last clear.\<close>

fun live_step :: "bloom_op \<Rightarrow> string set \<Rightarrow> string set" where
  "live_step (BInsert key) A = insert key A"
| "live_step BClear A = {}"

definition live_keys :: "bloom_op list \<Rightarrow> string set" where
  "live_keys ops = fold live_step ops {}"

lemma bloom_run_covers:
  "bloom.covers h f A \<Longrightarrow> bloom.covers h (bloom_run h ops f) (fold live_step ops A)"
proof (induction ops arbitrary: f A)
  case (Cons oper ops)
  have "bloom.covers h (bloom_step h oper f) (live_step oper A)"
    using Cons.prems bloom.covers_ins [of h f A]
    by (cases oper) (auto simp: bloom.covers_def bloom_inv_clear)
  from Cons.IH [OF this] show ?case by (simp add: bloom_run_def)
qed (simp add: bloom_run_def)

lemma bloom_run_empty:
  "bloom_inv f \<Longrightarrow> (\<And>key. \<not> maybeContains h f key) \<Longrightarrow> \<forall>k. BInsert k \<notin> set ops \<Longrightarrow>
     \<not> maybeContains h (bloom_run h ops f) key"
proof (induction ops arbitrary: f)
  case (Cons oper ops)
  then have "oper = BClear" by (cases oper) auto
  with Cons show ?case by (simp add: bloom_run_def bloom_inv_clear bloom_clear_empty)
qed (simp add: bloom_run_def)

lemma bloom_new_empty: "\<not> maybeContains h (bloom_new lg n p) key"
proof -
  have "map (\<lambda>b. 0) (bf_bits (bloom_new lg n p)) = bf_bits (bloom_new lg n p)"
    by (simp add: bloom_new_def Let_def map_replicate_const)
  then have "bloom_clear (bloom_new lg n p) = bloom_new lg n p" by (simp add: bloom_clear_def)
  then show ?thesis using bloom_clear_empty [OF bloom_inv_new, of h lg n p key] by simp
qed

text \<open>
  Whatever the hash, the logarithm and the constructor's arguments, and after any sequence of
  insertions and clears, a key inserted since the last clear is reported as possibly present.
\<close>

theorem bloom_no_false_negative:
  assumes "key \<in> live_keys ops"
  shows "maybeContains h (bloom_run h ops (bloom_new lg n p)) key"
proof -
  have "bloom.covers h (bloom_new lg n p) {}" by (simp add: bloom.covers_def bloom_inv_new)
  from bloom_run_covers [OF this, of ops] assms show ?thesis
    by (simp add: bloom.covers_def live_keys_def)
qed

text \<open>
  A filter never has zero bits or zero hash functions, every bit an insertion or a lookup
  touches lies inside the bit vector, and a filter that was only ever cleared contains nothing.
\<close>

theorem bloom_bounds:
  "let f = bloom_run h ops (bloom_new lg n p)
   in 1 \<le> bf_m f \<and> 1 \<le> bf_k f \<and> bloom_bit h (bf_m f) key i < bf_m f \<and>
     bloom_bit h (bf_m f) key i div 64 < length (bf_bits f) \<and>
     ((\<exists>k. BInsert k \<in> set ops) \<or> \<not> maybeContains h f key)"
proof -
  let ?f = "bloom_run h ops (bloom_new lg n p)"
  have "bloom.covers h (bloom_new lg n p) {}" by (simp add: bloom.covers_def bloom_inv_new)
  from bloom_run_covers [OF this, of ops] have I: "bloom_inv ?f" by (simp add: bloom.covers_def)
  then show ?thesis
    using bloom_bit_less [OF I] bloom_bit_word [OF I]
      bloom_run_empty [OF bloom_inv_new bloom_new_empty, of ops h lg n p key]
    by (auto simp: Let_def bloom_inv_def)
qed

theorem bloom_bounds_witness:
  "\<not> maybeContains (\<lambda>s. of_nat (length s)) (bloom_run (\<lambda>s. of_nat (length s)) [BClear]
     (bloom_new (\<lambda>x. x - 1) 10 (1 / 100 :: rat))) ''b''"
  using bloom_bounds [where h = "\<lambda>s. of_nat (length s)" and ops = "[BClear]" and n = 10
      and lg = "\<lambda>x. x - 1" and p = "1 / 100 :: rat" and key = "''b''"]
  by (simp only: Let_def) simp

end
