(* ===== verification/Crawler.thy ===== *)
theory Crawler
  imports Html Robots Bloom Inverted_Index "HOL-Library.Product_Lexorder"
begin

text \<open>
  The crawl frontier of \<open>src/crawler.cpp\<close> as a state machine: every critical section of the
  crawler (enqueueing, a worker taking the best item, finishing it, exiting, stopping, joining) is
  one atomic step, and any interleaving of clients and workers is a sequence of such steps. The
  page processing of one worker is in the theory \<open>Process\<close>. The invariant relates the counters,
  the queue, the items in flight and the set of seen URLs.
\<close>

section \<open>State\<close>

record crawl_options =
  o_workerCount :: nat
  o_maxPages :: nat
  o_maxDepth :: u32
  o_requestDelay :: int
  o_domainDelay :: int
  o_obeyRobots :: bool
  o_userAgent :: string
  o_bloomExpected :: nat

definition default_options :: crawl_options where
  "default_options = \<lparr>o_workerCount = 2, o_maxPages = 64, o_maxDepth = 2, o_requestDelay = 0,
     o_domainDelay = 100, o_obeyRobots = True, o_userAgent = ''ShadowSE/1.0'', o_bloomExpected = 10000\<rparr>"

record item =
  it_url :: string
  it_depth :: u32
  it_priority :: int
  it_seq :: u64

text \<open>A worker thread waits, holds the item it processes, or has left its loop.\<close>

datatype worker = Idle | Busy item | Exited

record crawler =
  cr_opts :: crawl_options
  cr_queue :: "item list"
  cr_seen :: "string set"
  cr_bloom :: bloom_filter
  cr_workers :: "worker list"
  cr_stop :: bool
  cr_running :: bool
  cr_pending :: nat
  cr_crawled :: nat
  cr_seq :: u64

text \<open>The default false-positive rate of the filter is \<open>0.01\<close>; \<open>lg\<close> is the logarithm of the sizing.\<close>

definition new_crawler :: "('d::floor_ceiling \<Rightarrow> 'd) \<Rightarrow> crawl_options \<Rightarrow> crawler" where
  "new_crawler lg opts =
     \<lparr>cr_opts = opts, cr_queue = [], cr_seen = {},
      cr_bloom = bloom_new lg (if 0 < o_bloomExpected opts then o_bloomExpected opts else 10000) (1 / 100),
      cr_workers = [], cr_stop = False, cr_running = False, cr_pending = 0, cr_crawled = 0, cr_seq = 0\<rparr>"

section \<open>The priority queue\<close>

text \<open>\<open>ItemCompare\<close>: smaller priority first, then first in first out.\<close>

definition item_key :: "item \<Rightarrow> int \<times> u64" where
  "item_key it = (it_priority it, it_seq it)"

definition queue_top :: "item list \<Rightarrow> item" where
  "queue_top q = hd (sort_key item_key q)"

definition queue_pop :: "item list \<Rightarrow> item list" where
  "queue_pop q = remove1 (queue_top q) q"

section \<open>Operations\<close>

definition enqueue :: "(string \<Rightarrow> u64) \<Rightarrow> crawler \<Rightarrow> string \<Rightarrow> u32 \<Rightarrow> int \<Rightarrow> bool \<times> crawler" where
  "enqueue h s url depth priority =
     (if cr_stop s then (False, s)
      else if o_maxPages (cr_opts s) \<le> cr_crawled s + cr_pending s then (False, s)
      else if maybeContains h (cr_bloom s) url \<and> url \<in> cr_seen s then (False, s)
      else if url \<in> cr_seen s then (False, s)
      else
        let s = s\<lparr>cr_seen := insert url (cr_seen s)\<rparr>;
            s = s\<lparr>cr_bloom := bloom_insert h url (cr_bloom s)\<rparr>;
            p = (if priority < 0 then sint depth else priority);
            it = \<lparr>it_url = url, it_depth = depth, it_priority = p, it_seq = cr_seq s\<rparr>;
            s = s\<lparr>cr_queue := it # cr_queue s, cr_seq := cr_seq s + 1\<rparr>;
            s = s\<lparr>cr_pending := cr_pending s + 1\<rparr>;
            s = (if \<not> cr_running s
                 then s\<lparr>cr_running := True,
                        cr_workers := cr_workers s @ replicate (max 1 (o_workerCount (cr_opts s))) Idle\<rparr>
                 else s)
        in (True, s))"

text \<open>The first half of a worker's turn: it takes the top of the queue, if there is one.\<close>

definition take_item :: "nat \<Rightarrow> crawler \<Rightarrow> crawler" where
  "take_item i s =
     (let it = queue_top (cr_queue s)
      in s\<lparr>cr_queue := queue_pop (cr_queue s), cr_workers := (cr_workers s)[i := Busy it]\<rparr>)"

text \<open>The second half, after \<open>process\<close>.\<close>

definition finish_item :: "nat \<Rightarrow> crawler \<Rightarrow> crawler" where
  "finish_item i s =
     s\<lparr>cr_pending := cr_pending s - 1, cr_crawled := cr_crawled s + 1,
       cr_workers := (cr_workers s)[i := Idle]\<rparr>"

definition request_stop :: "crawler \<Rightarrow> crawler" where
  "request_stop s = s\<lparr>cr_stop := True\<rparr>"

definition join_workers :: "crawler \<Rightarrow> crawler" where
  "join_workers s = s\<lparr>cr_workers := [], cr_running := False\<rparr>"

definition pendingCount :: "crawler \<Rightarrow> nat" where
  "pendingCount s = cr_pending s"

definition crawledCount :: "crawler \<Rightarrow> nat" where
  "crawledCount s = cr_crawled s"

section \<open>Steps\<close>

datatype action =
  Enqueue string u32 int bool
  | Take nat item
  | Finish nat item
  | Exit nat
  | Stop
  | Join

inductive crawl_step :: "(string \<Rightarrow> u64) \<Rightarrow> crawler \<Rightarrow> action \<Rightarrow> crawler \<Rightarrow> bool" for h where
  step_enqueue: "enqueue h s url depth prio = (ok, s') \<Longrightarrow> crawl_step h s (Enqueue url depth prio ok) s'"
| step_take: "i < length (cr_workers s) \<Longrightarrow> cr_workers s ! i = Idle \<Longrightarrow> cr_queue s \<noteq> [] \<Longrightarrow>
    crawl_step h s (Take i (queue_top (cr_queue s))) (take_item i s)"
| step_finish: "i < length (cr_workers s) \<Longrightarrow> cr_workers s ! i = Busy it \<Longrightarrow>
    crawl_step h s (Finish i it) (finish_item i s)"
| step_exit: "i < length (cr_workers s) \<Longrightarrow> cr_workers s ! i = Idle \<Longrightarrow> cr_queue s = [] \<Longrightarrow> cr_stop s \<Longrightarrow>
    crawl_step h s (Exit i) (s\<lparr>cr_workers := (cr_workers s)[i := Exited]\<rparr>)"
| step_stop: "\<not> cr_stop s \<Longrightarrow> crawl_step h s Stop (request_stop s)"
| step_join: "cr_stop s \<Longrightarrow> \<forall>w\<in>set (cr_workers s). w = Exited \<Longrightarrow> crawl_step h s Join (join_workers s)"

inductive_cases crawl_stepE: "crawl_step h s a s'"

inductive crawl_run :: "(string \<Rightarrow> u64) \<Rightarrow> crawler \<Rightarrow> action list \<Rightarrow> crawler \<Rightarrow> bool" for h where
  run_nil: "crawl_run h s [] s"
| run_snoc: "crawl_run h s tr s' \<Longrightarrow> crawl_step h s' a s'' \<Longrightarrow> crawl_run h s (tr @ [a]) s''"

section \<open>The frontier\<close>

lemma queue_top_in: "q \<noteq> [] \<Longrightarrow> queue_top q \<in> set q"
  unfolding queue_top_def by (metis length_0_conv length_sort list.set_sel(1) set_sort)

lemma queue_top_least: "it \<in> set q \<Longrightarrow> item_key (queue_top q) \<le> item_key it"
proof -
  assume it: "it \<in> set q"
  obtain x xs where s: "sort_key item_key q = x # xs"
    using it by (cases "sort_key item_key q") (auto simp: length_0_conv [symmetric] simp del: length_0_conv)
  have "sorted (map item_key (x # xs))" "it \<in> set (x # xs)"
    using s it by (metis sorted_sort_key, metis set_sort)
  then show ?thesis by (auto simp: queue_top_def s)
qed

lemma queue_pop_props:
  assumes "q \<noteq> []"
  shows "length (queue_pop q) = length q - 1"
    "distinct (map f q) \<Longrightarrow> set (map f (queue_pop q)) = set (map f q) - {f (queue_top q)}"
    "distinct (map f q) \<Longrightarrow> distinct (map f (queue_pop q))"
proof -
  have top: "queue_top q \<in> set q" using assms by (rule queue_top_in)
  then show "length (queue_pop q) = length q - 1" by (simp add: queue_pop_def length_remove1)
  obtain a b where ab: "q = a @ queue_top q # b" "queue_top q \<notin> set a"
    using split_list_first [OF top] by blast
  then have pop: "queue_pop q = a @ b" unfolding queue_pop_def
    by (metis remove1.simps(2) remove1_append)
  have m: "map f q = map f a @ f (queue_top q) # map f b" using ab(1) by (metis map_append list.simps(9))
  show "set (map f (queue_pop q)) = set (map f q) - {f (queue_top q)}" if "distinct (map f q)"
    using that unfolding m pop by auto
  show "distinct (map f (queue_pop q))" if "distinct (map f q)"
    using that unfolding m pop by auto
qed

definition busy :: "worker list \<Rightarrow> nat" where
  "busy ws = length (filter (\<lambda>w. \<exists>it. w = Busy it) ws)"

lemma busy_update:
  "i < length ws \<Longrightarrow> busy (ws[i := w]) + (if \<exists>it. ws ! i = Busy it then 1 else 0) =
     busy ws + (if \<exists>it. w = Busy it then 1 else 0)"
proof (induction ws arbitrary: i)
  case (Cons v ws)
  show ?case
  proof (cases i)
    case 0
    then show ?thesis by (simp add: busy_def)
  next
    case (Suc j)
    with Cons.IH [of j] Cons.prems show ?thesis by (auto simp: busy_def)
  qed
qed simp

text \<open>The URLs taken and the items finished in a trace.\<close>

fun taken :: "action list \<Rightarrow> string list" where
  "taken [] = []"
| "taken (Take i it # tr) = it_url it # taken tr"
| "taken (a # tr) = taken tr"

fun finished :: "action list \<Rightarrow> nat" where
  "finished [] = 0"
| "finished (Finish i it # tr) = Suc (finished tr)"
| "finished (a # tr) = finished tr"

lemma taken_snoc: "taken (tr @ [a]) = taken tr @ (case a of Take i it \<Rightarrow> [it_url it] | _ \<Rightarrow> [])"
  by (induction tr rule: taken.induct) (auto split: action.split)

lemma finished_snoc: "finished (tr @ [a]) = finished tr + (case a of Finish i it \<Rightarrow> 1 | _ \<Rightarrow> 0)"
  by (induction tr rule: finished.induct) (auto split: action.split)

lemmas trace_snoc = taken_snoc finished_snoc

definition crawl_inv :: "(string \<Rightarrow> u64) \<Rightarrow> action list \<Rightarrow> crawler \<Rightarrow> bool" where
  "crawl_inv h tr s \<longleftrightarrow>
     distinct (taken tr @ map it_url (cr_queue s)) \<and>
     set (taken tr @ map it_url (cr_queue s)) = cr_seen s \<and>
     distinct (map it_seq (cr_queue s)) \<and> (\<forall>it\<in>set (cr_queue s). unat (it_seq it) < card (cr_seen s)) \<and>
     cr_seq s = of_nat (card (cr_seen s)) \<and>
     cr_crawled s = finished tr \<and> cr_crawled s + busy (cr_workers s) = length (taken tr) \<and>
     cr_pending s = length (cr_queue s) + busy (cr_workers s) \<and>
     cr_crawled s + cr_pending s \<le> o_maxPages (cr_opts s) \<and>
     bloom.covers h (cr_bloom s) (cr_seen s)"

lemma enqueue_iff:
  "bloom.covers h (cr_bloom s) (cr_seen s) \<Longrightarrow>
     fst (enqueue h s url depth prio) \<longleftrightarrow>
       \<not> cr_stop s \<and> cr_crawled s + cr_pending s < o_maxPages (cr_opts s) \<and> url \<notin> cr_seen s"
  by (auto simp: enqueue_def Let_def)

lemma enqueue_rejected: "\<not> fst (enqueue h s url depth prio) \<Longrightarrow> snd (enqueue h s url depth prio) = s"
  by (auto simp: enqueue_def Let_def)

lemma enqueue_opts [simp]: "cr_opts (snd (enqueue h s url depth prio)) = cr_opts s"
  by (simp add: enqueue_def Let_def)

lemma busy_idle: "busy (ws @ replicate n Idle) = busy ws"
  by (simp add: busy_def)

lemma enqueue_accepted:
  assumes "fst (enqueue h s url depth prio)"
  obtains p ws where "snd (enqueue h s url depth prio) =
      s\<lparr>cr_seen := insert url (cr_seen s), cr_bloom := bloom_insert h url (cr_bloom s),
        cr_queue := \<lparr>it_url = url, it_depth = depth, it_priority = p, it_seq = cr_seq s\<rparr> # cr_queue s,
        cr_seq := cr_seq s + 1, cr_pending := cr_pending s + 1, cr_running := True, cr_workers := ws\<rparr>"
    "busy ws = busy (cr_workers s)" "url \<notin> cr_seen s" "cr_crawled s + cr_pending s < o_maxPages (cr_opts s)"
    "\<not> cr_stop s"
proof -
  have c: "\<not> cr_stop s" "cr_crawled s + cr_pending s < o_maxPages (cr_opts s)" "url \<notin> cr_seen s"
    using assms by (auto simp: enqueue_def Let_def split: if_splits)
  show thesis
    by (rule that [where p = "if prio < 0 then sint depth else prio" and ws = "if cr_running s then cr_workers s
          else cr_workers s @ replicate (max 1 (o_workerCount (cr_opts s))) Idle"])
      (use c in \<open>auto simp: enqueue_def Let_def busy_idle not_le [symmetric]\<close>)
qed

lemma crawl_inv_card: "crawl_inv h tr s \<Longrightarrow> card (cr_seen s) = cr_crawled s + cr_pending s"
proof -
  assume I: "crawl_inv h tr s"
  then have "card (cr_seen s) = length (taken tr @ map it_url (cr_queue s))"
    unfolding crawl_inv_def by (metis distinct_card)
  with I show ?thesis by (simp add: crawl_inv_def)
qed

lemma crawl_inv_enqueue:
  assumes I: "crawl_inv h tr s" and m: "o_maxPages (cr_opts s) < 2 ^ 64"
  shows "crawl_inv h (tr @ [Enqueue url depth prio ok]) (snd (enqueue h s url depth prio))"
proof (cases "fst (enqueue h s url depth prio)")
  case False
  with I show ?thesis by (simp add: enqueue_rejected crawl_inv_def trace_snoc)
next
  case True
  then obtain p ws where e: "snd (enqueue h s url depth prio) =
      s\<lparr>cr_seen := insert url (cr_seen s), cr_bloom := bloom_insert h url (cr_bloom s),
        cr_queue := \<lparr>it_url = url, it_depth = depth, it_priority = p, it_seq = cr_seq s\<rparr> # cr_queue s,
        cr_seq := cr_seq s + 1, cr_pending := cr_pending s + 1, cr_running := True, cr_workers := ws\<rparr>"
    and ws: "busy ws = busy (cr_workers s)" and url: "url \<notin> cr_seen s"
    and cap: "cr_crawled s + cr_pending s < o_maxPages (cr_opts s)"
    by (rule enqueue_accepted)
  have fin: "finite (cr_seen s)" using I by (metis crawl_inv_def List.finite_set)
  have card: "card (cr_seen s) < 2 ^ 64" using crawl_inv_card [OF I] cap m by simp
  then have seq: "unat (cr_seq s) = card (cr_seen s)" using I by (simp add: crawl_inv_def unat_of_nat_u64)
  have fresh: "cr_seq s \<notin> it_seq ` set (cr_queue s)"
    using I seq by (fastforce simp: crawl_inv_def)
  have lt: "\<forall>it\<in>set (cr_queue s). unat (it_seq it) < Suc (card (cr_seen s))"
    using I by (auto simp: crawl_inv_def less_Suc_eq)
  have bl: "bloom.covers h (bloom_insert h url (cr_bloom s)) (insert url (cr_seen s))"
    using I bloom.covers_ins by (simp add: crawl_inv_def)
  show ?thesis
    unfolding e using I ws url cap fin seq fresh lt bl
    by (simp add: crawl_inv_def trace_snoc) (auto simp: add.commute)
qed

lemma crawl_inv_take:
  assumes I: "crawl_inv h tr s" and i: "i < length (cr_workers s)" "cr_workers s ! i = Idle" "cr_queue s \<noteq> []"
  shows "crawl_inv h (tr @ [Take i (queue_top (cr_queue s))]) (take_item i s)"
proof -
  let ?q = "cr_queue s" and ?t = "queue_top (cr_queue s)"
  have d: "distinct (map it_url ?q)" "distinct (map it_seq ?q)" using I by (simp_all add: crawl_inv_def)
  note top = queue_top_in [OF i(3)]
  note pop = queue_pop_props [OF i(3)]
  have sub: "set (queue_pop ?q) \<subseteq> set ?q" by (simp add: queue_pop_def set_remove1_subset)
  have b: "busy ((cr_workers s)[i := Busy ?t]) = Suc (busy (cr_workers s))"
    using busy_update [OF i(1), of "Busy ?t"] i(2) by simp
  have urls: "set (map it_url (queue_pop ?q)) = set (map it_url ?q) - {it_url ?t}" by (rule pop(2) [OF d(1)])
  have "it_url ?t \<in> it_url ` set ?q" using top by simp
  then show ?thesis
    using I pop(1) pop(3) [OF d(1)] pop(3) [OF d(2)] sub b urls i(3)
    by (simp add: crawl_inv_def trace_snoc take_item_def Let_def) (auto simp: length_greater_0_conv [symmetric] simp del: length_greater_0_conv)
qed

lemma crawl_inv_finish:
  assumes I: "crawl_inv h tr s" and i: "i < length (cr_workers s)" "cr_workers s ! i = Busy it"
  shows "crawl_inv h (tr @ [Finish i it]) (finish_item i s)"
proof -
  have "Suc (busy ((cr_workers s)[i := Idle])) = busy (cr_workers s)"
    using busy_update [OF i(1), of Idle] i(2) by simp
  with I show ?thesis by (simp add: crawl_inv_def trace_snoc finish_item_def)
qed

lemma busy_all_exited: "\<forall>w\<in>set ws. w = Exited \<Longrightarrow> busy ws = 0"
  by (induction ws) (simp_all add: busy_def)

lemma crawl_step_opts: "crawl_step h s a s' \<Longrightarrow> cr_opts s' = cr_opts s"
  by (erule crawl_stepE) (auto simp: take_item_def finish_item_def request_stop_def join_workers_def Let_def
      dest: arg_cong [of _ _ "\<lambda>x. cr_opts (snd x)"])

lemma crawl_inv_step:
  assumes "crawl_step h s a s'" "crawl_inv h tr s" "o_maxPages (cr_opts s) < 2 ^ 64"
  shows "crawl_inv h (tr @ [a]) s'"
  using assms(1)
proof cases
  case (step_enqueue url depth prio ok)
  then show ?thesis using crawl_inv_enqueue [OF assms(2,3), of url depth prio ok] by simp
next
  case (step_take i)
  then show ?thesis using crawl_inv_take [OF assms(2)] by simp
next
  case (step_finish i it)
  then show ?thesis using crawl_inv_finish [OF assms(2)] by simp
next
  case (step_exit i)
  then show ?thesis
    using assms(2) busy_update [of i "cr_workers s" Exited] by (simp add: crawl_inv_def trace_snoc)
next
  case step_stop
  then show ?thesis using assms(2) by (simp add: crawl_inv_def trace_snoc request_stop_def)
next
  case step_join
  then show ?thesis
    using assms(2) busy_all_exited [of "cr_workers s"]
    by (simp add: crawl_inv_def trace_snoc join_workers_def busy_def)
qed

lemma crawl_inv_new: "crawl_inv h [] (new_crawler lg opts)"
  by (simp add: crawl_inv_def new_crawler_def busy_def bloom.covers_def bloom_inv_new)

lemma crawl_run_inv:
  assumes "crawl_run h s0 tr s" "s0 = new_crawler lg opts" "o_maxPages opts < 2 ^ 64"
  shows "crawl_inv h tr s \<and> cr_opts s = opts"
  using assms
proof (induction rule: crawl_run.induct)
  case run_nil
  then show ?case using crawl_inv_new [of h lg opts] by (simp add: new_crawler_def)
next
  case (run_snoc tr s' a s'')
  then show ?case using crawl_inv_step crawl_step_opts by simp
qed

section \<open>Shutdown\<close>

text \<open>Work left: two steps for every waiting item, one for every item in flight.\<close>

definition work_left :: "crawler \<Rightarrow> nat" where
  "work_left s = 2 * length (cr_queue s) + busy (cr_workers s)"

lemma stopped_step:
  assumes "crawl_step h s a s'" "cr_stop s"
  shows "cr_stop s' \<and> work_left s' + (case a of Take i it \<Rightarrow> 1 | Finish i it \<Rightarrow> 1 | _ \<Rightarrow> 0) = work_left s"
  using assms(1)
proof cases
  case (step_enqueue url depth prio ok)
  then have "s' = s" using assms(2) by (simp add: enqueue_def)
  with step_enqueue assms(2) show ?thesis by simp
next
  case (step_take i)
  then show ?thesis
    using assms(2) busy_update [of i "cr_workers s" "Busy (queue_top (cr_queue s))"]
      queue_pop_props(1) [of "cr_queue s"]
    by (cases "cr_queue s") (simp_all add: take_item_def Let_def work_left_def)
next
  case (step_finish i it)
  then show ?thesis
    using assms(2) busy_update [of i "cr_workers s" Idle] by (simp add: finish_item_def work_left_def)
next
  case (step_exit i)
  then show ?thesis
    using assms(2) busy_update [of i "cr_workers s" Exited] by (simp add: work_left_def)
next
  case step_join
  then show ?thesis
    using assms(2) busy_all_exited [of "cr_workers s"] by (simp add: join_workers_def work_left_def busy_def)
qed (use assms in simp)

section \<open>Properties\<close>

text \<open>
  C1: In every state any interleaving of clients and workers can reach, the pending count is the
  number of waiting items plus the items in flight, the crawled count is the number of finished
  items, together they never exceed the page cap, and the accepted URLs are exactly the taken and
  the waiting ones, each occurring once: no page is ever processed twice.
\<close>

theorem crawl_counts:
  assumes "crawl_run h (new_crawler lg opts) tr s" "o_maxPages opts < 2 ^ 64"
  shows "pendingCount s = length (cr_queue s) + busy (cr_workers s) \<and>
    crawledCount s = finished tr \<and> crawledCount s + pendingCount s \<le> o_maxPages opts \<and>
    crawledCount s + pendingCount s = card (cr_seen s) \<and>
    distinct (taken tr @ map it_url (cr_queue s)) \<and>
    set (taken tr @ map it_url (cr_queue s)) = cr_seen s"
proof -
  have I: "crawl_inv h tr s" and o: "cr_opts s = opts" using crawl_run_inv [OF assms(1) refl assms(2)] by simp_all
  have "cr_crawled s + cr_pending s = card (cr_seen s)" using crawl_inv_card [OF I] by simp
  with I o show ?thesis unfolding crawl_inv_def pendingCount_def crawledCount_def by blast
qed

lemma one_enqueue:
  "crawl_run h s [Enqueue u d p (fst (enqueue h s u d p))] (snd (enqueue h s u d p))"
  using run_snoc [OF run_nil step_enqueue [OF prod.collapse [symmetric]]] by simp

theorem crawl_counts_witness:
  "pendingCount (snd (enqueue (\<lambda>x. 0) (new_crawler (\<lambda>x :: rat. x - 1) default_options) ''http://a/'' 0 (-1))) = 1"
proof -
  let ?s = "new_crawler (\<lambda>x :: rat. x - 1) default_options"
  have "o_maxPages default_options < 2 ^ 64" by (simp add: default_options_def)
  from crawl_counts [OF one_enqueue [of "\<lambda>x. 0" ?s "''http://a/''" 0 "-1"] this]
  have "crawledCount (snd (enqueue (\<lambda>x. 0) ?s ''http://a/'' 0 (-1))) +
      pendingCount (snd (enqueue (\<lambda>x. 0) ?s ''http://a/'' 0 (-1))) =
      card (cr_seen (snd (enqueue (\<lambda>x. 0) ?s ''http://a/'' 0 (-1))))" "crawledCount (snd (enqueue (\<lambda>x. 0) ?s ''http://a/'' 0 (-1))) = 0"
    by simp_all
  moreover have "cr_seen (snd (enqueue (\<lambda>x. 0) ?s ''http://a/'' 0 (-1))) = {''http://a/''}"
    by (simp add: enqueue_def Let_def new_crawler_def default_options_def)
  ultimately show ?thesis by simp
qed

text \<open>
  C8: The Bloom pre-filter never costs an URL: in every reachable state an enqueue is accepted
  exactly when the crawler is not stopped, the cap is not reached and the URL was not accepted
  before; a rejected enqueue changes nothing.
\<close>

theorem enqueue_exact:
  assumes "crawl_run h (new_crawler lg opts) tr s" "o_maxPages opts < 2 ^ 64"
  shows "(fst (enqueue h s url depth prio) \<longleftrightarrow>
      \<not> cr_stop s \<and> crawledCount s + pendingCount s < o_maxPages opts \<and> url \<notin> cr_seen s) \<and>
    (fst (enqueue h s url depth prio) \<or> snd (enqueue h s url depth prio) = s)"
  using crawl_run_inv [OF assms(1) refl assms(2)] enqueue_iff [of h s] enqueue_rejected [of h s]
  by (auto simp: crawl_inv_def pendingCount_def crawledCount_def)

theorem enqueue_exact_witness:
  "fst (enqueue (\<lambda>x. 0) (new_crawler (\<lambda>x :: rat. x - 1) default_options) ''http://a/'' 0 (-1))"
  using enqueue_exact [OF run_nil, of default_options "\<lambda>x. 0" "\<lambda>x :: rat. x - 1" "''http://a/''" 0 "-1"]
  by (simp add: default_options_def new_crawler_def crawledCount_def pendingCount_def)

text \<open>
  C9: A worker that takes an item takes one of the smallest priority value among all waiting ones,
  and among equal priorities the one that was enqueued first; every other item stays queued.
\<close>

theorem take_best:
  assumes "crawl_run h (new_crawler lg opts) tr s" "o_maxPages opts < 2 ^ 64"
    and "crawl_step h s (Take i it) s'"
  shows "it \<in> set (cr_queue s) \<and> it \<notin> set (cr_queue s') \<and> set (cr_queue s) = insert it (set (cr_queue s')) \<and>
    (\<forall>x\<in>set (cr_queue s'). it_priority it < it_priority x \<or>
       (it_priority it = it_priority x \<and> it_seq it < it_seq x)) \<and>
    cr_workers s' = (cr_workers s)[i := Busy it]"
proof -
  have I: "crawl_inv h tr s" using crawl_run_inv [OF assms(1) refl assms(2)] by simp
  from assms(3) have s: "cr_queue s \<noteq> []" "it = queue_top (cr_queue s)" "s' = take_item i s"
    by (auto elim: crawl_stepE)
  have d: "distinct (map it_seq (cr_queue s))" using I by (simp add: crawl_inv_def)
  then have dq: "distinct (map (\<lambda>x. x) (cr_queue s))" by (simp add: distinct_map)
  have top: "it \<in> set (cr_queue s)" using s queue_top_in by simp
  have set: "set (queue_pop (cr_queue s)) = set (cr_queue s) - {it}"
    using queue_pop_props(2) [OF s(1) dq] s(2) by simp
  have best: "it_priority it < it_priority x \<or> (it_priority it = it_priority x \<and> it_seq it < it_seq x)"
    if "x \<in> set (cr_queue s) - {it}" for x
  proof -
    have "item_key it \<le> item_key x" using queue_top_least [of x "cr_queue s"] that s(2) by simp
    moreover have "it_seq it \<noteq> it_seq x" using that d top by (auto simp: distinct_map inj_on_def)
    ultimately show ?thesis by (auto simp: item_key_def less_eq_prod_def)
  qed
  show ?thesis using s set top best by (auto simp: take_item_def Let_def)
qed

theorem take_best_witness:
  "let s = snd (enqueue (\<lambda>x. 0) (new_crawler (\<lambda>x :: rat. x - 1) default_options) ''http://a/'' 0 (-1))
   in cr_workers (take_item 0 s) =
        [Busy \<lparr>it_url = ''http://a/'', it_depth = 0, it_priority = 0, it_seq = 0\<rparr>, Idle]"
proof -
  let ?init = "new_crawler (\<lambda>x :: rat. x - 1) default_options"
  let ?s = "snd (enqueue (\<lambda>x. 0) ?init ''http://a/'' 0 (-1))"
  have m: "o_maxPages default_options < 2 ^ 64" by (simp add: default_options_def)
  have s: "cr_queue ?s = [\<lparr>it_url = ''http://a/'', it_depth = 0, it_priority = 0, it_seq = 0\<rparr>]"
    "cr_workers ?s = [Idle, Idle]"
    by (simp_all add: enqueue_def Let_def new_crawler_def default_options_def numeral_2_eq_2)
  then have "crawl_step (\<lambda>x. 0) ?s (Take 0 (queue_top (cr_queue ?s))) (take_item 0 ?s)"
    by (intro step_take) simp_all
  from take_best [OF one_enqueue m this] s show ?thesis by auto
qed

text \<open>Workers leave only an empty queue of a stopped crawler, and a non-empty queue has workers.\<close>

definition attended :: "crawler \<Rightarrow> bool" where
  "attended s \<longleftrightarrow> (Exited \<in> set (cr_workers s) \<longrightarrow> cr_queue s = [] \<and> cr_stop s) \<and>
     (cr_queue s \<noteq> [] \<longrightarrow> cr_workers s \<noteq> []) \<and> (cr_running s \<longrightarrow> cr_workers s \<noteq> [])"

lemma attended_enqueue: "attended s \<Longrightarrow> attended (snd (enqueue h s url depth prio))"
  by (auto simp: attended_def enqueue_def Let_def)

lemma attended_step: "crawl_step h s a s' \<Longrightarrow> attended s \<Longrightarrow> attended s'"
proof (erule crawl_stepE, goal_cases)
  case (1 url depth prio ok)
  then show ?case using attended_enqueue [of s h url depth prio] by simp
next
  case (2 i)
  then show ?case
    using set_update_subset_insert [of "cr_workers s" i "Busy (queue_top (cr_queue s))"]
    by (auto simp: attended_def take_item_def Let_def)
next
  case (3 i it)
  then show ?case
    using set_update_subset_insert [of "cr_workers s" i Idle] by (auto simp: attended_def finish_item_def)
next
  case (6)
  then have "cr_queue s = []" by (cases "cr_workers s") (auto simp: attended_def)
  with 6 show ?case by (simp add: attended_def join_workers_def)
qed (auto simp: attended_def request_stop_def)

lemma attended_run: "crawl_run h s tr s' \<Longrightarrow> attended s \<Longrightarrow> attended s'"
  by (induction rule: crawl_run.induct) (auto intro: attended_step)

lemma progress:
  assumes "attended s" "cr_stop s" "work_left s \<noteq> 0"
  shows "\<exists>a s'. crawl_step h s a s' \<and> work_left s' < work_left s"
proof (cases "\<exists>i it. i < length (cr_workers s) \<and> cr_workers s ! i = Busy it")
  case True
  then obtain i it where "crawl_step h s (Finish i it) (finish_item i s)" using step_finish by blast
  with stopped_step [OF this assms(2)] show ?thesis by fastforce
next
  case False
  then have "busy (cr_workers s) = 0" by (auto simp: busy_def filter_empty_conv in_set_conv_nth)
  with assms(3) have q: "cr_queue s \<noteq> []" by (auto simp: work_left_def)
  with assms(1) have w: "0 < length (cr_workers s)" "cr_workers s ! 0 \<in> set (cr_workers s)"
    by (auto simp: attended_def)
  with q assms(1) False have "cr_workers s ! 0 = Idle"
    by (cases "cr_workers s ! 0") (auto simp: attended_def)
  with w(1) q have "crawl_step h s (Take 0 (queue_top (cr_queue s))) (take_item 0 s)" by (intro step_take)
  with stopped_step [OF this assms(2)] show ?thesis by fastforce
qed

text \<open>
  C10: Shutdown ends. In every reachable stopped state the workers still take or finish exactly the
  work that is left, twice the waiting items plus the items in flight, whatever clients do; and as
  long as some work is left a worker can take a step that reduces it.
\<close>

theorem stop_drains:
  assumes "crawl_run h (new_crawler lg opts) tr0 s" "cr_stop s" "crawl_run h s tr s'"
  shows "length (filter (\<lambda>a. case a of Take i it \<Rightarrow> True | Finish i it \<Rightarrow> True | _ \<Rightarrow> False) tr) + work_left s' =
      work_left s \<and>
    (work_left s' = 0 \<or> (\<exists>a s''. crawl_step h s' a s'' \<and> work_left s'' < work_left s'))"
proof
  have run: "length (filter (\<lambda>a. case a of Take i it \<Rightarrow> True | Finish i it \<Rightarrow> True | _ \<Rightarrow> False) tr) + work_left s' =
      work_left s \<and> cr_stop s'"
    using assms(3,2)
  proof (induction rule: crawl_run.induct)
    case (run_snoc s tr s' a s'')
    then show ?case using stopped_step [of h s' a s''] by (auto split: action.splits)
  qed simp
  then show "length (filter (\<lambda>a. case a of Take i it \<Rightarrow> True | Finish i it \<Rightarrow> True | _ \<Rightarrow> False) tr) + work_left s' =
      work_left s" by simp
  have "attended (new_crawler lg opts)" by (simp add: attended_def new_crawler_def)
  then have "attended s'" using attended_run assms(1,3) by blast
  then show "work_left s' = 0 \<or> (\<exists>a s''. crawl_step h s' a s'' \<and> work_left s'' < work_left s')"
    using progress run by blast
qed

theorem stop_drains_witness:
  "let s = request_stop (snd (enqueue (\<lambda>x. 0) (new_crawler (\<lambda>x :: rat. x - 1) default_options) ''http://a/'' 0 (-1)))
   in \<exists>a s'. crawl_step (\<lambda>x. 0) s a s' \<and> work_left s' < work_left s"
proof -
  let ?init = "new_crawler (\<lambda>x :: rat. x - 1) default_options"
  let ?s = "snd (enqueue (\<lambda>x. 0) ?init ''http://a/'' 0 (-1))"
  have len: "length (cr_queue ?s) = 1" and "\<not> cr_stop ?s"
    by (simp_all add: enqueue_def Let_def new_crawler_def default_options_def)
  from \<open>\<not> cr_stop ?s\<close> have "crawl_step (\<lambda>x. 0) ?s Stop (request_stop ?s)" by (rule step_stop)
  from run_snoc [OF one_enqueue this]
  have "\<exists>tr. crawl_run (\<lambda>x. 0) ?init tr (request_stop ?s)" by blast
  then obtain tr where "crawl_run (\<lambda>x. 0) ?init tr (request_stop ?s)" ..
  from stop_drains [OF this _ run_nil] len
  show ?thesis by (simp add: request_stop_def work_left_def Let_def)
qed

end
