(* ===== verification/Process.thy ===== *)
theory Process
  imports Crawler
begin

text \<open>
  One worker's page processing of \<open>src/crawler.cpp\<close>: politeness delay, robots gate, fetch,
  extraction, indexing and link following. The steady clock is a parameter, the sequence of its
  readings in nanoseconds; sleeping only lets the readings advance. The loop of
  \<open>politenessWait\<close> may wait for ever if the clock stands still, so it is a partial function and its
  return under a growing clock is a theorem. The theory proves that a page its policy forbids is
  never fetched or indexed and that processing acts on the frontier only by enqueue steps.
\<close>

section \<open>Politeness\<close>

record timing =
  tm_reads :: nat
  tm_lastFetch :: "string \<Rightarrow> int option"

text \<open>A domain without an entry counts as fetched at the epoch.\<close>

definition last_fetch :: "timing \<Rightarrow> string \<Rightarrow> int" where
  "last_fetch t domain = (case tm_lastFetch t domain of None \<Rightarrow> 0 | Some l \<Rightarrow> l)"

partial_function (option) politenessWait :: "(nat \<Rightarrow> int) \<Rightarrow> int \<Rightarrow> string \<Rightarrow> timing \<Rightarrow> timing option" where
  "politenessWait clock delay domain t =
     (let prev = last_fetch t domain;
          now = clock (tm_reads t);
          wait = delay - (now - prev)
      in if wait \<le> 0
         then Some (t\<lparr>tm_lastFetch := (tm_lastFetch t)(domain \<mapsto> clock (tm_reads t + 1)),
                      tm_reads := tm_reads t + 2\<rparr>)
         else politenessWait clock delay domain (t\<lparr>tm_reads := tm_reads t + 1\<rparr>))"

section \<open>Processing a page\<close>

record 'w world =
  w_crawler :: crawler
  w_robots :: robots
  w_index :: inverted_index
  w_net :: 'w
  w_timing :: timing
  w_onDoc :: "document list option"
  w_onErr :: "(string \<times> string) list option"

definition domainOf :: "string \<Rightarrow> string" where
  "domainOf url =
     (case str_find ''://'' url of
        None \<Rightarrow> url
      | Some scheme \<Rightarrow>
          let hostStart = scheme + 3
          in slice url hostStart (find_first_of ''/?#'' url hostStart))"

definition isRobotsUrl :: "string \<Rightarrow> bool" where
  "isRobotsUrl url \<longleftrightarrow> contains url ''robots.txt''"

text \<open>A callback, when one is set, appends to the log of its calls.\<close>

definition call_error :: "string \<Rightarrow> string \<Rightarrow> 'w world \<Rightarrow> 'w world" where
  "call_error url msg w = w\<lparr>w_onErr := map_option (\<lambda>l. l @ [(url, msg)]) (w_onErr w)\<rparr>"

definition call_document :: "document \<Rightarrow> 'w world \<Rightarrow> 'w world" where
  "call_document d w = w\<lparr>w_onDoc := map_option (\<lambda>l. l @ [d]) (w_onDoc w)\<rparr>"

definition wait_for :: "(nat \<Rightarrow> int) \<Rightarrow> string \<Rightarrow> 'w world \<Rightarrow> 'w world option" where
  "wait_for clock domain w =
     map_option (\<lambda>t. w\<lparr>w_timing := t\<rparr>)
       (politenessWait clock (o_domainDelay (cr_opts (w_crawler w)) * 1000000) domain (w_timing w))"

text \<open>The robots part: whether processing may go on.\<close>

definition robots_gate :: "'w fetcher \<Rightarrow> (nat \<Rightarrow> int) \<Rightarrow> string \<Rightarrow> 'w world \<Rightarrow> ('w world \<times> bool) option" where
  "robots_gate fetch clock url w =
     (if o_obeyRobots (cr_opts (w_crawler w)) \<and> \<not> isRobotsUrl url
      then Option.bind
        (if \<not> hasRules (w_robots w) url
         then map_option (\<lambda>w. case loadDomain fetch url (w_robots w, w_net w) of
                (rb, net) \<Rightarrow> w\<lparr>w_robots := rb, w_net := net\<rparr>) (wait_for clock (domainOf url) w)
         else Some w)
        (\<lambda>w. if \<not> allowed (w_robots w) url
              then Some (call_error url ''blocked by robots.txt'' w, False)
              else Some (w, True))
      else Some (w, True))"

definition page_document :: "string \<Rightarrow> u32 \<Rightarrow> string \<Rightarrow> document" where
  "page_document url depth html =
     (let title = htmlExtractTitle html;
          title = (if title = [] then url else title);
          hostStart = (case str_find ''://'' url of None \<Rightarrow> 0 | Some i \<Rightarrow> i + 3)
      in empty_document\<lparr>doc_url := url, doc_title := title, doc_snippet := htmlExtractDescription html,
           doc_content := htmlStripTags html, doc_depth := depth,
           doc_source := (if find_from ''.onion'' url hostStart \<noteq> None then Onion else ClearWeb)\<rparr>)"

fun follow_links :: "(string \<Rightarrow> u64) \<Rightarrow> u32 \<Rightarrow> string list \<Rightarrow> crawler \<Rightarrow> crawler" where
  "follow_links h d [] s = s"
| "follow_links h d (l # ls) s =
     (case enqueue h s l d (sint d) of (ok, s') \<Rightarrow> if \<not> ok then s' else follow_links h d ls s')"

text \<open>What happens to a page that was fetched.\<close>

definition store_page :: "(string \<Rightarrow> u64) \<Rightarrow> string \<Rightarrow> u32 \<Rightarrow> string \<Rightarrow> 'w world \<Rightarrow> 'w world" where
  "store_page h url depth html w =
     (let doc = page_document url depth html;
          (ix, i) = addDocument (w_index w) doc;
          w = w\<lparr>w_index := ix\<rparr>;
          doc = doc\<lparr>doc_id := i\<rparr>;
          w = call_document doc w
      in if depth + 1 \<le> o_maxDepth (cr_opts (w_crawler w))
         then w\<lparr>w_crawler := follow_links h (depth + 1) (htmlExtractLinks html url) (w_crawler w)\<rparr>
         else w)"

definition process :: "(string \<Rightarrow> u64) \<Rightarrow> 'w fetcher \<Rightarrow> (nat \<Rightarrow> int) \<Rightarrow> string \<Rightarrow> u32 \<Rightarrow> 'w world \<Rightarrow> 'w world option" where
  "process h fetch clock url depth w =
     Option.bind (robots_gate fetch clock url w) (\<lambda>(w, go).
       if \<not> go then Some w
       else Option.bind (wait_for clock (domainOf url) w) (\<lambda>w.
         case fetch (w_net w) url of (res, net) \<Rightarrow>
           let w = w\<lparr>w_net := net\<rparr>
           in if \<not> fr_ok res then Some (call_error url (fr_error res) w)
              else Some (store_page h url depth (fr_html res) w)))"

lemma page_document_text:
  "doc_id (page_document url depth html) = 0" "doc_url (page_document url depth html) = url"
  "doc_snippet (page_document url depth html) = htmlExtractDescription html"
  "doc_content (page_document url depth html) = htmlStripTags html"
  by (simp_all add: page_document_def empty_document_def Let_def)

lemmas page_document_id = page_document_text(1)

section \<open>Politeness terminates and keeps the distance\<close>

lemma politenessWait_done:
  "delay \<le> clock (tm_reads t) - last_fetch t domain \<Longrightarrow>
     politenessWait clock delay domain t =
       Some (t\<lparr>tm_lastFetch := (tm_lastFetch t)(domain \<mapsto> clock (tm_reads t + 1)), tm_reads := tm_reads t + 2\<rparr>)"
  by (subst politenessWait.simps) (simp add: Let_def)

lemma politenessWait_wait:
  "\<not> delay \<le> clock (tm_reads t) - last_fetch t domain \<Longrightarrow>
     politenessWait clock delay domain t = politenessWait clock delay domain (t\<lparr>tm_reads := tm_reads t + 1\<rparr>)"
  by (subst politenessWait.simps) (simp add: Let_def)

text \<open>With readings that never decrease and are due after \<open>n\<close> more of them, the wait returns.\<close>

lemma politenessWait_returns:
  assumes "mono clock" "delay \<le> clock (tm_reads t + n) - last_fetch t domain"
  shows "\<exists>k l. politenessWait clock delay domain t =
      Some (t\<lparr>tm_lastFetch := (tm_lastFetch t)(domain \<mapsto> l), tm_reads := k\<rparr>) \<and>
    delay \<le> l - last_fetch t domain"
  using assms(2)
proof (induction n arbitrary: t)
  case 0
  moreover have "clock (tm_reads t) \<le> clock (tm_reads t + 1)" using assms(1) by (simp add: monoD)
  ultimately show ?case
    by (intro exI [of _ "tm_reads t + 2"] exI [of _ "clock (tm_reads t + 1)"]) (simp add: politenessWait_done fun_upd_def)
next
  case (Suc n)
  show ?case
  proof (cases "delay \<le> clock (tm_reads t) - last_fetch t domain")
    case True
    moreover have "clock (tm_reads t) \<le> clock (tm_reads t + 1)" using assms(1) by (simp add: monoD)
    ultimately show ?thesis
      by (intro exI [of _ "tm_reads t + 2"] exI [of _ "clock (tm_reads t + 1)"]) (simp add: politenessWait_done fun_upd_def)
  next
    case False
    from politenessWait_wait [where clock = clock and t = t, OF this] Suc.IH [of "t\<lparr>tm_reads := tm_reads t + 1\<rparr>"] Suc.prems
    show ?thesis by (simp add: last_fetch_def)
  qed
qed

definition clock_grows :: "(nat \<Rightarrow> int) \<Rightarrow> bool" where
  "clock_grows clock \<longleftrightarrow> mono clock \<and> (\<forall>b. \<exists>n. b \<le> clock n)"

lemma clock_due: "clock_grows clock \<Longrightarrow> \<exists>n. delay \<le> clock (k + n) - prev"
proof -
  assume g: "clock_grows clock"
  then obtain n where "delay + prev \<le> clock n" by (auto simp: clock_grows_def)
  moreover have "clock n \<le> clock (k + n)" using g by (auto simp: clock_grows_def intro: monoD)
  ultimately have "delay \<le> clock (k + n) - prev" by linarith
  then show ?thesis ..
qed

lemma wait_for_returns:
  assumes "clock_grows clock"
  shows "\<exists>t. wait_for clock domain w = Some (w\<lparr>w_timing := t\<rparr>)"
proof -
  obtain n where "o_domainDelay (cr_opts (w_crawler w)) * 1000000 \<le> clock (tm_reads (w_timing w) + n) -
      last_fetch (w_timing w) domain"
    using clock_due [OF assms] by blast
  from politenessWait_returns [where n = n and clock = clock and t = "w_timing w", OF _ this] assms show ?thesis
    by (fastforce simp: wait_for_def clock_grows_def)
qed

lemma wait_for_Some: "wait_for clock domain w = Some w' \<Longrightarrow> \<exists>t. w' = w\<lparr>w_timing := t\<rparr>"
  by (auto simp: wait_for_def)

section \<open>The frontier and the gate\<close>

lemma robots_gate_cases:
  assumes "robots_gate fetch clock url w = Some (w', go)"
  shows "w_crawler w' = w_crawler w \<and> w_index w' = w_index w \<and> w_onDoc w' = w_onDoc w \<and>
    (w_net w' = w_net w \<or> w_net w' = snd (loadDomain fetch url (w_robots w, w_net w))) \<and>
    (o_obeyRobots (cr_opts (w_crawler w)) \<and> \<not> isRobotsUrl url \<longrightarrow>
       go = allowed (w_robots w') url \<and> (\<not> go \<longrightarrow> w_onErr w' = map_option (\<lambda>l. l @ [(url, ''blocked by robots.txt'')]) (w_onErr w)))"
  using assms
  by (auto simp: robots_gate_def bind_eq_Some_conv call_error_def case_prod_beta split: if_splits dest!: wait_for_Some)

lemma crawl_run_Cons: "crawl_run h t tr t' \<Longrightarrow> crawl_step h s a t \<Longrightarrow> crawl_run h s (a # tr) t'"
proof (induction rule: crawl_run.induct)
  case (run_nil t)
  from crawl_run.run_snoc [OF crawl_run.run_nil this] show ?case by simp
next
  case (run_snoc t tr t' b t'')
  from crawl_run.run_snoc [OF run_snoc.IH [OF run_snoc.prems] run_snoc.hyps(2)] show ?case by simp
qed

fun enqueued :: "action \<Rightarrow> string \<times> u32 \<times> int" where
  "enqueued (Enqueue u d p ok) = (u, d, p)"
| "enqueued a = ([], 0, 0)"

lemma follow_links_run:
  "\<exists>tr n. crawl_run h s tr (follow_links h d ls s) \<and>
     map enqueued tr = map (\<lambda>l. (l, d, sint d)) (take n ls)"
proof (induction ls arbitrary: s)
  case Nil
  show ?case by (auto intro!: exI [of _ "[]"] run_nil)
next
  case (Cons l ls)
  obtain ok s' where e: "enqueue h s l d (sint d) = (ok, s')" by fastforce
  note st = step_enqueue [OF e]
  show ?case
  proof (cases ok)
    case False
    from run_snoc [OF run_nil st] have "crawl_run h s [Enqueue l d (sint d) ok] s'" by simp
    with e False show ?thesis
      by (intro exI [of _ "[Enqueue l d (sint d) ok]"] exI [of _ 1]) simp
  next
    case True
    from Cons.IH [of s'] obtain tr n where "crawl_run h s' tr (follow_links h d ls s')"
      "map enqueued tr = map (\<lambda>l. (l, d, sint d)) (take n ls)" by blast
    with e True crawl_run_Cons [OF _ st] show ?thesis
      by (intro exI [of _ "Enqueue l d (sint d) ok # tr"] exI [of _ "Suc n"]) simp
  qed
qed

lemma store_page_fields [simp]:
  "w_robots (store_page h url depth html w) = w_robots w"
  "w_net (store_page h url depth html w) = w_net w"
  "w_onErr (store_page h url depth html w) = w_onErr w"
  "w_index (store_page h url depth html w) = fst (addDocument (w_index w) (page_document url depth html))"
  by (simp_all add: store_page_def Let_def call_document_def case_prod_beta)

lemma store_page_crawler:
  "w_crawler (store_page h url depth html w) =
     (if depth + 1 \<le> o_maxDepth (cr_opts (w_crawler w))
      then follow_links h (depth + 1) (htmlExtractLinks html url) (w_crawler w) else w_crawler w)"
  by (simp add: store_page_def Let_def call_document_def case_prod_beta)

lemma call_error_fields:
  "w_crawler (call_error url msg w) = w_crawler w" "w_index (call_error url msg w) = w_index w"
  "w_robots (call_error url msg w) = w_robots w"
  by (simp_all add: call_error_def)

lemma process_go:
  assumes "robots_gate fetch clock url w = Some (w1, True)" "process h fetch clock url depth w = Some w'"
  obtains w2 where "w_robots w2 = w_robots w1" "w_crawler w2 = w_crawler w1" "w_index w2 = w_index w1"
    "(\<exists>msg. w' = call_error url msg w2) \<or>
     (\<exists>net. fr_ok (fst (fetch net url)) \<and> w' = store_page h url depth (fr_html (fst (fetch net url))) w2)"
proof -
  obtain t where t: "wait_for clock (domainOf url) w1 = Some (w1\<lparr>w_timing := t\<rparr>)"
    using assms wait_for_Some by (fastforce simp: process_def bind_eq_Some_conv)
  obtain res net where f: "fetch (w_net w1) url = (res, net)" by fastforce
  let ?w = "w1\<lparr>w_timing := t, w_net := net\<rparr>"
  have w': "w' = (if \<not> fr_ok res then call_error url (fr_error res) ?w else store_page h url depth (fr_html res) ?w)"
    using assms t f by (cases "fr_ok res") (simp_all add: process_def Let_def)
  have "(\<exists>msg. w' = call_error url msg ?w) \<or>
      (\<exists>net. fr_ok (fst (fetch net url)) \<and> w' = store_page h url depth (fr_html (fst (fetch net url))) ?w)"
  proof (cases "fr_ok res")
    case True
    then show ?thesis using w' f by (intro disjI2 exI [of _ "w_net w1"]) simp
  next
    case False
    then show ?thesis using w' by auto
  qed
  then show thesis by (rule that [of ?w, rotated 3]) simp_all
qed

lemma process_total: "clock_grows clock \<Longrightarrow> \<exists>w'. process h fetch clock url depth w = Some w'"
proof -
  assume clock: "clock_grows clock"
  have "\<exists>w' go. robots_gate fetch clock url w = Some (w', go)"
    using wait_for_returns [OF clock, of "domainOf url" w] by (auto simp: robots_gate_def)
  then obtain w' go where g: "robots_gate fetch clock url w = Some (w', go)" by blast
  obtain t where "wait_for clock (domainOf url) w' = Some (w'\<lparr>w_timing := t\<rparr>)"
    using wait_for_returns [OF clock] by blast
  with g show ?thesis by (simp add: process_def Let_def split: prod.split)
qed

section \<open>Properties\<close>

text \<open>
  C11: Under a steady clock that grows without bound, processing a page always returns: neither the
  politeness loop nor anything after it can hang, whatever the fetcher answers.
\<close>

theorem process_returns:
  assumes "clock_grows clock"
  shows "\<exists>w'. process h fetch clock url depth w = Some w'"
  using assms by (rule process_total)

abbreviation sample_world :: "nat world" where
  "sample_world \<equiv> \<lparr>w_crawler = new_crawler (\<lambda>x :: rat. x - 1) default_options, w_robots = new_robots ''bot'',
     w_index = empty_index, w_net = 0, w_timing = \<lparr>tm_reads = 0, tm_lastFetch = Map.empty\<rparr>,
     w_onDoc = Some [], w_onErr = Some []\<rparr>"

lemma clock_grows_int: "clock_grows int"
proof -
  have "b \<le> int (nat b)" for b by simp
  then show ?thesis unfolding clock_grows_def mono_def by fastforce
qed

theorem process_returns_witness:
  "\<exists>w'. process (\<lambda>x. 0) (\<lambda>n u. (stub_fetch u, n + 1)) int ''http://a/'' 0 sample_world = Some w'"
  by (rule process_returns) (rule clock_grows_int)

text \<open>
  C2: With robots compliance on, a page that the policy in force after the gate forbids is not
  fetched and not indexed, no link of it is followed, and the error callback is told so.
\<close>

theorem process_respects_robots:
  assumes "process h fetch clock url depth w = Some w'"
    and "o_obeyRobots (cr_opts (w_crawler w))" "\<not> isRobotsUrl url" "\<not> allowed (w_robots w') url"
  shows "w_index w' = w_index w \<and> w_crawler w' = w_crawler w \<and> w_onDoc w' = w_onDoc w \<and>
    (w_net w' = w_net w \<or> w_net w' = snd (loadDomain fetch url (w_robots w, w_net w))) \<and>
    w_onErr w' = map_option (\<lambda>l. l @ [(url, ''blocked by robots.txt'')]) (w_onErr w)"
proof -
  obtain w1 go where g: "robots_gate fetch clock url w = Some (w1, go)"
    using assms(1) by (auto simp: process_def bind_eq_Some_conv)
  note gate = robots_gate_cases [OF g]
  show ?thesis
  proof (cases go)
    case False
    then have "w' = w1" using g assms(1) by (simp add: process_def)
    with gate False assms(2,3) show ?thesis by simp
  next
    case True
    then have "allowed (w_robots w1) url" using gate assms(2,3) by simp
    moreover have "w_robots w' = w_robots w1"
    proof -
      have "robots_gate fetch clock url w = Some (w1, True)" using g True by simp
      from process_go [OF this assms(1)] show ?thesis by (metis call_error_fields(3) store_page_fields(1))
    qed
    ultimately show ?thesis using assms(4) by simp
  qed
qed

definition blocking_fetch :: "nat fetcher" where
  "blocking_fetch n u = (empty_result\<lparr>fr_ok := True, fr_html := ''User-agent: *'' @ nl @ ''Disallow: /''\<rparr>, n + 1)"

lemma process_blocked_example:
  assumes "process (\<lambda>x. 0) blocking_fetch int ''http://a/'' 0 sample_world = Some w'"
  shows "\<not> allowed (w_robots w') ''http://a/''"
proof -
  have "hasRules (new_robots ''bot'') ''http://a/'' = False" "isRobotsUrl ''http://a/'' = False"
    "allowed (fst (loadDomain blocking_fetch ''http://a/'' (new_robots ''bot'', 0))) ''http://a/'' = False"
    by code_simp+
  with assms show ?thesis
    by (auto simp: process_def robots_gate_def bind_eq_Some_conv new_crawler_def default_options_def
        call_error_def case_prod_beta dest!: wait_for_Some)
qed

theorem process_respects_robots_witness:
  "\<exists>w'. process (\<lambda>x. 0) blocking_fetch int ''http://a/'' 0 sample_world = Some w' \<and>
     w_index w' = empty_index \<and> w_onErr w' = Some [(''http://a/'', ''blocked by robots.txt'')]"
proof -
  obtain w' where p: "process (\<lambda>x. 0) blocking_fetch int ''http://a/'' 0 sample_world = Some w'"
    using process_total clock_grows_int by blast
  have "\<not> isRobotsUrl ''http://a/''" by code_simp
  from process_respects_robots [OF p _ this process_blocked_example [OF p]] p show ?thesis
    by (simp add: new_crawler_def default_options_def)
qed

text \<open>A page that is processed leaves the frontier and the index alone, or is the page that was fetched.\<close>

lemma process_cases:
  assumes "process h fetch clock url depth w = Some w'"
  obtains "w_index w' = w_index w" "w_crawler w' = w_crawler w"
  | net w2 where "fr_ok (fst (fetch net url))" "w' = store_page h url depth (fr_html (fst (fetch net url))) w2"
      "w_crawler w2 = w_crawler w" "w_index w2 = w_index w"
proof -
  obtain w1 go where g: "robots_gate fetch clock url w = Some (w1, go)"
    using assms(1) by (auto simp: process_def bind_eq_Some_conv)
  note gate = robots_gate_cases [OF g]
  show thesis
  proof (cases go)
    case False
    then have "w' = w1" using g assms(1) by (simp add: process_def)
    with gate that(1) show ?thesis by simp
  next
    case True
    then have "robots_gate fetch clock url w = Some (w1, True)" using g by simp
    from process_go [OF this assms(1)] obtain w2 where w2: "w_crawler w2 = w_crawler w" "w_index w2 = w_index w"
      "(\<exists>msg. w' = call_error url msg w2) \<or>
       (\<exists>net. fr_ok (fst (fetch net url)) \<and> w' = store_page h url depth (fr_html (fst (fetch net url))) w2)"
      using gate by metis
    from w2(3) show ?thesis
    proof (elim disjE exE conjE)
      fix msg assume "w' = call_error url msg w2"
      with that(1) w2 show ?thesis by (simp add: call_error_fields)
    qed (use that(2) w2 in blast)
  qed
qed

lemma store_page_run:
  "\<exists>tr n. crawl_run h (w_crawler w) tr (w_crawler (store_page h url depth html w)) \<and>
     map enqueued tr = map (\<lambda>l. (l, depth + 1, sint (depth + 1))) (take n (htmlExtractLinks html url)) \<and>
     (tr = [] \<or> depth + 1 \<le> o_maxDepth (cr_opts (w_crawler w)))"
proof (cases "depth + 1 \<le> o_maxDepth (cr_opts (w_crawler w))")
  case True
  with follow_links_run [of h "w_crawler w" "depth + 1" "htmlExtractLinks html url"] show ?thesis
    by (auto simp: store_page_crawler)
next
  case False
  then show ?thesis by (intro exI [of _ "[]"] exI [of _ 0]) (simp add: store_page_crawler run_nil)
qed

text \<open>
  Whatever happens to a page, its processing acts on the frontier only by enqueueing: nothing
  changes at all, or the page was fetched, the frontier took a run of enqueue steps for a prefix of the links of the
  fetched page, one level deeper and within the depth limit, and the index changed by nothing else than
  adding this page's document.
\<close>

theorem process_refines_frontier:
  assumes "process h fetch clock url depth w = Some w'"
  shows "w_index w' = w_index w \<and> w_crawler w' = w_crawler w \<or>
    (\<exists>net html tr n. fr_ok (fst (fetch net url)) \<and> html = fr_html (fst (fetch net url)) \<and>
      crawl_run h (w_crawler w) tr (w_crawler w') \<and>
      map enqueued tr = map (\<lambda>l. (l, depth + 1, sint (depth + 1))) (take n (htmlExtractLinks html url)) \<and>
      (tr = [] \<or> depth + 1 \<le> o_maxDepth (cr_opts (w_crawler w))) \<and>
      w_index w' = fst (addDocument (w_index w) (page_document url depth html)))"
  using assms
proof (cases rule: process_cases)
  case (2 net w2)
  from store_page_run [of h w2 url depth "fr_html (fst (fetch net url))"] obtain tr n where
    "crawl_run h (w_crawler w) tr (w_crawler w')"
    "map enqueued tr = map (\<lambda>l. (l, depth + 1, sint (depth + 1))) (take n (htmlExtractLinks (fr_html (fst (fetch net url))) url))"
    "tr = [] \<or> depth + 1 \<le> o_maxDepth (cr_opts (w_crawler w))"
    unfolding 2(3) 2(2) [symmetric] by blast
  moreover have "w_index w' = fst (addDocument (w_index w) (page_document url depth (fr_html (fst (fetch net url)))))"
    by (simp only: 2(2,4) store_page_fields)
  ultimately show ?thesis using 2(1) by blast
qed simp

end
