(* ===== verification/Crawl_System.thy ===== *)
theory Crawl_System
  imports Process
begin

text \<open>
  The crawler as its threads run it. \<open>Process\<close> has the processing of a page as one function; here
  the same code is cut at every lock, fetch and clock reading into phases, a worker stands in one of
  them, and a step of the system is one phase of one worker, a worker taking or finishing an item, or
  a client. The theory proves that one worker left alone computes \<open>process\<close>, that the frontier of the
  system is the one of \<open>Crawler\<close>, and what holds under every interleaving: no page is fetched or
  indexed twice, none against the policy, and the index is what the fetched pages make it. The
  politeness gap holds for one worker and is shown to fail for two.
\<close>

section \<open>Phases of a page\<close>

text \<open>The flag of the politeness phases tells the wait before \<open>loadDomain\<close> from the one before the page.\<close>

datatype phase =
    At_Wait
  | At_Gate
  | At_Pace bool
  | At_Due bool int
  | At_Claim bool
  | At_Load
  | At_Ask
  | At_Keep domain_rules
  | At_Judge
  | At_Fetch
  | At_Fail string
  | At_Store string
  | At_Report document string
  | At_Links "string list"
  | At_Done

text \<open>What a step does, with the worker that does it; a passed check keeps the policy it was made under.\<close>

datatype event =
    Frontier action
  | Quiet nat
  | Turn nat string int
  | Asks nat string
  | Passes nat string robots
  | Fetches nat string fetch_result
  | Indexes nat document
  | Follows nat string string u32 bool

definition read_clock :: "(nat \<Rightarrow> int) \<Rightarrow> 'w world \<Rightarrow> int \<times> 'w world" where
  "read_clock clock w =
     (clock (tm_reads (w_timing w)), w\<lparr>w_timing := (w_timing w)\<lparr>tm_reads := tm_reads (w_timing w) + 1\<rparr>\<rparr>)"

definition page_gap :: "'w world \<Rightarrow> int" where
  "page_gap w = o_domainDelay (cr_opts (w_crawler w)) * 1000000"

definition governed :: "crawl_options \<Rightarrow> string \<Rightarrow> bool" where
  "governed opts url \<longleftrightarrow> o_obeyRobots opts \<and> \<not> isRobotsUrl url"

definition origin_loaded :: "robots \<Rightarrow> string \<Rightarrow> bool" where
  "origin_loaded rb url \<longleftrightarrow> list_ex (\<lambda>(p, r). p = originOf url \<and> dr_loaded r) (rb_domains rb)"

fun page_step :: "(string \<Rightarrow> u64) \<Rightarrow> 'w fetcher \<Rightarrow> (nat \<Rightarrow> int) \<Rightarrow> nat \<Rightarrow> string \<Rightarrow> u32 \<Rightarrow>
    phase \<Rightarrow> 'w world \<Rightarrow> event \<times> phase \<times> 'w world" where
  "page_step h fetch clock i url depth At_Gate w =
     (Quiet i,
      if governed (cr_opts (w_crawler w)) url
      then (if \<not> hasRules (w_robots w) url then At_Pace True else At_Judge)
      else At_Pace False, w)"
| "page_step h fetch clock i url depth (At_Pace robots) w =
     (Quiet i, At_Due robots (last_fetch (w_timing w) (domainOf url)), w)"
| "page_step h fetch clock i url depth (At_Due robots prev) w =
     (case read_clock clock w of (now, w) \<Rightarrow>
        (Quiet i, if page_gap w - (now - prev) \<le> 0 then At_Claim robots else At_Pace robots, w))"
| "page_step h fetch clock i url depth (At_Claim robots) w =
     (case read_clock clock w of (now, w) \<Rightarrow>
        (Turn i (domainOf url) now, if robots then At_Load else At_Fetch,
         w\<lparr>w_timing := (w_timing w)\<lparr>tm_lastFetch := (tm_lastFetch (w_timing w))(domainOf url \<mapsto> now)\<rparr>\<rparr>))"
| "page_step h fetch clock i url depth At_Load w =
     (Quiet i, if originOf url = [] \<or> origin_loaded (w_robots w) url then At_Judge else At_Ask, w)"
| "page_step h fetch clock i url depth At_Ask w =
     (case fetch (w_net w) (originOf url @ ''/robots.txt'') of (res, net) \<Rightarrow>
        (Asks i (originOf url), At_Keep (fetched_rules (rb_ua (w_robots w)) res), w\<lparr>w_net := net\<rparr>))"
| "page_step h fetch clock i url depth (At_Keep rules) w =
     (Quiet i, At_Judge,
      w\<lparr>w_robots := (w_robots w)\<lparr>rb_domains := store_rules (originOf url) rules (rb_domains (w_robots w))\<rparr>\<rparr>)"
| "page_step h fetch clock i url depth At_Judge w =
     (if \<not> allowed (w_robots w) url then (Quiet i, At_Fail ''blocked by robots.txt'', w)
      else (Passes i url (w_robots w), At_Pace False, w))"
| "page_step h fetch clock i url depth At_Fetch w =
     (case fetch (w_net w) url of (res, net) \<Rightarrow>
        (Fetches i url res, if \<not> fr_ok res then At_Fail (fr_error res) else At_Store (fr_html res), w\<lparr>w_net := net\<rparr>))"
| "page_step h fetch clock i url depth (At_Fail msg) w = (Quiet i, At_Done, call_error url msg w)"
| "page_step h fetch clock i url depth (At_Store html) w =
     (let doc = page_document url depth html
      in case addDocument (w_index w) doc of (ix, n) \<Rightarrow>
           (Indexes i doc, At_Report (doc\<lparr>doc_id := n\<rparr>) html, w\<lparr>w_index := ix\<rparr>))"
| "page_step h fetch clock i url depth (At_Report doc html) w =
     (Quiet i, if depth + 1 \<le> o_maxDepth (cr_opts (w_crawler w)) then At_Links (htmlExtractLinks html url) else At_Done,
      call_document doc w)"
| "page_step h fetch clock i url depth (At_Links []) w = (Quiet i, At_Done, w)"
| "page_step h fetch clock i url depth (At_Links (l # ls)) w =
     (case enqueue h (w_crawler w) l (depth + 1) (sint (depth + 1)) of (ok, c) \<Rightarrow>
        (Follows i url l (depth + 1) ok, if \<not> ok then At_Done else At_Links ls, w\<lparr>w_crawler := c\<rparr>))"
| "page_step h fetch clock i url depth At_Wait w = (Quiet i, At_Wait, w)"
| "page_step h fetch clock i url depth At_Done w = (Quiet i, At_Done, w)"

section \<open>The system\<close>

record 'w system =
  sy_world :: "'w world"
  sy_phase :: "nat \<Rightarrow> phase"

text \<open>Steps of the frontier that are not part of processing an item.\<close>

fun outside_page :: "action \<Rightarrow> bool" where
  "outside_page (Take i it) = False"
| "outside_page (Finish i it) = False"
| "outside_page a = True"

definition set_crawler :: "crawler \<Rightarrow> 'w system \<Rightarrow> 'w system" where
  "set_crawler c s = s\<lparr>sy_world := (sy_world s)\<lparr>w_crawler := c\<rparr>\<rparr>"

definition set_phase :: "nat \<Rightarrow> phase \<Rightarrow> 'w system \<Rightarrow> 'w system" where
  "set_phase i ph s = s\<lparr>sy_phase := (sy_phase s)(i := ph)\<rparr>"

abbreviation sy_crawler :: "'w system \<Rightarrow> crawler" where
  "sy_crawler s \<equiv> w_crawler (sy_world s)"

inductive sys_step :: "(string \<Rightarrow> u64) \<Rightarrow> 'w fetcher \<Rightarrow> (nat \<Rightarrow> int) \<Rightarrow> 'w system \<Rightarrow> event \<Rightarrow> 'w system \<Rightarrow> bool"
  for h fetch clock where
  sys_outside: "crawl_step h (sy_crawler s) a c \<Longrightarrow> outside_page a \<Longrightarrow>
    sys_step h fetch clock s (Frontier a) (set_crawler c s)"
| sys_take: "crawl_step h (sy_crawler s) (Take i it) c \<Longrightarrow>
    sys_step h fetch clock s (Frontier (Take i it)) (set_phase i At_Gate (set_crawler c s))"
| sys_page: "i < length (cr_workers (sy_crawler s)) \<Longrightarrow> cr_workers (sy_crawler s) ! i = Busy it \<Longrightarrow>
    sy_phase s i \<noteq> At_Done \<Longrightarrow>
    page_step h fetch clock i (it_url it) (it_depth it) (sy_phase s i) (sy_world s) = (e, ph, w) \<Longrightarrow>
    sys_step h fetch clock s e (set_phase i ph (s\<lparr>sy_world := w\<rparr>))"
| sys_finish: "crawl_step h (sy_crawler s) (Finish i it) c \<Longrightarrow> sy_phase s i = At_Done \<Longrightarrow>
    sys_step h fetch clock s (Frontier (Finish i it)) (set_phase i At_Wait (set_crawler c s))"

inductive_cases sys_stepE: "sys_step h fetch clock s e s'"

inductive sys_run :: "(string \<Rightarrow> u64) \<Rightarrow> 'w fetcher \<Rightarrow> (nat \<Rightarrow> int) \<Rightarrow> 'w system \<Rightarrow> event list \<Rightarrow> 'w system \<Rightarrow> bool"
  for h fetch clock where
  sys_nil: "sys_run h fetch clock s [] s"
| sys_snoc: "sys_run h fetch clock s es s' \<Longrightarrow> sys_step h fetch clock s' e s'' \<Longrightarrow>
    sys_run h fetch clock s (es @ [e]) s''"

text \<open>A crawler just constructed, on an empty index.\<close>

definition fresh_world :: "('d::floor_ceiling \<Rightarrow> 'd) \<Rightarrow> crawl_options \<Rightarrow> 'w \<Rightarrow> 'w world" where
  "fresh_world lg opts net =
     \<lparr>w_crawler = new_crawler lg opts, w_robots = new_robots (o_userAgent opts), w_index = empty_index, w_net = net,
      w_timing = \<lparr>tm_reads = 0, tm_lastFetch = Map.empty\<rparr>, w_onDoc = None, w_onErr = None\<rparr>"

definition start_system :: "'w world \<Rightarrow> 'w system" where
  "start_system w = \<lparr>sy_world = w, sy_phase = (\<lambda>i. At_Wait)\<rparr>"

section \<open>One worker alone computes \<open>process\<close>\<close>

text \<open>What is left of processing a page in each phase, in terms of the functions of \<open>Process\<close>.\<close>

definition fetch_then :: "(string \<Rightarrow> u64) \<Rightarrow> 'w fetcher \<Rightarrow> string \<Rightarrow> u32 \<Rightarrow> 'w world \<Rightarrow> 'w world option" where
  "fetch_then h fetch url depth w =
     (case fetch (w_net w) url of (res, net) \<Rightarrow>
        if \<not> fr_ok res then Some (call_error url (fr_error res) (w\<lparr>w_net := net\<rparr>))
        else Some (store_page h url depth (fr_html res) (w\<lparr>w_net := net\<rparr>)))"

definition judge_then :: "(string \<Rightarrow> u64) \<Rightarrow> 'w fetcher \<Rightarrow> (nat \<Rightarrow> int) \<Rightarrow> string \<Rightarrow> u32 \<Rightarrow> 'w world \<Rightarrow> 'w world option" where
  "judge_then h fetch clock url depth w =
     (if \<not> allowed (w_robots w) url then Some (call_error url ''blocked by robots.txt'' w)
      else Option.bind (wait_for clock (domainOf url) w) (fetch_then h fetch url depth))"

definition load_then :: "(string \<Rightarrow> u64) \<Rightarrow> 'w fetcher \<Rightarrow> (nat \<Rightarrow> int) \<Rightarrow> string \<Rightarrow> u32 \<Rightarrow> 'w world \<Rightarrow> 'w world option" where
  "load_then h fetch clock url depth w =
     (case loadDomain fetch url (w_robots w, w_net w) of
        (rb, net) \<Rightarrow> judge_then h fetch clock url depth (w\<lparr>w_robots := rb, w_net := net\<rparr>))"

definition turn_then :: "(string \<Rightarrow> u64) \<Rightarrow> 'w fetcher \<Rightarrow> (nat \<Rightarrow> int) \<Rightarrow> string \<Rightarrow> u32 \<Rightarrow> bool \<Rightarrow> 'w world \<Rightarrow> 'w world option" where
  "turn_then h fetch clock url depth robots =
     (if robots then load_then h fetch clock url depth else fetch_then h fetch url depth)"

definition record_turn :: "(nat \<Rightarrow> int) \<Rightarrow> string \<Rightarrow> 'w world \<Rightarrow> 'w world" where
  "record_turn clock url w =
     w\<lparr>w_timing := (w_timing w)\<lparr>tm_reads := tm_reads (w_timing w) + 1,
         tm_lastFetch := (tm_lastFetch (w_timing w))(domainOf url \<mapsto> clock (tm_reads (w_timing w)))\<rparr>\<rparr>"

fun resume :: "(string \<Rightarrow> u64) \<Rightarrow> 'w fetcher \<Rightarrow> (nat \<Rightarrow> int) \<Rightarrow> string \<Rightarrow> u32 \<Rightarrow> phase \<Rightarrow> 'w world \<Rightarrow> 'w world option" where
  "resume h fetch clock url depth At_Gate w = process h fetch clock url depth w"
| "resume h fetch clock url depth (At_Pace r) w =
     Option.bind (wait_for clock (domainOf url) w) (turn_then h fetch clock url depth r)"
| "resume h fetch clock url depth (At_Due r prev) w =
     (case read_clock clock w of (now, w) \<Rightarrow>
        if page_gap w - (now - prev) \<le> 0 then turn_then h fetch clock url depth r (record_turn clock url w)
        else Option.bind (wait_for clock (domainOf url) w) (turn_then h fetch clock url depth r))"
| "resume h fetch clock url depth (At_Claim r) w = turn_then h fetch clock url depth r (record_turn clock url w)"
| "resume h fetch clock url depth At_Load w = load_then h fetch clock url depth w"
| "resume h fetch clock url depth At_Ask w =
     (case fetch (w_net w) (originOf url @ ''/robots.txt'') of (res, net) \<Rightarrow>
        judge_then h fetch clock url depth (w\<lparr>w_robots := (w_robots w)\<lparr>rb_domains :=
          store_rules (originOf url) (fetched_rules (rb_ua (w_robots w)) res) (rb_domains (w_robots w))\<rparr>, w_net := net\<rparr>))"
| "resume h fetch clock url depth (At_Keep rules) w =
     judge_then h fetch clock url depth
       (w\<lparr>w_robots := (w_robots w)\<lparr>rb_domains := store_rules (originOf url) rules (rb_domains (w_robots w))\<rparr>\<rparr>)"
| "resume h fetch clock url depth At_Judge w = judge_then h fetch clock url depth w"
| "resume h fetch clock url depth At_Fetch w = fetch_then h fetch url depth w"
| "resume h fetch clock url depth (At_Fail msg) w = Some (call_error url msg w)"
| "resume h fetch clock url depth (At_Store html) w = Some (store_page h url depth html w)"
| "resume h fetch clock url depth (At_Report doc html) w =
     Some (if depth + 1 \<le> o_maxDepth (cr_opts (w_crawler w))
       then call_document doc (w\<lparr>w_crawler := follow_links h (depth + 1) (htmlExtractLinks html url) (w_crawler w)\<rparr>)
       else call_document doc w)"
| "resume h fetch clock url depth (At_Links ls) w =
     Some (w\<lparr>w_crawler := follow_links h (depth + 1) ls (w_crawler w)\<rparr>)"
| "resume h fetch clock url depth At_Done w = Some w"
| "resume h fetch clock url depth At_Wait w = Some w"

lemma wait_for_turn:
  "page_gap w - (fst (read_clock clock w) - last_fetch (w_timing w) (domainOf url)) \<le> 0 \<Longrightarrow>
     wait_for clock (domainOf url) w = Some (record_turn clock url (snd (read_clock clock w)))"
  by (simp add: wait_for_def page_gap_def read_clock_def record_turn_def politenessWait_done)

lemma wait_for_again:
  "\<not> page_gap w - (fst (read_clock clock w) - last_fetch (w_timing w) (domainOf url)) \<le> 0 \<Longrightarrow>
     wait_for clock (domainOf url) w = wait_for clock (domainOf url) (snd (read_clock clock w))"
  by (simp add: wait_for_def page_gap_def read_clock_def politenessWait_wait option.map_comp comp_def)

lemma read_clock_gap: "page_gap (snd (read_clock clock w)) = page_gap w"
  by (simp add: read_clock_def page_gap_def)

lemma load_then_eq:
  "load_then h fetch clock url depth w =
     (if originOf url = [] \<or> origin_loaded (w_robots w) url then judge_then h fetch clock url depth w
      else case fetch (w_net w) (originOf url @ ''/robots.txt'') of (res, net) \<Rightarrow>
        judge_then h fetch clock url depth (w\<lparr>w_robots := (w_robots w)\<lparr>rb_domains :=
          store_rules (originOf url) (fetched_rules (rb_ua (w_robots w)) res) (rb_domains (w_robots w))\<rparr>, w_net := net\<rparr>))"
  by (simp add: load_then_def loadDomain_def Let_def origin_loaded_def fetched_rules_def split: prod.split)

lemma process_resumes:
  "process h fetch clock url depth w =
     (if governed (cr_opts (w_crawler w)) url
      then if \<not> hasRules (w_robots w) url
           then Option.bind (wait_for clock (domainOf url) w) (turn_then h fetch clock url depth True)
           else judge_then h fetch clock url depth w
      else Option.bind (wait_for clock (domainOf url) w) (turn_then h fetch clock url depth False))"
proof -
  have step: "Option.bind (if \<not> allowed (w_robots w) url then Some (call_error url ''blocked by robots.txt'' w, False) else Some (w, True))
      (\<lambda>(w, go). if \<not> go then Some w else Option.bind (wait_for clock (domainOf url) w) (\<lambda>w.
         case fetch (w_net w) url of (res, net) \<Rightarrow> let w = w\<lparr>w_net := net\<rparr>
           in if \<not> fr_ok res then Some (call_error url (fr_error res) w)
              else Some (store_page h url depth (fr_html res) w))) = judge_then h fetch clock url depth w" for w
    by (simp add: judge_then_def fetch_then_def [abs_def] Let_def)
  show ?thesis
    unfolding process_def robots_gate_def governed_def
    by (cases "wait_for clock (domainOf url) w")
      (simp_all add: step turn_then_def load_then_def fetch_then_def [abs_def] Let_def case_prod_beta)
qed

lemma net_robots: "w\<lparr>w_net := n, w_robots := r\<rparr> = w\<lparr>w_robots := r, w_net := n\<rparr>"
  by simp

lemma resume_step:
  assumes "page_step h fetch clock i url depth ph w = (e, ph', w')"
  shows "resume h fetch clock url depth ph' w' = resume h fetch clock url depth ph w"
proof (cases ph)
  case At_Gate
  with assms show ?thesis by (auto simp: process_resumes split: if_splits)
next
  case (At_Pace r)
  then have e: "ph' = At_Due r (last_fetch (w_timing w) (domainOf url))" "w' = w" using assms by auto
  show ?thesis
    using wait_for_turn [of w clock url] wait_for_again [of w clock url]
    by (simp add: At_Pace e case_prod_beta read_clock_gap)
next
  case (At_Due r prev)
  with assms show ?thesis by (auto simp: case_prod_beta split: if_splits)
next
  case (At_Claim r)
  with assms show ?thesis by (auto simp: turn_then_def record_turn_def read_clock_def split: if_splits)
next
  case At_Load
  with assms show ?thesis by (auto simp: load_then_eq split: if_splits prod.splits)
next
  case At_Judge
  with assms show ?thesis by (auto simp: judge_then_def turn_then_def split: if_splits)
next
  case At_Fetch
  with assms show ?thesis by (auto simp: fetch_then_def split: if_splits prod.splits)
next
  case (At_Store html)
  with assms show ?thesis
    by (auto simp: store_page_def call_document_def Let_def case_prod_beta)
next
  case (At_Report doc html)
  with assms show ?thesis by (auto simp: call_document_def)
next
  case (At_Links ls)
  with assms show ?thesis by (cases ls) (auto split: if_splits prod.splits)
next
  case At_Ask
  with assms show ?thesis by (auto simp: net_robots split: prod.splits)
qed (use assms in auto)

text \<open>Some number of steps of one worker.\<close>

fun page_iter :: "(string \<Rightarrow> u64) \<Rightarrow> 'w fetcher \<Rightarrow> (nat \<Rightarrow> int) \<Rightarrow> string \<Rightarrow> u32 \<Rightarrow> nat \<Rightarrow> phase \<times> 'w world \<Rightarrow> phase \<times> 'w world" where
  "page_iter h fetch clock url depth 0 pw = pw"
| "page_iter h fetch clock url depth (Suc n) pw =
     page_iter h fetch clock url depth n (snd (page_step h fetch clock 0 url depth (fst pw) (snd pw)))"

lemma resume_iter:
  "resume h fetch clock url depth (fst (page_iter h fetch clock url depth n pw)) (snd (page_iter h fetch clock url depth n pw)) =
     resume h fetch clock url depth (fst pw) (snd pw)"
proof (induction n arbitrary: pw)
  case (Suc n)
  obtain e ph w where "page_step h fetch clock 0 url depth (fst pw) (snd pw) = (e, ph, w)" by (metis prod_cases3)
  with Suc.IH [of "(ph, w)"] resume_step [OF this] show ?case by simp
qed simp

definition ends :: "(string \<Rightarrow> u64) \<Rightarrow> 'w fetcher \<Rightarrow> (nat \<Rightarrow> int) \<Rightarrow> string \<Rightarrow> u32 \<Rightarrow> phase \<Rightarrow> 'w world \<Rightarrow> bool" where
  "ends h fetch clock url depth ph w \<longleftrightarrow> (\<exists>n. fst (page_iter h fetch clock url depth n (ph, w)) = At_Done)"

lemma ends_Done: "ends h fetch clock url depth At_Done w"
  unfolding ends_def by (rule exI [of _ 0]) simp

lemma ends_step:
  "page_step h fetch clock 0 url depth ph w = (e, ph', w') \<Longrightarrow> ends h fetch clock url depth ph' w' \<Longrightarrow>
     ends h fetch clock url depth ph w"
  unfolding ends_def by (elim exE, rule_tac x = "Suc n" in exI) simp

lemma ends_Links: "ends h fetch clock url depth (At_Links ls) w"
proof (induction ls arbitrary: w)
  case Nil
  show ?case by (rule ends_step [OF _ ends_Done]) simp
next
  case (Cons l ls)
  obtain ok c where e: "enqueue h (w_crawler w) l (depth + 1) (sint (depth + 1)) = (ok, c)" by fastforce
  show ?case
    by (rule ends_step [where ph' = "if \<not> ok then At_Done else At_Links ls" and w' = "w\<lparr>w_crawler := c\<rparr>"])
      (simp_all add: e Cons.IH ends_Done)
qed

lemma ends_Report: "ends h fetch clock url depth (At_Report doc html) w"
  by (rule ends_step [OF page_step.simps(12)]) (simp add: ends_Links ends_Done)

lemma ends_Store: "ends h fetch clock url depth (At_Store html) w"
proof -
  obtain ix n where "addDocument (w_index w) (page_document url depth html) = (ix, n)" by fastforce
  then show ?thesis by (intro ends_step [OF _ ends_Report]) (simp add: Let_def)
qed

lemma ends_Fail: "ends h fetch clock url depth (At_Fail msg) w"
  by (rule ends_step [OF page_step.simps(10) ends_Done])

lemma ends_Fetch: "ends h fetch clock url depth At_Fetch w"
proof -
  obtain res net where f: "fetch (w_net w) url = (res, net)" by fastforce
  show ?thesis
    by (rule ends_step [where ph' = "if \<not> fr_ok res then At_Fail (fr_error res) else At_Store (fr_html res)" and w' = "w\<lparr>w_net := net\<rparr>"])
      (simp_all add: f ends_Fail ends_Store)
qed

text \<open>A wait that returns finds the gap over after finitely many readings.\<close>

lemma politenessWait_due:
  "politenessWait clock delay domain t = Some t' \<Longrightarrow> \<exists>n. delay \<le> clock (tm_reads t + n) - last_fetch t domain"
proof (rule politenessWait.raw_induct
    [where P = "\<lambda>clock delay domain t t'. \<exists>n. delay \<le> clock (tm_reads t + n) - last_fetch t domain"], goal_cases)
  case (1 f clock delay domain t t')
  show ?case
  proof (cases "delay \<le> clock (tm_reads t) - last_fetch t domain")
    case True
    then show ?thesis by (intro exI [of _ 0]) simp
  next
    case False
    then have "f clock delay domain (t\<lparr>tm_reads := tm_reads t + 1\<rparr>) = Some t'" using 1(3) by (simp add: Let_def)
    from 1(2) [OF this] obtain n where "delay \<le> clock (tm_reads t + 1 + n) - last_fetch t domain"
      by (auto simp: last_fetch_def)
    then show ?thesis by (intro exI [of _ "Suc n"]) simp
  qed
qed

definition turn_due :: "(nat \<Rightarrow> int) \<Rightarrow> string \<Rightarrow> 'w world \<Rightarrow> bool" where
  "turn_due clock url w \<longleftrightarrow>
     page_gap w - (fst (read_clock clock w) - last_fetch (w_timing w) (domainOf url)) \<le> 0"

lemma ends_Pace_step:
  assumes "ends h fetch clock url depth (if turn_due clock url w then At_Claim r else At_Pace r) (snd (read_clock clock w))"
  shows "ends h fetch clock url depth (At_Pace r) w"
proof (rule ends_step [OF page_step.simps(2)], rule ends_step [OF _ assms])
  show "page_step h fetch clock 0 url depth (At_Due r (last_fetch (w_timing w) (domainOf url))) w =
      (Quiet 0, if turn_due clock url w then At_Claim r else At_Pace r, snd (read_clock clock w))"
    by (simp only: page_step.simps case_prod_beta read_clock_gap turn_due_def)
qed

lemma resume_Pace_step:
  "resume h fetch clock url depth (At_Pace r) w =
     resume h fetch clock url depth (if turn_due clock url w then At_Claim r else At_Pace r) (snd (read_clock clock w))"
  using wait_for_turn [of w clock url] wait_for_again [of w clock url] by (simp add: turn_due_def)

lemma ends_Pace_due:
  assumes claim: "\<And>w. resume h fetch clock url depth (At_Claim r) w \<noteq> None \<Longrightarrow> ends h fetch clock url depth (At_Claim r) w"
    and "page_gap w \<le> clock (tm_reads (w_timing w) + n) - last_fetch (w_timing w) (domainOf url)"
    and "resume h fetch clock url depth (At_Pace r) w \<noteq> None"
  shows "ends h fetch clock url depth (At_Pace r) w"
  using assms(2,3)
proof (induction n arbitrary: w)
  case 0
  then have due: "turn_due clock url w" by (simp add: turn_due_def read_clock_def)
  with 0(2) have "resume h fetch clock url depth (At_Claim r) (snd (read_clock clock w)) \<noteq> None"
    by (simp only: resume_Pace_step if_True simp_thms)
  from claim [OF this] due show ?case by (intro ends_Pace_step) simp
next
  case (Suc n)
  let ?w = "snd (read_clock clock w)"
  have w: "page_gap ?w \<le> clock (tm_reads (w_timing ?w) + n) - last_fetch (w_timing ?w) (domainOf url)"
    using Suc.prems(1) by (simp add: read_clock_def page_gap_def last_fetch_def)
  note r = Suc.prems(2) [unfolded resume_Pace_step [of _ _ _ _ _ _ w]]
  show ?case
  proof (cases "turn_due clock url w")
    case True
    with r have "resume h fetch clock url depth (At_Claim r) ?w \<noteq> None" by (simp only: if_True simp_thms)
    from claim [OF this] True show ?thesis by (intro ends_Pace_step) simp
  next
    case False
    with r have "resume h fetch clock url depth (At_Pace r) ?w \<noteq> None" by (simp only: if_False simp_thms)
    from Suc.IH [OF w this] False show ?thesis by (intro ends_Pace_step) simp
  qed
qed

lemma ends_Pace:
  assumes "\<And>w. resume h fetch clock url depth (At_Claim r) w \<noteq> None \<Longrightarrow> ends h fetch clock url depth (At_Claim r) w"
    and "resume h fetch clock url depth (At_Pace r) w \<noteq> None"
  shows "ends h fetch clock url depth (At_Pace r) w"
proof -
  obtain t where "politenessWait clock (page_gap w) (domainOf url) (w_timing w) = Some t"
    using assms(2) by (auto simp: wait_for_def page_gap_def bind_eq_None_conv)
  from politenessWait_due [OF this] obtain n where
    "page_gap w \<le> clock (tm_reads (w_timing w) + n) - last_fetch (w_timing w) (domainOf url)" ..
  from ends_Pace_due [OF assms(1) this assms(2)] show ?thesis .
qed

lemma ends_Pace_page:
  "resume h fetch clock url depth (At_Pace False) w \<noteq> None \<Longrightarrow> ends h fetch clock url depth (At_Pace False) w"
  by (rule ends_Pace) (rule ends_step [OF _ ends_Fetch], simp add: case_prod_beta)

lemma ends_Judge:
  assumes "resume h fetch clock url depth At_Judge w \<noteq> None"
  shows "ends h fetch clock url depth At_Judge w"
proof (cases "allowed (w_robots w) url")
  case True
  then have "resume h fetch clock url depth (At_Pace False) w \<noteq> None"
    using assms by (simp add: judge_then_def turn_then_def)
  from ends_step [OF _ ends_Pace_page [OF this]] show ?thesis using True by simp
next
  case False
  show ?thesis by (rule ends_step [OF _ ends_Fail]) (simp add: False)
qed

lemma ends_Claim:
  assumes "resume h fetch clock url depth (At_Claim True) w \<noteq> None"
  shows "ends h fetch clock url depth (At_Claim True) w"
proof -
  have fwd: "ends h fetch clock url depth ph w"
    if "page_step h fetch clock 0 url depth ph w = (e, ph', w')" "resume h fetch clock url depth ph w \<noteq> None"
      "resume h fetch clock url depth ph' w' \<noteq> None \<Longrightarrow> ends h fetch clock url depth ph' w'" for e ph ph' w w'
    using ends_step [OF that(1)] that(2,3) resume_step [OF that(1)] by simp
  have load: "ends h fetch clock url depth At_Load w" if "resume h fetch clock url depth At_Load w \<noteq> None" for w
  proof (cases "originOf url = [] \<or> origin_loaded (w_robots w) url")
    case True
    then show ?thesis by (intro fwd [OF _ that ends_Judge]) auto
  next
    case False
    obtain res net where f: "fetch (w_net w) (originOf url @ ''/robots.txt'') = (res, net)" by fastforce
    have keep: "ends h fetch clock url depth (At_Keep rules) w'" if "resume h fetch clock url depth (At_Keep rules) w' \<noteq> None" for rules w'
      by (rule fwd [OF page_step.simps(7) that ends_Judge])
    have "ends h fetch clock url depth At_Ask w'" if "resume h fetch clock url depth At_Ask w' \<noteq> None" "w' = w" for w'
      by (rule fwd [OF _ that(1) keep]) (auto simp: that(2) f)
    then show ?thesis using False by (intro fwd [OF _ that]) auto
  qed
  show ?thesis
    by (rule fwd [OF _ assms load]) (auto simp: read_clock_def)
qed

lemma ends_Gate:
  assumes "resume h fetch clock url depth At_Gate w \<noteq> None"
  shows "ends h fetch clock url depth At_Gate w"
proof (cases "governed (cr_opts (w_crawler w)) url")
  case False
  then have "resume h fetch clock url depth (At_Pace False) w \<noteq> None" using assms by (simp add: process_resumes)
  from ends_step [OF _ ends_Pace_page [OF this]] show ?thesis using False by simp
next
  case True
  show ?thesis
  proof (cases "hasRules (w_robots w) url")
    case False
    then have "resume h fetch clock url depth (At_Pace True) w \<noteq> None"
      using assms True by (simp add: process_resumes)
    from ends_step [OF _ ends_Pace [OF ends_Claim this]] show ?thesis using False True by simp
  next
    case rules: True
    then have "resume h fetch clock url depth At_Judge w \<noteq> None" using assms True by (simp add: process_resumes)
    from ends_step [OF _ ends_Judge [OF this]] show ?thesis using rules True by simp
  qed
qed

text \<open>
  C6: The phases are a faithful cut of the code's page processing: a worker that is left alone from
  the moment it took an item reaches the end of its turn exactly when \<open>process\<close> returns, and then in
  exactly the world \<open>process\<close> returns.
\<close>

theorem worker_runs_process:
  "process h fetch clock url depth w = Some w' \<longleftrightarrow>
     (\<exists>n. page_iter h fetch clock url depth n (At_Gate, w) = (At_Done, w'))"
proof
  assume p: "process h fetch clock url depth w = Some w'"
  then obtain n where n: "fst (page_iter h fetch clock url depth n (At_Gate, w)) = At_Done"
    using ends_Gate [of h fetch clock url depth w] by (auto simp: ends_def)
  with resume_iter [of h fetch clock url depth n "(At_Gate, w)"] p
  have "snd (page_iter h fetch clock url depth n (At_Gate, w)) = w'" by simp
  with n show "\<exists>n. page_iter h fetch clock url depth n (At_Gate, w) = (At_Done, w')" by (metis prod.collapse)
next
  assume "\<exists>n. page_iter h fetch clock url depth n (At_Gate, w) = (At_Done, w')"
  then obtain n where "page_iter h fetch clock url depth n (At_Gate, w) = (At_Done, w')" ..
  with resume_iter [of h fetch clock url depth n "(At_Gate, w)"] show "process h fetch clock url depth w = Some w'" by simp
qed

section \<open>The frontier of the system\<close>

text \<open>The frontier actions of a trace, and what else it tells.\<close>

fun action_of :: "event \<Rightarrow> action list" where
  "action_of (Frontier a) = [a]"
| "action_of (Follows i page link depth ok) = [Enqueue link depth (sint depth) ok]"
| "action_of e = []"

fun fetch_of :: "event \<Rightarrow> string list" where
  "fetch_of (Fetches i url res) = [url]"
| "fetch_of e = []"

fun document_of :: "event \<Rightarrow> document list" where
  "document_of (Indexes i doc) = [doc]"
| "document_of e = []"

definition actions :: "event list \<Rightarrow> action list" where
  "actions es = concat (map action_of es)"

definition fetched :: "event list \<Rightarrow> string list" where
  "fetched es = concat (map fetch_of es)"

definition indexed_docs :: "event list \<Rightarrow> document list" where
  "indexed_docs es = concat (map document_of es)"

lemma trace_of_snoc [simp]:
  "actions (es @ [e]) = actions es @ action_of e" "fetched (es @ [e]) = fetched es @ fetch_of e"
  "indexed_docs (es @ [e]) = indexed_docs es @ document_of e"
  by (simp_all add: actions_def fetched_def indexed_docs_def)

lemma trace_of_Nil [simp]: "actions [] = []" "fetched [] = []" "indexed_docs [] = []"
  by (simp_all add: actions_def fetched_def indexed_docs_def)

lemma system_simps [simp]:
  "sy_world (set_phase i ph s) = sy_world s" "sy_phase (set_crawler c s) = sy_phase s"
  "sy_phase (set_phase i ph s) = (sy_phase s)(i := ph)" "sy_world (set_crawler c s) = (sy_world s)\<lparr>w_crawler := c\<rparr>"
  by (simp_all add: set_phase_def set_crawler_def)

lemma page_step_frontier:
  assumes "page_step h fetch clock i url depth ph w = (e, ph', w')"
  shows "action_of e = [] \<and> w_crawler w' = w_crawler w \<or>
    (\<exists>l ok. action_of e = [Enqueue l (depth + 1) (sint (depth + 1)) ok] \<and>
       enqueue h (w_crawler w) l (depth + 1) (sint (depth + 1)) = (ok, w_crawler w'))"
proof (cases ph)
  case (At_Links ls)
  with assms show ?thesis by (cases ls) (auto split: prod.splits)
qed (use assms in \<open>auto simp: read_clock_def call_error_def call_document_def Let_def split: if_splits prod.splits\<close>)

lemma crawl_run_append: "crawl_run h s' tr' s'' \<Longrightarrow> crawl_run h s tr s' \<Longrightarrow> crawl_run h s (tr @ tr') s''"
proof (induction rule: crawl_run.induct)
  case (run_snoc s' tr' t a t')
  from crawl_run.run_snoc [OF run_snoc.IH [OF run_snoc.prems] run_snoc.hyps(2)] show ?case by simp
qed simp

lemma crawl_run_one: "crawl_step h s a s' \<Longrightarrow> crawl_run h s [a] s'"
  using crawl_run.run_snoc [OF crawl_run.run_nil] by fastforce

lemma sys_step_frontier: "sys_step h fetch clock s e s' \<Longrightarrow> crawl_run h (sy_crawler s) (action_of e) (sy_crawler s')"
proof (erule sys_stepE, goal_cases)
  case (3 i it ph w)
  have s': "sy_crawler s' = w_crawler w" using 3(1) by simp
  from page_step_frontier [OF 3(5)] show ?case
  proof (elim disjE exE conjE)
    fix l ok
    assume "action_of e = [Enqueue l (it_depth it + 1) (sint (it_depth it + 1)) ok]"
      "enqueue h (sy_crawler s) l (it_depth it + 1) (sint (it_depth it + 1)) = (ok, w_crawler w)"
    then show ?thesis unfolding s' using crawl_run_one [OF step_enqueue] by metis
  qed (simp add: s' run_nil)
qed (auto intro: crawl_run_one)

text \<open>The frontier part of every run of the system is a run of the frontier.\<close>

lemma sys_run_frontier: "sys_run h fetch clock s es s' \<Longrightarrow> crawl_run h (sy_crawler s) (actions es) (sy_crawler s')"
  by (induction rule: sys_run.induct) (auto intro: run_nil crawl_run_append sys_step_frontier)

lemma sys_run_inv:
  assumes "sys_run h fetch clock (start_system (fresh_world lg opts net)) es s" "o_maxPages opts < 2 ^ 64"
  shows "crawl_inv h (actions es) (sy_crawler s)" "cr_opts (sy_crawler s) = opts"
proof -
  have "crawl_run h (new_crawler lg opts) (actions es) (sy_crawler s)"
    using sys_run_frontier [OF assms(1)] by (simp add: start_system_def fresh_world_def)
  from crawl_run_inv [OF this refl assms(2)] show "crawl_inv h (actions es) (sy_crawler s)" "cr_opts (sy_crawler s) = opts"
    by simp_all
qed

section \<open>Items in flight\<close>

definition held_by :: "worker list \<Rightarrow> nat \<Rightarrow> item option" where
  "held_by ws i = (if i < length ws then (case ws ! i of Busy it \<Rightarrow> Some it | _ \<Rightarrow> None) else None)"

definition held :: "crawler \<Rightarrow> nat \<Rightarrow> item option" where
  "held c = held_by (cr_workers c)"

fun held_after :: "action \<Rightarrow> (nat \<Rightarrow> item option) \<Rightarrow> nat \<Rightarrow> item option" where
  "held_after (Take i it) f = f(i \<mapsto> it)"
| "held_after (Finish i it) f = f(i := None)"
| "held_after a f = f"

lemma held_by_append: "held_by (ws @ replicate n Idle) = held_by ws"
  by (auto simp: held_by_def fun_eq_iff nth_append)

lemma held_by_update:
  "i < length ws \<Longrightarrow> held_by (ws[i := w]) = (held_by ws)(i := (case w of Busy it \<Rightarrow> Some it | _ \<Rightarrow> None))"
  by (auto simp: held_by_def fun_eq_iff nth_list_update)

lemma held_enqueue: "held (snd (enqueue h c url depth prio)) = held c"
  by (simp add: enqueue_def Let_def held_def held_by_append)

lemma held_Some: "held c i = Some it \<longleftrightarrow> i < length (cr_workers c) \<and> cr_workers c ! i = Busy it"
  by (auto simp: held_def held_by_def split: worker.splits)

text \<open>Every step of the frontier changes the items in flight as its action says.\<close>

lemma crawl_step_held:
  assumes "crawl_step h c a c'"
  shows "held c' = held_after a (held c) \<and>
    (case a of Take i it \<Rightarrow> held c i = None | Finish i it \<Rightarrow> held c i = Some it | _ \<Rightarrow> True)"
  using assms
proof cases
  case (step_enqueue url depth prio ok)
  then show ?thesis using held_enqueue [of h c url depth prio] by simp
next
  case (step_take i)
  then show ?thesis by (simp add: take_item_def Let_def held_def held_by_update) (simp add: held_by_def)
next
  case (step_finish i it)
  then show ?thesis by (simp add: finish_item_def held_def held_by_update) (simp add: held_by_def)
next
  case (step_exit i)
  then show ?thesis by (auto simp: held_def held_by_update) (simp add: held_by_def fun_eq_iff)
next
  case step_join
  have "held_by (cr_workers c) i = None" for i
  proof (cases "i < length (cr_workers c)")
    case True
    then have "cr_workers c ! i = Exited" using step_join(4) nth_mem by blast
    then show ?thesis by (simp add: held_by_def)
  qed (simp add: held_by_def)
  then show ?thesis using step_join by (simp add: join_workers_def held_def fun_eq_iff) (simp add: held_by_def)
qed (simp_all add: request_stop_def held_def)

text \<open>A worker holds an item exactly while it is processing, only accepted items are held, and each by one worker.\<close>

definition held_inv :: "event list \<Rightarrow> 'w system \<Rightarrow> bool" where
  "held_inv es s \<longleftrightarrow>
     (\<forall>i. held (sy_crawler s) i = None \<longleftrightarrow> sy_phase s i = At_Wait) \<and>
     (\<forall>i it. held (sy_crawler s) i = Some it \<longrightarrow> it_url it \<in> set (taken (actions es))) \<and>
     (\<forall>i j it jt. held (sy_crawler s) i = Some it \<longrightarrow> held (sy_crawler s) j = Some jt \<longrightarrow>
        it_url it = it_url jt \<longrightarrow> i = j)"

lemma page_step_held:
  assumes "page_step h fetch clock i url depth ph w = (e, ph', w')"
  shows "held (w_crawler w') = held (w_crawler w)" "taken (actions es @ action_of e) = taken (actions es)"
  using page_step_frontier [OF assms] held_enqueue by (auto simp: trace_snoc) (metis snd_conv)

lemma page_step_busy: "page_step h fetch clock i url depth ph w = (e, ph', w') \<Longrightarrow> ph \<noteq> At_Wait \<Longrightarrow> ph' \<noteq> At_Wait"
  by (cases "(h, fetch, clock, i, url, depth, ph, w)" rule: page_step.cases)
    (auto simp: Let_def split: if_splits prod.splits)

lemma outside_held: "crawl_step h c a c' \<Longrightarrow> outside_page a \<Longrightarrow> held c' = held c"
  by (drule crawl_step_held) (cases a; simp)

lemma outside_taken: "outside_page a \<Longrightarrow> taken (tr @ [a]) = taken tr"
  by (cases a) (simp_all add: trace_snoc)

text \<open>The four kinds of steps, with what each does to the items in flight.\<close>

lemma sys_step_cases:
  assumes "sys_step h fetch clock s e s'" "crawl_inv h (actions (es @ [e])) (sy_crawler s')" "held_inv es s"
  obtains (outside) "held (sy_crawler s') = held (sy_crawler s)" "taken (actions (es @ [e])) = taken (actions es)"
      "sy_phase s' = sy_phase s" "\<exists>a c. e = Frontier a \<and> sy_world s' = (sy_world s)\<lparr>w_crawler := c\<rparr>"
  | (takes) i it c where "held (sy_crawler s') = (held (sy_crawler s))(i \<mapsto> it)" "held (sy_crawler s) i = None"
      "taken (actions (es @ [e])) = taken (actions es) @ [it_url it]" "it_url it \<notin> set (taken (actions es))"
      "sy_phase s' = (sy_phase s)(i := At_Gate)" "e = Frontier (Take i it)" "sy_world s' = (sy_world s)\<lparr>w_crawler := c\<rparr>"
  | (page) i it ph w where "held (sy_crawler s') = held (sy_crawler s)" "held (sy_crawler s) i = Some it"
      "taken (actions (es @ [e])) = taken (actions es)" "sy_phase s i \<noteq> At_Wait" "ph \<noteq> At_Wait"
      "page_step h fetch clock i (it_url it) (it_depth it) (sy_phase s i) (sy_world s) = (e, ph, w)"
      "sy_phase s' = (sy_phase s)(i := ph)" "sy_world s' = w"
  | (finish) i it c where "held (sy_crawler s') = (held (sy_crawler s))(i := None)" "held (sy_crawler s) i = Some it"
      "taken (actions (es @ [e])) = taken (actions es)" "sy_phase s' = (sy_phase s)(i := At_Wait)"
      "e = Frontier (Finish i it)" "sy_world s' = (sy_world s)\<lparr>w_crawler := c\<rparr>"
  using assms(1)
proof cases
  case (sys_outside a c)
  show thesis by (rule outside) (use sys_outside outside_held outside_taken in auto)
next
  case (sys_take i it c)
  have "distinct (taken (actions (es @ [e])))" using assms(2) by (simp add: crawl_inv_def)
  moreover have t: "taken (actions (es @ [e])) = taken (actions es) @ [it_url it]" using sys_take by (simp add: trace_snoc)
  ultimately have "it_url it \<notin> set (taken (actions es))" by simp
  with t show thesis using sys_take crawl_step_held [OF sys_take(3)] by (intro takes [of i it c]) simp_all
next
  case (sys_page i it ph w)
  have hi: "held (sy_crawler s) i = Some it" using sys_page by (simp add: held_Some)
  then have ph: "sy_phase s i \<noteq> At_Wait" using assms(3) by (metis held_inv_def option.distinct(1))
  show thesis
    using sys_page hi ph page_step_held [OF sys_page(5)] page_step_busy [OF sys_page(5) ph] by (intro page [of i it ph w]) simp_all
next
  case (sys_finish i it c)
  then show thesis using crawl_step_held [OF sys_finish(3)] by (intro finish [of i it c]) (simp_all add: trace_snoc)
qed

lemma held_inv_step:
  assumes "sys_step h fetch clock s e s'" "crawl_inv h (actions (es @ [e])) (sy_crawler s')" "held_inv es s"
  shows "held_inv (es @ [e]) s'"
  using assms
proof (cases rule: sys_step_cases)
  case outside
  then show ?thesis using assms(3) by (simp add: held_inv_def)
next
  case (takes i it)
  have "\<forall>j jt. held (sy_crawler s) j = Some jt \<longrightarrow> it_url jt \<noteq> it_url it"
    using takes(4) assms(3) unfolding held_inv_def by metis
  with takes(1-3,5) assms(3) show ?thesis by (auto simp: held_inv_def dest: sym [of "it_url it"])
next
  case (page i it ph w)
  then show ?thesis using assms(3) by (auto simp: held_inv_def)
next
  case (finish i it)
  then show ?thesis using assms(3) by (auto simp: held_inv_def)
qed

section \<open>Nothing happens twice\<close>

text \<open>
  A kind of event a page gives rise to at most once: \<open>pending\<close> holds of the phases before it, and a
  step that marks the page leaves them. Two kinds are marked: the fetch of a page and its indexing.
\<close>

locale page_marker =
  fixes h :: "string \<Rightarrow> u64" and fetch :: "'w fetcher" and clock :: "nat \<Rightarrow> int"
    and pending :: "phase \<Rightarrow> bool" and mark :: "event \<Rightarrow> string list"
  assumes mark_step: "page_step h fetch clock i url depth ph w = (e, ph', w') \<Longrightarrow> ph \<noteq> At_Wait \<Longrightarrow>
      mark e = [] \<and> (pending ph' \<longrightarrow> pending ph) \<or> mark e = [url] \<and> pending ph \<and> \<not> pending ph'"
    and mark_frontier: "mark (Frontier a) = []"
    and pending_wait: "\<not> pending At_Wait"
begin

definition marked :: "event list \<Rightarrow> string list" where
  "marked es = concat (map mark es)"

definition once :: "event list \<Rightarrow> 'w system \<Rightarrow> bool" where
  "once es s \<longleftrightarrow> distinct (marked es) \<and> set (marked es) \<subseteq> set (taken (actions es)) \<and>
     (\<forall>i it. held (sy_crawler s) i = Some it \<longrightarrow> pending (sy_phase s i) \<longrightarrow> it_url it \<notin> set (marked es))"

lemma marked_snoc: "marked (es @ [e]) = marked es @ mark e"
  by (simp add: marked_def)

lemma once_step:
  assumes "sys_step h fetch clock s e s'" "crawl_inv h (actions (es @ [e])) (sy_crawler s')" "held_inv es s" "once es s"
  shows "once (es @ [e]) s'"
  using assms(1-3)
proof (cases rule: sys_step_cases)
  case outside
  then show ?thesis using assms(4) mark_frontier by (auto simp: once_def marked_snoc)
next
  case (takes i it)
  have "it_url it \<notin> set (marked es)" using takes(4) assms(4) by (auto simp: once_def)
  with takes assms(4) show ?thesis by (auto simp: once_def marked_snoc mark_frontier simp del: trace_of_snoc)
next
  case (page i it ph w)
  have other: "it_url jt \<noteq> it_url it" if "held (sy_crawler s) j = Some jt" "j \<noteq> i" for j jt
    using assms(3) page(2) that unfolding held_inv_def by metis
  from mark_step [OF page(6,4)] show ?thesis
  proof (elim disjE conjE)
    assume "mark e = []" "pending ph \<longrightarrow> pending (sy_phase s i)"
    with page assms(4) show ?thesis by (auto simp: once_def marked_snoc simp del: trace_of_snoc)
  next
    assume m: "mark e = [it_url it]" "pending (sy_phase s i)" "\<not> pending ph"
    have new: "it_url it \<notin> set (marked es)" "it_url it \<in> set (taken (actions es))"
      using page(2) m(2) assms(3,4) by (auto simp: once_def held_inv_def)
    have "it_url jt \<notin> set (marked (es @ [e]))"
      if "held (sy_crawler s') j = Some jt" "pending (sy_phase s' j)" for j jt
    proof -
      have j: "held (sy_crawler s) j = Some jt" "j \<noteq> i" "pending (sy_phase s j)"
        using that m(3) page(1,7) by (auto split: if_splits)
      with other assms(4) m(1) show ?thesis by (auto simp: once_def marked_snoc)
    qed
    with new m(1) page(3) assms(4) show ?thesis by (auto simp: once_def marked_snoc simp del: trace_of_snoc)
  qed
next
  case (finish i it)
  then show ?thesis using assms(4) pending_wait
    by (auto simp: once_def marked_snoc mark_frontier simp del: trace_of_snoc split: if_splits)
qed

lemma once_start: "once [] (start_system w)"
  by (simp add: once_def marked_def pending_wait start_system_def)

end

fun unfetched :: "phase \<Rightarrow> bool" where
  "unfetched At_Wait = False"
| "unfetched (At_Fail msg) = False"
| "unfetched (At_Store html) = False"
| "unfetched (At_Report doc html) = False"
| "unfetched (At_Links ls) = False"
| "unfetched At_Done = False"
| "unfetched ph = True"

fun unindexed :: "phase \<Rightarrow> bool" where
  "unindexed (At_Store html) = True"
| "unindexed ph = unfetched ph"

interpretation fetching: page_marker h fetch clock unfetched fetch_of for h fetch clock
proof
  show "fetch_of e = [] \<and> (unfetched ph' \<longrightarrow> unfetched ph) \<or> fetch_of e = [url] \<and> unfetched ph \<and> \<not> unfetched ph'"
    if "page_step h fetch clock i url depth ph w = (e, ph', w')" "ph \<noteq> At_Wait" for i url depth ph w e ph' w'
    using that by (cases "(h, fetch, clock, i, url, depth, ph, w)" rule: page_step.cases)
      (auto simp: Let_def split: if_splits prod.splits)
qed simp_all

interpretation indexing: page_marker h fetch clock unindexed "\<lambda>e. map doc_url (document_of e)" for h fetch clock
proof
  show "map doc_url (document_of e) = [] \<and> (unindexed ph' \<longrightarrow> unindexed ph) \<or>
      map doc_url (document_of e) = [url] \<and> unindexed ph \<and> \<not> unindexed ph'"
    if "page_step h fetch clock i url depth ph w = (e, ph', w')" "ph \<noteq> At_Wait" for i url depth ph w e ph' w'
    using that by (cases "(h, fetch, clock, i, url, depth, ph, w)" rule: page_step.cases)
      (auto simp: Let_def page_document_def split: if_splits prod.splits)
qed simp_all

section \<open>Every event has its reason\<close>

definition passed :: "event list \<Rightarrow> string \<Rightarrow> bool" where
  "passed es url \<longleftrightarrow> (\<exists>i rb. Passes i url rb \<in> set es)"

definition got :: "event list \<Rightarrow> string \<Rightarrow> string \<Rightarrow> bool" where
  "got es url html \<longleftrightarrow> (\<exists>i res. Fetches i url res \<in> set es \<and> fr_ok res \<and> fr_html res = html)"

definition policy_known :: "robots \<Rightarrow> string \<Rightarrow> bool" where
  "policy_known rb url \<longleftrightarrow> originOf url = [] \<or> origin_loaded rb url"

text \<open>What the trace must hold before a worker may stand in a phase.\<close>

fun phase_ok :: "crawl_options \<Rightarrow> robots \<Rightarrow> event list \<Rightarrow> string \<Rightarrow> u32 \<Rightarrow> phase \<Rightarrow> bool" where
  "phase_ok opts rb es url depth (At_Pace r) = (r \<or> \<not> governed opts url \<or> passed es url)"
| "phase_ok opts rb es url depth (At_Due r prev) = (r \<or> \<not> governed opts url \<or> passed es url)"
| "phase_ok opts rb es url depth (At_Claim r) = (r \<or> \<not> governed opts url \<or> passed es url)"
| "phase_ok opts rb es url depth At_Fetch = (\<not> governed opts url \<or> passed es url)"
| "phase_ok opts rb es url depth (At_Keep rules) = dr_loaded rules"
| "phase_ok opts rb es url depth At_Judge = policy_known rb url"
| "phase_ok opts rb es url depth (At_Store html) = got es url html"
| "phase_ok opts rb es url depth (At_Report doc html) = got es url html"
| "phase_ok opts rb es url depth (At_Links ls) =
     (depth + 1 \<le> o_maxDepth opts \<and> (\<exists>html. got es url html \<and> set ls \<subseteq> set (htmlExtractLinks html url)))"
| "phase_ok opts rb es url depth ph = True"

text \<open>What a trace must hold for an event in it.\<close>

fun event_ok :: "'w fetcher \<Rightarrow> crawl_options \<Rightarrow> event list \<Rightarrow> event \<Rightarrow> bool" where
  "event_ok fetch opts es (Passes i url rb) = (allowed rb url \<and> policy_known rb url)"
| "event_ok fetch opts es (Fetches i url res) =
     ((\<exists>net. res = fst (fetch net url)) \<and> (\<not> governed opts url \<or> passed es url))"
| "event_ok fetch opts es (Indexes i doc) =
     (\<exists>depth html. got es (doc_url doc) html \<and> doc = page_document (doc_url doc) depth html)"
| "event_ok fetch opts es (Follows i page link depth ok) =
     (depth \<le> o_maxDepth opts \<and> (\<exists>html. got es page html \<and> link \<in> set (htmlExtractLinks html page)))"
| "event_ok fetch opts es e = True"

lemma passed_mono: "passed es url \<Longrightarrow> passed (es @ es') url"
  by (auto simp: passed_def)

lemma passed_new: "passed (es @ [Passes i url rb]) url"
  by (auto simp: passed_def)

lemma got_mono: "got es url html \<Longrightarrow> got (es @ es') url html"
  by (auto simp: got_def)

lemma got_new: "fr_ok res \<Longrightarrow> got (es @ [Fetches i url res]) url (fr_html res)"
  by (auto simp: got_def)

lemma event_ok_mono: "event_ok fetch opts es e \<Longrightarrow> event_ok fetch opts (es @ es') e"
  by (cases e) (auto intro: passed_mono got_mono)

definition robots_grow :: "robots \<Rightarrow> robots \<Rightarrow> bool" where
  "robots_grow rb rb' \<longleftrightarrow> (\<forall>url. origin_loaded rb url \<longrightarrow> origin_loaded rb' url)"

lemma phase_ok_mono:
  "phase_ok opts rb es url depth ph \<Longrightarrow> robots_grow rb rb' \<Longrightarrow> phase_ok opts rb' (es @ es') url depth ph"
  by (cases ph) (auto simp: policy_known_def robots_grow_def intro: passed_mono got_mono)

lemma loaded_store: "list_ex (\<lambda>(p, r). p = o' \<and> dr_loaded r) ds \<Longrightarrow> dr_loaded rules \<Longrightarrow>
    list_ex (\<lambda>(p, r). p = o' \<and> dr_loaded r) (store_rules og rules ds)"
  by (induction og rules ds rule: store_rules.induct) auto

lemma stored_loaded: "dr_loaded rules \<Longrightarrow> list_ex (\<lambda>(p, r). p = og \<and> dr_loaded r) (store_rules og rules ds)"
  by (induction og rules ds rule: store_rules.induct) auto

lemma hasRules_loaded: "hasRules rb url \<Longrightarrow> origin_loaded rb url"
  by (auto simp: hasRules_def origin_loaded_def list_ex_iff dest: map_of_SomeD split: option.splits)

lemma page_step_robots:
  assumes "page_step h fetch clock i url depth ph w = (e, ph', w')" "phase_ok opts rb es url depth ph"
  shows "robots_grow (w_robots w) (w_robots w')"
proof (cases ph)
  case (At_Keep rules)
  then show ?thesis using assms loaded_store by (auto simp: robots_grow_def origin_loaded_def)
next
  case (At_Links ls)
  then show ?thesis using assms(1) by (cases ls) (auto simp: robots_grow_def split: prod.splits)
qed (use assms(1) in \<open>auto simp: robots_grow_def read_clock_def call_error_def call_document_def Let_def split: if_splits prod.splits\<close>)

lemma page_step_ok:
  assumes "page_step h fetch clock i url depth ph w = (e, ph', w')"
    and "phase_ok (cr_opts (w_crawler w)) (w_robots w) es url depth ph"
  shows "phase_ok (cr_opts (w_crawler w)) (w_robots w') (es @ [e]) url depth ph' \<and>
    event_ok fetch (cr_opts (w_crawler w)) (es @ [e]) e"
proof (cases ph)
  case At_Gate
  then show ?thesis using assms(1) hasRules_loaded by (auto simp: policy_known_def)
next
  case (At_Pace r)
  then show ?thesis using assms passed_mono [of es url] by auto
next
  case (At_Due r prev)
  then show ?thesis using assms passed_mono [of es url] by (auto simp: read_clock_def)
next
  case (At_Claim r)
  then show ?thesis using assms passed_mono [of es url] by (auto simp: read_clock_def)
next
  case At_Load
  then show ?thesis using assms(1) by (auto simp: policy_known_def)
next
  case At_Ask
  then show ?thesis using assms(1) by (auto simp: fetched_rules_wf split: prod.splits)
next
  case (At_Keep rules)
  then show ?thesis using assms stored_loaded by (auto simp: policy_known_def origin_loaded_def)
next
  case At_Judge
  then show ?thesis using assms by (auto simp: passed_new split: if_splits)
next
  case At_Fetch
  obtain res net where f: "fetch (w_net w) url = (res, net)" by fastforce
  have "\<exists>net. res = fst (fetch net url)" using f by (metis fst_conv)
  then show ?thesis using At_Fetch f assms passed_mono [of es url] by (auto simp: got_new)
next
  case (At_Store html)
  then have g: "got (es @ [e]) url html" using assms(2) got_mono [of es url] by simp
  obtain ix n where a: "addDocument (w_index w) (page_document url depth html) = (ix, n)" by fastforce
  have e: "e = Indexes i (page_document url depth html)" "ph' = At_Report (page_document url depth html\<lparr>doc_id := n\<rparr>) html"
    using At_Store assms(1) a by (simp_all add: Let_def)
  have u: "doc_url (page_document url depth html) = url" by (simp add: page_document_def Let_def)
  have "event_ok fetch (cr_opts (w_crawler w)) (es @ [e]) (Indexes i (page_document url depth html))"
    unfolding event_ok.simps u using g by blast
  with g e show ?thesis by simp
next
  case (At_Report doc html)
  then have "got (es @ [e]) url html" using assms(2) got_mono [of es url] by simp
  then have "phase_ok (cr_opts (w_crawler w)) (w_robots w') (es @ [e]) url depth (At_Links (htmlExtractLinks html url))"
    if "depth + 1 \<le> o_maxDepth (cr_opts (w_crawler w))"
    using that unfolding phase_ok.simps by blast
  then show ?thesis using At_Report assms(1) by auto
next
  case (At_Links ls)
  show ?thesis
  proof (cases ls)
    case Nil
    then show ?thesis using At_Links assms(1) by auto
  next
    case (Cons l ls')
    obtain ok c where q: "enqueue h (w_crawler w) l (depth + 1) (sint (depth + 1)) = (ok, c)" by fastforce
    obtain html where g: "got (es @ [e]) url html" "set ls \<subseteq> set (htmlExtractLinks html url)"
      using At_Links assms(2) got_mono [of es url] by auto
    have d: "depth + 1 \<le> o_maxDepth (cr_opts (w_crawler w))" using At_Links assms(2) by simp
    have "phase_ok (cr_opts (w_crawler w)) (w_robots w') (es @ [e]) url depth (At_Links ls')"
      "event_ok fetch (cr_opts (w_crawler w)) (es @ [e]) (Follows i url l (depth + 1) ok)"
      using g d Cons unfolding phase_ok.simps event_ok.simps by auto
    with At_Links Cons q assms(1) show ?thesis by (cases ok) (simp_all del: phase_ok.simps(9) event_ok.simps(4))
  qed
qed (use assms(1) in auto)

definition reasons :: "'w fetcher \<Rightarrow> crawl_options \<Rightarrow> event list \<Rightarrow> 'w system \<Rightarrow> bool" where
  "reasons fetch opts es s \<longleftrightarrow>
     (\<forall>i it. held (sy_crawler s) i = Some it \<longrightarrow>
        phase_ok opts (w_robots (sy_world s)) es (it_url it) (it_depth it) (sy_phase s i)) \<and>
     (\<forall>e\<in>set es. event_ok fetch opts es e)"

lemma reasonsI:
  assumes "reasons fetch opts es s" "event_ok fetch opts (es @ [e]) e"
    and "robots_grow (w_robots (sy_world s)) (w_robots (sy_world s'))"
    and "\<And>j jt. held (sy_crawler s') j = Some jt \<Longrightarrow>
       held (sy_crawler s) j = Some jt \<and> sy_phase s' j = sy_phase s j \<or>
       phase_ok opts (w_robots (sy_world s')) (es @ [e]) (it_url jt) (it_depth jt) (sy_phase s' j)"
  shows "reasons fetch opts (es @ [e]) s'"
proof -
  have "phase_ok opts (w_robots (sy_world s')) (es @ [e]) (it_url jt) (it_depth jt) (sy_phase s' j)"
    if "held (sy_crawler s') j = Some jt" for j jt
    using assms(4) [OF that] assms(1) phase_ok_mono [OF _ assms(3)] by (metis reasons_def)
  moreover have "\<forall>x\<in>set (es @ [e]). event_ok fetch opts (es @ [e]) x"
    using assms(1,2) by (auto simp: reasons_def intro: event_ok_mono)
  ultimately show ?thesis by (simp add: reasons_def)
qed

lemma robots_grow_refl: "robots_grow rb rb"
  by (simp add: robots_grow_def)

lemma reasons_step:
  assumes "sys_step h fetch clock s e s'" "crawl_inv h (actions (es @ [e])) (sy_crawler s')" "held_inv es s"
    and "reasons fetch (cr_opts (sy_crawler s)) es s"
  shows "reasons fetch (cr_opts (sy_crawler s)) (es @ [e]) s'"
  using assms(1-3)
proof (cases rule: sys_step_cases)
  case outside
  then show ?thesis by (intro reasonsI [OF assms(4)]) (auto simp: robots_grow_refl)
next
  case (takes i it)
  then show ?thesis by (intro reasonsI [OF assms(4)]) (auto simp: robots_grow_refl split: if_splits)
next
  case (page i it ph w)
  have ok: "phase_ok (cr_opts (sy_crawler s)) (w_robots (sy_world s)) es (it_url it) (it_depth it) (sy_phase s i)"
    using assms(4) page(2) by (simp add: reasons_def)
  note step = page_step_ok [OF page(6) ok] page_step_robots [OF page(6) ok]
  show ?thesis
    using step page by (intro reasonsI [OF assms(4)]) (auto split: if_splits)
next
  case (finish i it)
  then show ?thesis by (intro reasonsI [OF assms(4)]) (auto simp: robots_grow_refl split: if_splits)
qed

section \<open>Every run\<close>

definition index_of :: "document list \<Rightarrow> inverted_index" where
  "index_of ds = fold (\<lambda>d ix. fst (addDocument ix d)) ds empty_index"

lemma page_step_index:
  "page_step h fetch clock i url depth ph w = (e, ph', w') \<Longrightarrow>
     w_index w' = fold (\<lambda>d ix. fst (addDocument ix d)) (document_of e) (w_index w)"
  by (cases "(h, fetch, clock, i, url, depth, ph, w)" rule: page_step.cases)
    (auto simp: read_clock_def call_error_def call_document_def Let_def split: if_splits prod.splits)

lemma sys_step_index:
  assumes "sys_step h fetch clock s e s'" "w_index (sy_world s) = index_of (indexed_docs es)"
  shows "w_index (sy_world s') = index_of (indexed_docs (es @ [e]))"
  using assms(1)
proof cases
  case (sys_page i it ph w)
  then show ?thesis using page_step_index [OF sys_page(5)] assms(2) by (simp add: index_of_def)
qed (use assms(2) in simp_all)

definition sys_inv :: "'w fetcher \<Rightarrow> crawl_options \<Rightarrow> event list \<Rightarrow> 'w system \<Rightarrow> bool" where
  "sys_inv fetch opts es s \<longleftrightarrow> held_inv es s \<and> fetching.once es s \<and> indexing.once es s \<and>
     reasons fetch opts es s \<and> w_index (sy_world s) = index_of (indexed_docs es)"

lemma sys_inv_start: "sys_inv fetch opts [] (start_system (fresh_world lg opts net))"
proof -
  have "held (sy_crawler (start_system (fresh_world lg opts net))) = Map.empty"
    by (simp add: start_system_def fresh_world_def new_crawler_def held_def held_by_def fun_eq_iff)
  moreover have "sy_phase (start_system (fresh_world lg opts net)) = (\<lambda>i. At_Wait)"
    "w_index (sy_world (start_system (fresh_world lg opts net))) = empty_index"
    by (simp_all add: start_system_def fresh_world_def)
  ultimately show ?thesis
    using fetching.once_start [of "fresh_world lg opts net"] indexing.once_start [of "fresh_world lg opts net"]
    by (simp add: sys_inv_def held_inv_def reasons_def index_of_def)
qed

lemma sys_run_sys_inv:
  assumes "sys_run h fetch clock s0 es s" "s0 = start_system (fresh_world lg opts net)" "o_maxPages opts < 2 ^ 64"
  shows "sys_inv fetch opts es s"
  using assms
proof (induction rule: sys_run.induct)
  case sys_nil
  then show ?case using sys_inv_start by simp
next
  case (sys_snoc s0 es s e s')
  then have I: "sys_inv fetch opts es s" by simp
  have run: "sys_run h fetch clock (start_system (fresh_world lg opts net)) es s" using sys_snoc by simp
  note opts = sys_run_inv(2) [OF run sys_snoc.prems(2)]
  note c = sys_run_inv(1) [OF sys_run.sys_snoc [OF run sys_snoc.hyps(2)] sys_snoc.prems(2)]
  have H: "held_inv es s" using I by (simp add: sys_inv_def)
  show ?case
    using I held_inv_step [OF sys_snoc.hyps(2) c H] fetching.once_step [OF sys_snoc.hyps(2) c H]
      indexing.once_step [OF sys_snoc.hyps(2) c H] reasons_step [OF sys_snoc.hyps(2) c H, unfolded opts]
      sys_step_index [OF sys_snoc.hyps(2)]
    by (simp add: sys_inv_def)
qed

lemma marked_traces: "fetching.marked es = fetched es" "indexing.marked es = map doc_url (indexed_docs es)"
  by (simp_all add: fetching.marked_def fetched_def indexing.marked_def indexed_docs_def map_concat comp_def)

lemma taken_accepted:
  assumes "crawl_inv h tr c"
  shows "set (taken tr) \<subseteq> cr_seen c" "length (taken tr) \<le> o_maxPages (cr_opts c)"
  using assms by (auto simp: crawl_inv_def)

text \<open>
  C3: Whatever the interleaving of workers and clients, no page is fetched twice, only accepted URLs are
  fetched and no more than the page cap allows; each page that is governed by robots.txt was passed
  before by a check under a policy that was loaded for its origin and allows it; and a link that was followed
  was found on a page that was fetched and stays within the depth limit.
\<close>

theorem crawl_fetches:
  assumes "sys_run h fetch clock (start_system (fresh_world lg opts net)) es s" "o_maxPages opts < 2 ^ 64"
  shows "distinct (fetched es) \<and> set (fetched es) \<subseteq> cr_seen (sy_crawler s) \<and> length (fetched es) \<le> o_maxPages opts \<and>
    (\<forall>url\<in>set (fetched es). governed opts url \<longrightarrow>
       (\<exists>i rb. Passes i url rb \<in> set es \<and> allowed rb url \<and> (originOf url = [] \<or> origin_loaded rb url))) \<and>
    (\<forall>i page link depth ok. Follows i page link depth ok \<in> set es \<longrightarrow> depth \<le> o_maxDepth opts \<and>
       (\<exists>html. got es page html \<and> link \<in> set (htmlExtractLinks html page)))"
proof -
  note I = sys_run_sys_inv [OF assms(1) refl assms(2)] and c = sys_run_inv [OF assms]
  have once: "distinct (fetched es)" "set (fetched es) \<subseteq> set (taken (actions es))"
    using I unfolding sys_inv_def fetching.once_def marked_traces by simp_all
  have "length (fetched es) = card (set (fetched es))" using once(1) by (simp add: distinct_card)
  also have "\<dots> \<le> card (set (taken (actions es)))" using once(2) by (simp add: card_mono)
  also have "\<dots> \<le> o_maxPages opts" using taken_accepted(2) [OF c(1)] card_length order_trans c(2) by metis
  finally have len: "length (fetched es) \<le> o_maxPages opts" .
  have ok: "\<forall>e\<in>set es. event_ok fetch opts es e" using I by (simp add: sys_inv_def reasons_def)
  have pass: "\<exists>i rb. Passes i url rb \<in> set es \<and> allowed rb url \<and> (originOf url = [] \<or> origin_loaded rb url)"
    if "url \<in> set (fetched es)" "governed opts url" for url
  proof -
    from that(1) obtain e where e: "e \<in> set es" "url \<in> set (fetch_of e)" by (auto simp: fetched_def)
    from e(2) obtain i res where "e = Fetches i url res" by (cases e) simp_all
    with ok e(1) that(2) obtain i rb where p: "Passes i url rb \<in> set es" by (fastforce simp: passed_def)
    with ok show ?thesis by (fastforce simp: policy_known_def)
  qed
  have follow: "depth \<le> o_maxDepth opts \<and> (\<exists>html. got es page html \<and> link \<in> set (htmlExtractLinks html page))"
    if "Follows i page link depth k \<in> set es" for i page link depth k
    using ok that by fastforce
  show ?thesis using once taken_accepted(1) [OF c(1)] len pass follow by blast
qed

lemma sys_run_index:
  assumes "sys_run h fetch clock (start_system (fresh_world lg opts net)) es s" "o_maxPages opts < 2 ^ 64 - 1"
  shows "index_inv (w_index (sy_world s))" "index_view (w_index (sy_world s)) = by_url (indexed_docs es)"
    and "distinct (map doc_url (indexed_docs es))" "length (indexed_docs es) \<le> o_maxPages opts"
    and "\<forall>doc\<in>set (indexed_docs es). \<exists>i res depth. Fetches i (doc_url doc) res \<in> set es \<and> fr_ok res \<and>
       doc = page_document (doc_url doc) depth (fr_html res)"
proof -
  have m: "o_maxPages opts < 2 ^ 64" using assms(2) by simp
  note I = sys_run_sys_inv [OF assms(1) refl m] and c = sys_run_inv [OF assms(1) m]
  have once: "distinct (map doc_url (indexed_docs es))" "set (map doc_url (indexed_docs es)) \<subseteq> set (taken (actions es))"
    using I unfolding sys_inv_def indexing.once_def marked_traces by simp_all
  then show "distinct (map doc_url (indexed_docs es))" by simp
  have "length (indexed_docs es) = card (set (map doc_url (indexed_docs es)))" using once(1) by (metis distinct_card length_map)
  also have "\<dots> \<le> card (set (taken (actions es)))" using once(2) by (simp add: card_mono)
  also have "\<dots> \<le> o_maxPages opts" using taken_accepted(2) [OF c(1)] card_length order_trans c(2) by metis
  finally show len: "length (indexed_docs es) \<le> o_maxPages opts" .
  then have "length (indexed_docs es) \<le> index_room empty_index"
    using assms(2) index_inv_clear(2) [of empty_index] by (simp add: clear_index_empty)
  from store.add_all [OF index_inv_empty this] index_inv_clear(3) [of empty_index]
  have "index_inv (index_of (indexed_docs es))" "index_view (index_of (indexed_docs es)) = by_url (indexed_docs es)"
    by (simp_all add: index_of_def addDocument_def clear_index_empty)
  then show "index_inv (w_index (sy_world s))" "index_view (w_index (sy_world s)) = by_url (indexed_docs es)"
    using I by (simp_all add: sys_inv_def)
  show "\<forall>doc\<in>set (indexed_docs es). \<exists>i res depth. Fetches i (doc_url doc) res \<in> set es \<and> fr_ok res \<and>
      doc = page_document (doc_url doc) depth (fr_html res)"
  proof
    fix doc assume "doc \<in> set (indexed_docs es)"
    then obtain e where e: "e \<in> set es" "doc \<in> set (document_of e)" by (auto simp: indexed_docs_def)
    from e(2) obtain i where "e = Indexes i doc" by (cases e) simp_all
    with I e(1) have "event_ok fetch opts es (Indexes i doc)" unfolding sys_inv_def reasons_def by blast
    then show "\<exists>i res depth. Fetches i (doc_url doc) res \<in> set es \<and> fr_ok res \<and>
        doc = page_document (doc_url doc) depth (fr_html res)" by (auto simp: got_def)
  qed
qed

text \<open>
  C4: Whatever the interleaving, the index is well formed and holds, under the URL of each page that was
  indexed, exactly the document made of the page that was fetched for it, and nothing else; no page is indexed twice.
\<close>

theorem crawl_index_exact:
  assumes "sys_run h fetch clock (start_system (fresh_world lg opts net)) es s" "o_maxPages opts < 2 ^ 64 - 1"
  shows "index_inv (w_index (sy_world s)) \<and> index_view (w_index (sy_world s)) = by_url (indexed_docs es) \<and>
    distinct (map doc_url (indexed_docs es)) \<and>
    (\<forall>doc\<in>set (indexed_docs es). \<exists>i res depth. Fetches i (doc_url doc) res \<in> set es \<and> fr_ok res \<and>
       doc = page_document (doc_url doc) depth (fr_html res))"
  using sys_run_index [OF assms] by blast

section \<open>The politeness gap\<close>

text \<open>Turns for the same domain are at least \<open>g\<close> apart.\<close>

fun turn_gap :: "int \<Rightarrow> event \<Rightarrow> event \<Rightarrow> bool" where
  "turn_gap g (Turn i d l) (Turn j d' l') = (d = d' \<longrightarrow> g \<le> l' - l)"
| "turn_gap g e e' = True"

definition turn_known :: "timing \<Rightarrow> event \<Rightarrow> bool" where
  "turn_known t e = (case e of Turn i d l \<Rightarrow> (\<exists>l'. tm_lastFetch t d = Some l' \<and> l \<le> l') | _ \<Rightarrow> True)"

fun pace_ok :: "(nat \<Rightarrow> int) \<Rightarrow> int \<Rightarrow> timing \<Rightarrow> string \<Rightarrow> phase \<Rightarrow> bool" where
  "pace_ok clock g t url (At_Due r prev) = (prev = last_fetch t (domainOf url))"
| "pace_ok clock g t url (At_Claim r) = (g \<le> clock (tm_reads t) - last_fetch t (domainOf url))"
| "pace_ok clock g t url ph = True"

definition single :: "crawl_options \<Rightarrow> crawler \<Rightarrow> bool" where
  "single opts c \<longleftrightarrow> length (cr_workers c) \<le> max 1 (o_workerCount opts) \<and> (cr_running c \<or> cr_workers c = [])"

lemma single_step: "crawl_step h c a c' \<Longrightarrow> single (cr_opts c) c \<Longrightarrow> single (cr_opts c) c'"
proof (erule crawl_stepE, goal_cases)
  case (1 url depth prio ok)
  then have "c' = snd (enqueue h c url depth prio)" by simp
  with 1 show ?case by (auto simp: single_def enqueue_def Let_def)
qed (auto simp: single_def take_item_def finish_item_def request_stop_def join_workers_def Let_def)

definition polite :: "(nat \<Rightarrow> int) \<Rightarrow> crawl_options \<Rightarrow> event list \<Rightarrow> 'w system \<Rightarrow> bool" where
  "polite clock opts es s \<longleftrightarrow>
     sorted_wrt (turn_gap (o_domainDelay opts * 1000000)) es \<and>
     (\<forall>e\<in>set es. turn_known (w_timing (sy_world s)) e) \<and>
     (\<forall>d l. tm_lastFetch (w_timing (sy_world s)) d = Some l \<longrightarrow> l \<le> clock (tm_reads (w_timing (sy_world s)))) \<and>
     (\<forall>i it. held (sy_crawler s) i = Some it \<longrightarrow>
        pace_ok clock (o_domainDelay opts * 1000000) (w_timing (sy_world s)) (it_url it) (sy_phase s i))"

text \<open>What a step that is not a turn may do to the clock table.\<close>

lemma page_step_timing:
  assumes "page_step h fetch clock i url depth ph w = (e, ph', w')" "\<And>j d l. e \<noteq> Turn j d l"
  shows "tm_lastFetch (w_timing w') = tm_lastFetch (w_timing w) \<and> tm_reads (w_timing w) \<le> tm_reads (w_timing w')"
  using assms by (cases "(h, fetch, clock, i, url, depth, ph, w)" rule: page_step.cases)
    (auto simp: read_clock_def call_error_def call_document_def Let_def split: if_splits prod.splits)

lemma page_step_pace:
  assumes "page_step h fetch clock i url depth ph w = (e, ph', w')" "mono clock"
    and "pace_ok clock (page_gap w) (w_timing w) url ph"
  shows "pace_ok clock (page_gap w) (w_timing w') url ph'"
proof (cases ph)
  case (At_Due r prev)
  have "clock (tm_reads (w_timing w)) \<le> clock (tm_reads (w_timing w) + 1)" using assms(2) by (simp add: monoD)
  then show ?thesis
    using At_Due assms(1,3) by (auto simp: read_clock_def page_gap_def last_fetch_def split: if_splits)
next
  case (At_Links ls)
  then show ?thesis using assms(1) by (cases ls) (auto split: prod.splits)
qed (use assms(1) in \<open>auto simp: read_clock_def Let_def split: if_splits prod.splits\<close>)

lemma turn_known_mono:
  "turn_known t e \<Longrightarrow> tm_lastFetch t' = tm_lastFetch t \<Longrightarrow> turn_known t' e"
  by (simp add: turn_known_def split: event.splits)

lemma politeI:
  assumes "polite clock opts es s" "mono clock"
    and "\<And>i d l. e \<noteq> Turn i d l"
    and "tm_lastFetch (w_timing (sy_world s')) = tm_lastFetch (w_timing (sy_world s))"
      "tm_reads (w_timing (sy_world s)) \<le> tm_reads (w_timing (sy_world s'))"
    and "\<And>i it. held (sy_crawler s') i = Some it \<Longrightarrow>
       pace_ok clock (o_domainDelay opts * 1000000) (w_timing (sy_world s')) (it_url it) (sy_phase s' i)"
  shows "polite clock opts (es @ [e]) s'"
proof -
  have "turn_gap g x e" for g x using assms(3) by (cases "(g, x, e)" rule: turn_gap.cases) auto
  moreover have "turn_known t e" for t using assms(3) by (auto simp: turn_known_def split: event.splits)
  moreover have "clock (tm_reads (w_timing (sy_world s))) \<le> clock (tm_reads (w_timing (sy_world s')))"
    using assms(2,5) by (simp add: monoD)
  ultimately show ?thesis
    using assms(1,4,6) turn_known_mono [OF _ assms(4)] unfolding polite_def
    by (auto simp: sorted_wrt_append) (meson order_trans)
qed

lemma polite_turn:
  assumes "polite clock opts es s" and e: "e = Turn j d l" "l = clock (tm_reads t)" "t = w_timing (sy_world s)"
    and gap: "o_domainDelay opts * 1000000 \<le> l - last_fetch t d" and "mono clock"
    and t': "w_timing (sy_world s') = t\<lparr>tm_reads := tm_reads t + 1, tm_lastFetch := (tm_lastFetch t)(d \<mapsto> l)\<rparr>"
    and pace: "\<And>i it. held (sy_crawler s') i = Some it \<Longrightarrow>
       pace_ok clock (o_domainDelay opts * 1000000) (w_timing (sy_world s')) (it_url it) (sy_phase s' i)"
  shows "polite clock opts (es @ [e]) s'"
proof -
  let ?g = "o_domainDelay opts * 1000000"
  have known: "turn_known t x" if "x \<in> set es" for x using assms(1) that e(3) by (simp add: polite_def)
  have table: "l' \<le> l" if "tm_lastFetch t d' = Some l'" for d' l' using assms(1) that e(2,3) by (simp add: polite_def)
  have apart: "turn_gap ?g x e" if "x \<in> set es" for x
    using known [OF that] gap by (cases x) (auto simp: e(1) turn_known_def last_fetch_def)
  have still: "turn_known (w_timing (sy_world s')) x" if "x \<in> set es" for x
    using known [OF that] table by (cases x) (auto simp: turn_known_def t', meson order_trans)
  have later: "clock (tm_reads t) \<le> clock (Suc (tm_reads t))" using assms(6) by (simp add: monoD)
  have "l' \<le> clock (Suc (tm_reads t))" if "tm_lastFetch (w_timing (sy_world s')) d' = Some l'" for d' l'
    using that table [of d' l'] later e(2) by (auto simp: t' split: if_splits)
  then show ?thesis
    using assms(1) apart still pace unfolding polite_def
    by (auto simp: sorted_wrt_append t') (simp add: e(1) turn_known_def t')
qed

lemma polite_step:
  assumes "sys_step h fetch clock s e s'" "crawl_inv h (actions (es @ [e])) (sy_crawler s')" "held_inv es s"
    and "polite clock (cr_opts (sy_crawler s)) es s" "mono clock" "length (cr_workers (sy_crawler s)) \<le> 1"
  shows "polite clock (cr_opts (sy_crawler s)) (es @ [e]) s'"
  using assms(1-3)
proof (cases rule: sys_step_cases)
  case outside
  then show ?thesis using assms(4) by (intro politeI [OF assms(4,5)]) (auto simp: polite_def)
next
  case (takes i it)
  then show ?thesis using assms(4) by (intro politeI [OF assms(4,5)]) (auto simp: polite_def split: if_splits)
next
  case (finish i it)
  then show ?thesis using assms(4) by (intro politeI [OF assms(4,5)]) (auto simp: polite_def split: if_splits)
next
  case (page i it ph w)
  let ?g = "o_domainDelay (cr_opts (sy_crawler s)) * 1000000" and ?t = "w_timing (sy_world s)"
  have g: "page_gap (sy_world s) = ?g" by (simp add: page_gap_def)
  have ok: "pace_ok clock ?g ?t (it_url it) (sy_phase s i)" using assms(4) page(2) by (simp add: polite_def)
  have one: "j = i" if "held (sy_crawler s) j = Some jt" for j jt
    using that page(2) assms(6) by (auto simp: held_Some)
  have ok': "pace_ok clock ?g (w_timing (sy_world s')) (it_url jt) (sy_phase s' j)" if "held (sy_crawler s') j = Some jt" for j jt
    using page_step_pace [OF page(6) assms(5)] ok one [of j jt] that page(1,2,7,8) by (simp add: g)
  show ?thesis
  proof (cases "\<exists>j d l. e = Turn j d l")
    case False
    then show ?thesis
      using page_step_timing [OF page(6)] page(8) ok' by (intro politeI [OF assms(4,5)]) simp_all
  next
    case True
    then obtain r where r: "sy_phase s i = At_Claim r"
      using page(6) by (cases "(h, fetch, clock, i, it_url it, it_depth it, sy_phase s i, sy_world s)" rule: page_step.cases)
        (auto simp: Let_def split: if_splits prod.splits)
    then have e: "e = Turn i (domainOf (it_url it)) (clock (tm_reads ?t))"
      and t: "w_timing w = ?t\<lparr>tm_reads := tm_reads ?t + 1,
        tm_lastFetch := (tm_lastFetch ?t)(domainOf (it_url it) \<mapsto> clock (tm_reads ?t))\<rparr>"
      using page(6) by (auto simp: read_clock_def)
    from ok r have "?g \<le> clock (tm_reads ?t) - last_fetch ?t (domainOf (it_url it))" by simp
    from polite_turn [OF assms(4) e refl refl this assms(5) t [folded page(8)] ok'] show ?thesis .
  qed
qed

lemma single_run: "crawl_run h c tr c' \<Longrightarrow> single (cr_opts c) c \<Longrightarrow> single (cr_opts c') c'"
  by (induction rule: crawl_run.induct) (use single_step crawl_step_opts in fastforce)+

lemma sys_run_polite:
  assumes "sys_run h fetch clock s0 es s" "s0 = start_system (fresh_world lg opts net)" "o_maxPages opts < 2 ^ 64"
    and "mono clock" "o_workerCount opts \<le> 1"
  shows "polite clock opts es s"
  using assms
proof (induction rule: sys_run.induct)
  case sys_nil
  then show ?case
    by (simp add: polite_def start_system_def fresh_world_def new_crawler_def held_def held_by_def)
next
  case (sys_snoc s0 es s e s')
  have run: "sys_run h fetch clock (start_system (fresh_world lg opts net)) es s" using sys_snoc by simp
  note opts = sys_run_inv(2) [OF run sys_snoc.prems(2)]
  note c = sys_run_inv(1) [OF sys_run.sys_snoc [OF run sys_snoc.hyps(2)] sys_snoc.prems(2)]
  have H: "held_inv es s" using sys_run_sys_inv [OF run refl sys_snoc.prems(2)] by (simp add: sys_inv_def)
  have "single (cr_opts (new_crawler lg opts)) (new_crawler lg opts)" by (simp add: single_def new_crawler_def)
  moreover have "crawl_run h (new_crawler lg opts) (actions es) (sy_crawler s)"
    using sys_run_frontier [OF run] by (simp add: start_system_def fresh_world_def)
  ultimately have "single opts (sy_crawler s)" using single_run opts by metis
  then have "length (cr_workers (sy_crawler s)) \<le> 1" using sys_snoc.prems(4) by (simp add: single_def)
  with sys_snoc polite_step [OF sys_snoc.hyps(2) c H, unfolded opts] show ?case by simp
qed

text \<open>
  C7: With one worker the politeness gap holds: under a clock that never goes back, any two turns the
  worker takes for the same domain (one before each fetch of a page or of a robots.txt) are recorded at
  least the configured delay apart, whatever clients do meanwhile.
\<close>

theorem one_worker_polite:
  assumes "sys_run h fetch clock (start_system (fresh_world lg opts net)) es s" "o_maxPages opts < 2 ^ 64"
    and "mono clock" "o_workerCount opts \<le> 1"
  shows "sorted_wrt (turn_gap (o_domainDelay opts * 1000000)) es"
  using sys_run_polite [OF assms(1) refl assms(2-4)] by (simp add: polite_def)

section \<open>Concrete runs\<close>

lemma sys_run_append: "sys_run h fetch clock s' es' s'' \<Longrightarrow> sys_run h fetch clock s es s' \<Longrightarrow> sys_run h fetch clock s (es @ es') s''"
proof (induction rule: sys_run.induct)
  case (sys_snoc s' es' t e t')
  from sys_run.sys_snoc [OF sys_snoc.IH [OF sys_snoc.prems] sys_snoc.hyps(2)] show ?case by simp
qed simp

lemma sys_run_one: "sys_step h fetch clock s e s' \<Longrightarrow> sys_run h fetch clock s [e] s'"
  using sys_run.sys_snoc [OF sys_run.sys_nil] by fastforce

text \<open>The steps of the given workers, in the given order; a worker without work left is passed over.\<close>

fun pages_run :: "(string \<Rightarrow> u64) \<Rightarrow> 'w fetcher \<Rightarrow> (nat \<Rightarrow> int) \<Rightarrow> nat list \<Rightarrow> 'w system \<Rightarrow> event list \<times> 'w system" where
  "pages_run h fetch clock [] s = ([], s)"
| "pages_run h fetch clock (i # is) s =
     (case held (sy_crawler s) i of
        None \<Rightarrow> pages_run h fetch clock is s
      | Some it \<Rightarrow>
          if sy_phase s i = At_Done then pages_run h fetch clock is s
          else case page_step h fetch clock i (it_url it) (it_depth it) (sy_phase s i) (sy_world s) of
                 (e, ph, w) \<Rightarrow> case pages_run h fetch clock is (set_phase i ph (s\<lparr>sy_world := w\<rparr>)) of
                   (es, s') \<Rightarrow> (e # es, s'))"

lemma pages_run_run: "pages_run h fetch clock is s = (es, s') \<Longrightarrow> sys_run h fetch clock s es s'"
proof (induction "is" arbitrary: s es s')
  case Nil
  then show ?case by (simp add: sys_nil)
next
  case (Cons i "is")
  show ?case
  proof (cases "held (sy_crawler s) i = None \<or> sy_phase s i = At_Done")
    case True
    then show ?thesis using Cons by (auto split: option.splits)
  next
    case False
    then obtain it where it: "held (sy_crawler s) i = Some it" "sy_phase s i \<noteq> At_Done" by auto
    obtain e ph w where p: "page_step h fetch clock i (it_url it) (it_depth it) (sy_phase s i) (sy_world s) = (e, ph, w)"
      by (metis prod_cases3)
    obtain es' t where r: "pages_run h fetch clock is (set_phase i ph (s\<lparr>sy_world := w\<rparr>)) = (es', t)" by fastforce
    have "es = e # es'" "t = s'" using Cons.prems it p r by simp_all
    moreover have "sys_step h fetch clock s e (set_phase i ph (s\<lparr>sy_world := w\<rparr>))"
      using it p by (intro sys_page) (simp_all add: held_Some)
    ultimately show ?thesis using sys_run_append [OF Cons.IH [OF r] sys_run_one] by simp
  qed
qed

text \<open>Two URLs are enqueued and two workers take them; robots compliance does not matter for what follows.\<close>

definition race_options :: crawl_options where
  "race_options = default_options\<lparr>o_obeyRobots := False\<rparr>"

definition race_clock :: "nat \<Rightarrow> int" where
  "race_clock k = 100000000 + int k"

definition race_crawler :: "(string \<Rightarrow> u64) \<Rightarrow> ('d::floor_ceiling \<Rightarrow> 'd) \<Rightarrow> crawler" where
  "race_crawler h lg =
     (let c = new_crawler lg race_options;
          c = snd (enqueue h c ''http://a/1'' 0 (- 1));
          c = snd (enqueue h c ''http://a/2'' 0 (- 1))
      in take_item 1 (take_item 0 c))"

lemma race_crawler_facts:
  "cr_opts (race_crawler h lg) = race_options"
  "held (race_crawler h lg) 0 = Some \<lparr>it_url = ''http://a/1'', it_depth = 0, it_priority = 0, it_seq = 0\<rparr>"
  "held (race_crawler h lg) 1 = Some \<lparr>it_url = ''http://a/2'', it_depth = 0, it_priority = 0, it_seq = 1\<rparr>"
  by (simp_all add: race_crawler_def Let_def enqueue_def new_crawler_def race_options_def default_options_def
      take_item_def queue_top_def queue_pop_def item_key_def held_def held_by_def numeral_2_eq_2)

lemma race_start:
  "\<exists>es s. sys_run h fetch clock (start_system (fresh_world lg race_options net)) es s \<and>
     sy_world s = (fresh_world lg race_options net)\<lparr>w_crawler := race_crawler h lg\<rparr> \<and>
     sy_phase s = (\<lambda>i. At_Wait)(0 := At_Gate, 1 := At_Gate)"
proof -
  let ?s = "start_system (fresh_world lg race_options net)" and ?c = "new_crawler lg race_options"
  let ?c1 = "snd (enqueue h ?c ''http://a/1'' 0 (- 1))"
  let ?c2 = "snd (enqueue h ?c1 ''http://a/2'' 0 (- 1))"
  have c: "sy_crawler ?s = ?c" by (simp add: start_system_def fresh_world_def)
  have w: "cr_workers ?c2 = [Idle, Idle]" and q: "length (cr_queue ?c2) = 2"
    by (simp_all add: Let_def enqueue_def new_crawler_def race_options_def default_options_def numeral_2_eq_2)
  let ?s1 = "set_crawler ?c1 ?s"
  have 1: "sys_run h fetch clock ?s [Frontier (Enqueue ''http://a/1'' 0 (- 1) (fst (enqueue h ?c ''http://a/1'' 0 (- 1))))] ?s1"
    by (intro sys_run_one sys_outside) (simp_all add: c step_enqueue)
  let ?s2 = "set_crawler ?c2 ?s1"
  have 2: "sys_run h fetch clock ?s1 [Frontier (Enqueue ''http://a/2'' 0 (- 1) (fst (enqueue h ?c1 ''http://a/2'' 0 (- 1))))] ?s2"
    by (intro sys_run_one sys_outside) (simp_all add: step_enqueue)
  let ?s3 = "set_phase 0 At_Gate (set_crawler (take_item 0 ?c2) ?s2)"
  have t: "crawl_step h ?c2 (Take 0 (queue_top (cr_queue ?c2))) (take_item 0 ?c2)"
    using w q by (intro step_take) auto
  have 3: "sys_run h fetch clock ?s2 [Frontier (Take 0 (queue_top (cr_queue ?c2)))] ?s3"
    by (intro sys_run_one sys_take) (simp add: t)
  have "cr_queue ?c2 \<noteq> []" using q by auto
  then have q1: "length (queue_pop (cr_queue ?c2)) = 1" using queue_pop_props(1) [of "cr_queue ?c2"] q by simp
  have q': "cr_queue (take_item 0 ?c2) \<noteq> []" "cr_workers (take_item 0 ?c2) = [Busy (queue_top (cr_queue ?c2)), Idle]"
    using q w q1 by (auto simp: take_item_def Let_def)
  let ?s4 = "set_phase 1 At_Gate (set_crawler (take_item 1 (take_item 0 ?c2)) ?s3)"
  have t': "crawl_step h (take_item 0 ?c2) (Take 1 (queue_top (cr_queue (take_item 0 ?c2)))) (take_item 1 (take_item 0 ?c2))"
    using q' by (intro step_take) auto
  have 4: "sys_run h fetch clock ?s3 [Frontier (Take 1 (queue_top (cr_queue (take_item 0 ?c2))))] ?s4"
    by (intro sys_run_one sys_take) (use t' in simp)
  have "sy_world ?s4 = (fresh_world lg race_options net)\<lparr>w_crawler := race_crawler h lg\<rparr>"
    by (simp add: race_crawler_def Let_def start_system_def)
  moreover have "sy_phase ?s4 = (\<lambda>i. At_Wait)(0 := At_Gate, 1 := At_Gate)" by (simp add: start_system_def)
  ultimately show ?thesis using sys_run_append [OF 4 sys_run_append [OF 3 sys_run_append [OF 2 1]]] by blast
qed

lemma race_pages:
  assumes "sy_world s = (fresh_world lg race_options net)\<lparr>w_crawler := race_crawler h lg\<rparr>"
    and "sy_phase s = (\<lambda>i. At_Wait)(0 := At_Gate, 1 := At_Gate)"
  shows "\<exists>ra rb s'. pages_run h fetch race_clock [0, 0, 1, 1, 0, 1, 0, 1, 0, 1] s =
    ([Quiet 0, Quiet 0, Quiet 1, Quiet 1, Quiet 0, Quiet 1, Turn 0 ''a'' 100000002, Turn 1 ''a'' 100000003,
      Fetches 0 ''http://a/1'' ra, Fetches 1 ''http://a/2'' rb], s')"
proof -
  have d: "domainOf ''http://a/1'' = ''a''" "domainOf ''http://a/2'' = ''a''" by code_simp+
  have o: "o_obeyRobots race_options = False" "o_domainDelay race_options = 100"
    by (simp_all add: race_options_def default_options_def)
  obtain ra na where a: "fetch net ''http://a/1'' = (ra, na)" by fastforce
  obtain rb nb where b: "fetch na ''http://a/2'' = (rb, nb)" by fastforce
  obtain w where w: "fresh_world lg race_options net = w" "w_net w = net" "w_timing w = \<lparr>tm_reads = 0, tm_lastFetch = Map.empty\<rparr>"
    by (simp add: fresh_world_def)
  show ?thesis
    by (simp add: assms w race_crawler_facts race_crawler_facts(3) [unfolded One_nat_def] d o governed_def read_clock_def race_clock_def
        page_gap_def last_fetch_def a b)
qed

text \<open>
  With two workers the gap does not hold: a crawler with the default options, robots compliance
  aside, has a run in which both workers find the gap for one domain over, both record their turn, one
  nanosecond apart, and both fetch.
\<close>

theorem politeness_race:
  "\<exists>es s ra rb.
     sys_run h fetch race_clock (start_system (fresh_world lg race_options net))
       (es @ [Turn 0 ''a'' 100000002, Turn 1 ''a'' 100000003, Fetches 0 ''http://a/1'' ra, Fetches 1 ''http://a/2'' rb]) s \<and>
     \<not> sorted_wrt (turn_gap (o_domainDelay race_options * 1000000))
         (es @ [Turn 0 ''a'' 100000002, Turn 1 ''a'' 100000003, Fetches 0 ''http://a/1'' ra, Fetches 1 ''http://a/2'' rb])"
proof -
  obtain es s where s: "sys_run h fetch race_clock (start_system (fresh_world lg race_options net)) es s"
    "sy_world s = (fresh_world lg race_options net)\<lparr>w_crawler := race_crawler h lg\<rparr>"
    "sy_phase s = (\<lambda>i. At_Wait)(0 := At_Gate, 1 := At_Gate)"
    using race_start [of h fetch race_clock lg net] by (elim exE conjE) (rule that)
  obtain ra rb s' where p: "pages_run h fetch race_clock [0, 0, 1, 1, 0, 1, 0, 1, 0, 1] s =
    ([Quiet 0, Quiet 0, Quiet 1, Quiet 1, Quiet 0, Quiet 1, Turn 0 ''a'' 100000002, Turn 1 ''a'' 100000003,
      Fetches 0 ''http://a/1'' ra, Fetches 1 ''http://a/2'' rb], s')"
    using race_pages [OF s(2,3)] by blast
  have late: "\<not> sorted_wrt (turn_gap (o_domainDelay race_options * 1000000))
      (xs @ [Turn 0 ''a'' 100000002, Turn 1 ''a'' 100000003, Fetches 0 ''http://a/1'' ra, Fetches 1 ''http://a/2'' rb])" for xs
    by (simp add: sorted_wrt_append race_options_def default_options_def)
  show ?thesis
    using sys_run_append [OF pages_run_run [OF p] s(1)] late [of "es @ [Quiet 0, Quiet 0, Quiet 1, Quiet 1, Quiet 0, Quiet 1]"]
    by (intro exI [of _ "es @ [Quiet 0, Quiet 0, Quiet 1, Quiet 1, Quiet 0, Quiet 1]"] exI conjI) simp_all
qed

text \<open>One worker, the default options otherwise, a clock that ticks in steps of the gap, and a site of one page.\<close>

definition solo_options :: crawl_options where
  "solo_options = default_options\<lparr>o_workerCount := 1\<rparr>"

definition solo_clock :: "nat \<Rightarrow> int" where
  "solo_clock k = 100000000 * (int k + 1)"

definition tiny_page :: "nat fetcher" where
  "tiny_page n url = (\<lparr>fr_ok = True, fr_html = ''hi'', fr_error = []\<rparr>, n + 1)"

definition solo_events :: "event list" where
  "solo_events = [Frontier (Enqueue ''http://a/'' 0 (- 1) True), Frontier (Take 0 \<lparr>it_url = ''http://a/'', it_depth = 0, it_priority = 0, it_seq = 0\<rparr>),
     Quiet 0, Quiet 0, Quiet 0, Turn 0 ''a'' 200000000, Quiet 0, Asks 0 ''http://a'', Quiet 0,
     Passes 0 ''http://a/'' \<lparr>rb_ua = ''ShadowSE/1.0'', rb_domains = [(''http://a'', \<lparr>dr_loaded = True, dr_rules = []\<rparr>)]\<rparr>,
     Quiet 0, Quiet 0, Turn 0 ''a'' 400000000, Fetches 0 ''http://a/'' \<lparr>fr_ok = True, fr_html = ''hi'', fr_error = []\<rparr>,
     Indexes 0 (page_document ''http://a/'' 0 ''hi'')]"

lemma solo_steps:
  assumes s: "sy_world s = (fresh_world lg solo_options 0)\<lparr>w_crawler := c\<rparr>" "sy_phase s = (\<lambda>i. At_Wait)(0 := At_Gate)"
    and c: "cr_opts c = solo_options" "held c 0 = Some \<lparr>it_url = ''http://a/'', it_depth = 0, it_priority = 0, it_seq = 0\<rparr>"
  shows "\<exists>s'. pages_run h tiny_page solo_clock [0, 0, 0, 0, 0, 0, 0, 0, 0, 0, 0, 0, 0] s = (drop 2 solo_events, s')"
proof -
  obtain w where w: "fresh_world lg solo_options (0 :: nat) = w" "w_net w = 0" "w_timing w = \<lparr>tm_reads = 0, tm_lastFetch = Map.empty\<rparr>"
    "w_robots w = new_robots ''ShadowSE/1.0''"
    by (simp add: fresh_world_def solo_options_def default_options_def)
  obtain ix n where ix: "addDocument (w_index w) (page_document ''http://a/'' 0 ''hi'') = (ix, n)" by fastforce
  let ?res = "\<lparr>fr_ok = True, fr_html = ''hi'', fr_error = []\<rparr>"
  let ?rb = "\<lparr>rb_ua = ''ShadowSE/1.0'', rb_domains = [(''http://a'', \<lparr>dr_loaded = True, dr_rules = []\<rparr>)]\<rparr>"
  have u: "domainOf ''http://a/'' = ''a''" "originOf ''http://a/'' = ''http://a''" "\<not> isRobotsUrl ''http://a/''"
    "fetched_rules ''ShadowSE/1.0'' ?res = \<lparr>dr_loaded = True, dr_rules = []\<rparr>"
    by code_simp+
  have r: "\<not> hasRules (new_robots ''ShadowSE/1.0'') ''http://a/''" "\<not> origin_loaded (new_robots ''ShadowSE/1.0'') ''http://a/''"
    "allowed ?rb ''http://a/''"
    by code_simp+
  have o: "o_obeyRobots solo_options" "o_domainDelay solo_options = 100"
    by (simp_all add: solo_options_def default_options_def)
  have f: "tiny_page n url = (?res, n + 1)" for n url by (simp add: tiny_page_def)
  show ?thesis
    by (simp add: s w c u r [unfolded new_robots_def] o f ix Let_def governed_def read_clock_def solo_clock_def page_gap_def last_fetch_def new_robots_def solo_events_def)
qed

lemma solo_run:
  "\<exists>s. sys_run h tiny_page solo_clock (start_system (fresh_world lg solo_options 0)) solo_events s"
proof -
  let ?s = "start_system (fresh_world lg solo_options 0)" and ?c = "new_crawler lg solo_options"
  let ?c1 = "snd (enqueue h ?c ''http://a/'' 0 (- 1))" and ?it = "\<lparr>it_url = ''http://a/'', it_depth = 0, it_priority = 0, it_seq = 0\<rparr>"
  have c: "sy_crawler ?s = ?c" by (simp add: start_system_def fresh_world_def)
  have c1: "cr_workers ?c1 = [Idle]" "cr_queue ?c1 = [?it]" "fst (enqueue h ?c ''http://a/'' 0 (- 1))"
    by (simp_all add: Let_def enqueue_def new_crawler_def solo_options_def default_options_def)
  have opts: "cr_opts ?c1 = solo_options" by (simp only: enqueue_opts) (simp add: new_crawler_def)
  let ?s1 = "set_crawler ?c1 ?s"
  have "enqueue h ?c ''http://a/'' 0 (- 1) = (True, ?c1)" using c1(3) by (metis prod.collapse)
  then have 1: "sys_run h tiny_page solo_clock ?s [Frontier (Enqueue ''http://a/'' 0 (- 1) True)] ?s1"
    by (intro sys_run_one sys_outside) (simp_all add: c step_enqueue)
  let ?c2 = "take_item 0 ?c1"
  let ?s2 = "set_phase 0 At_Gate (set_crawler ?c2 ?s1)"
  have top: "queue_top (cr_queue ?c1) = ?it" by (simp add: c1 queue_top_def)
  have "crawl_step h ?c1 (Take 0 ?it) ?c2" using c1 step_take [of 0 ?c1 h] unfolding top by simp
  then have 2: "sys_run h tiny_page solo_clock ?s1 [Frontier (Take 0 ?it)] ?s2"
    by (intro sys_run_one sys_take) simp
  have held: "held ?c2 0 = Some ?it"
    by (simp add: take_item_def Let_def held_def held_by_def c1 top [unfolded c1])
  have "cr_opts ?c2 = cr_opts ?c1" by (simp add: take_item_def Let_def)
  then have opts2: "cr_opts ?c2 = solo_options" unfolding opts .
  have "sy_world ?s2 = (fresh_world lg solo_options 0)\<lparr>w_crawler := ?c2\<rparr>"
    "sy_phase ?s2 = (\<lambda>i. At_Wait)(0 := At_Gate)"
    by (simp_all add: start_system_def)
  from solo_steps [OF this opts2 held] obtain s' where
    p: "pages_run h tiny_page solo_clock [0, 0, 0, 0, 0, 0, 0, 0, 0, 0, 0, 0, 0] ?s2 = (drop 2 solo_events, s')" ..
  from sys_run_append [OF pages_run_run [OF p] sys_run_append [OF 2 1]] show ?thesis
    by (intro exI [of _ s']) (simp add: solo_events_def)
qed

lemma solo_pages: "o_maxPages solo_options = 64" "o_workerCount solo_options = 1" "o_domainDelay solo_options = 100"
  by (simp_all add: solo_options_def default_options_def)

theorem crawl_fetches_witness:
  "\<exists>s. sys_run (\<lambda>x. 0) tiny_page solo_clock (start_system (fresh_world (\<lambda>x :: rat. x - 1) solo_options 0)) solo_events s \<and>
     fetched solo_events = [''http://a/''] \<and> ''http://a/'' \<in> cr_seen (sy_crawler s)"
proof -
  obtain s where s: "sys_run (\<lambda>x. 0) tiny_page solo_clock (start_system (fresh_world (\<lambda>x :: rat. x - 1) solo_options 0)) solo_events s"
    using solo_run by blast
  have "fetched solo_events = [''http://a/'']" by (simp add: solo_events_def fetched_def)
  with crawl_fetches [OF s] s show ?thesis by (auto simp: solo_pages)
qed

theorem crawl_index_exact_witness:
  "\<exists>s. sys_run (\<lambda>x. 0) tiny_page solo_clock (start_system (fresh_world (\<lambda>x :: rat. x - 1) solo_options 0)) solo_events s \<and>
     index_view (w_index (sy_world s)) = by_url [page_document ''http://a/'' 0 ''hi'']"
proof -
  obtain s where s: "sys_run (\<lambda>x. 0) tiny_page solo_clock (start_system (fresh_world (\<lambda>x :: rat. x - 1) solo_options 0)) solo_events s"
    using solo_run by blast
  have "indexed_docs solo_events = [page_document ''http://a/'' 0 ''hi'']" by (simp add: solo_events_def indexed_docs_def)
  with crawl_index_exact [OF s] s show ?thesis by (auto simp: solo_pages)
qed

lemma solo_clock_mono: "mono solo_clock"
  by (simp add: mono_def solo_clock_def)

theorem one_worker_polite_witness:
  "sorted_wrt (turn_gap 100000000) solo_events \<and> Turn 0 ''a'' 200000000 \<in> set solo_events \<and> Turn 0 ''a'' 400000000 \<in> set solo_events"
proof -
  obtain s where s: "sys_run (\<lambda>x. 0) tiny_page solo_clock (start_system (fresh_world (\<lambda>x :: rat. x - 1) solo_options 0)) solo_events s"
    using solo_run by blast
  from one_worker_polite [OF s _ solo_clock_mono] show ?thesis by (simp add: solo_pages) (simp add: solo_events_def)
qed

end
