(* ===== verification/Crypto.thy ===== *)
theory Crypto
  imports Prelude
begin

unbundle bit_operations_syntax

text \<open>
  Random bytes, base64 and the authenticated encryption box of \<open>src/crypto.cpp\<close>. The functions of
  libsodium are parameters, collected in a record, with their documented behaviour as the predicate
  \<open>sodium_laws\<close>. The theory proves that base64 decoding inverts encoding and ignores
  foreign characters, and that a box opens what it sealed.
\<close>

type_synonym bytes = "u8 list"

definition kSaltSize :: nat where "kSaltSize = 16"
definition kNonceSize :: nat where "kNonceSize = 24"
definition kKeySize :: nat where "kKeySize = 32"

section \<open>Random bytes\<close>

text \<open>The functions of libsodium: initialisation, generator, Argon2id, XChaCha20-Poly1305.\<close>

record 'r sodium =
  sd_init :: bool
  sd_random :: "'r \<Rightarrow> nat \<Rightarrow> bytes \<times> 'r"
  sd_pwhash :: "string \<Rightarrow> bytes \<Rightarrow> bytes option"
  sd_seal :: "bytes \<Rightarrow> bytes \<Rightarrow> bytes \<Rightarrow> bytes"
  sd_open :: "bytes \<Rightarrow> bytes \<Rightarrow> bytes \<Rightarrow> bytes option"

definition sodium_laws :: "'r sodium \<Rightarrow> bool" where
  "sodium_laws sd \<longleftrightarrow>
     (\<forall>r n. length (fst (sd_random sd r n)) = n) \<and>
     (\<forall>p s k. sd_pwhash sd p s = Some k \<longrightarrow> length k = kKeySize) \<and>
     (\<forall>k n m. length (sd_seal sd k n m) = length m + 16) \<and>
     (\<forall>k n m. sd_open sd k n (sd_seal sd k n m) = Some m) \<and>
     (\<forall>k n c m. sd_open sd k n c = Some m \<longrightarrow> c = sd_seal sd k n m)"

definition randomBytes :: "'r sodium \<Rightarrow> nat \<Rightarrow> 'r \<Rightarrow> bytes \<times> 'r" where
  "randomBytes sd n r =
     (if n = 0 then ([], r) else if \<not> sd_init sd then ([], r) else sd_random sd r n)"

text \<open>The fallback of a build without libsodium.\<close>

definition xorshift :: "u64 \<Rightarrow> u64" where
  "xorshift seed0 =
     (let seed = seed0 XOR push_bit 13 seed0;
          seed = seed XOR drop_bit 7 seed
      in seed XOR push_bit 17 seed)"

fun fallback_loop :: "u64 \<Rightarrow> nat \<Rightarrow> nat \<Rightarrow> bytes" where
  "fallback_loop seed i 0 = []"
| "fallback_loop seed i (Suc n) =
     (let seed = xorshift seed in ucast (drop_bit (8 * (i mod 8)) seed) # fallback_loop seed (i + 1) n)"

definition fallbackRandomBytes :: "nat \<Rightarrow> bytes" where
  "fallbackRandomBytes n = fallback_loop 0x9E3779B97F4A7C15 0 n"

section \<open>Base64\<close>

definition kBase64Alphabet :: string where
  "kBase64Alphabet = ''ABCDEFGHIJKLMNOPQRSTUVWXYZabcdefghijklmnopqrstuvwxyz0123456789-_''"

definition b64_char :: "u32 \<Rightarrow> nat \<Rightarrow> char" where
  "b64_char v k = kBase64Alphabet ! unat (drop_bit k v AND 63)"

fun toBase64 :: "bytes \<Rightarrow> string" where
  "toBase64 (a # b # c # rest) =
     (let v = push_bit 16 (ucast a) OR push_bit 8 (ucast b) OR ucast c :: u32
      in b64_char v 18 # b64_char v 12 # b64_char v 6 # b64_char v 0 # toBase64 rest)"
| "toBase64 [a] = (let v = push_bit 16 (ucast a) :: u32 in [b64_char v 18, b64_char v 12])"
| "toBase64 [a, b] =
     (let v = push_bit 16 (ucast a) OR push_bit 8 (ucast b) :: u32
      in [b64_char v 18, b64_char v 12, b64_char v 6])"
| "toBase64 [] = []"

definition base64Value :: "char \<Rightarrow> nat option" where
  "base64Value c =
     (if is_upper c then Some (code c - 65)
      else if is_lower c then Some (code c - 97 + 26)
      else if is_digit c then Some (code c - 48 + 52)
      else if c = CHR ''-'' \<or> c = CHR ''+'' then Some 62
      else if c = CHR ''_'' \<or> c = CHR ''/'' then Some 63
      else None)"

fun b64_loop :: "string \<Rightarrow> u32 \<Rightarrow> nat \<Rightarrow> bytes" where
  "b64_loop [] buffer bits = []"
| "b64_loop (c # cs) buffer bits =
     (if c = CHR ''='' then []
      else case base64Value c of
        None \<Rightarrow> b64_loop cs buffer bits
      | Some v \<Rightarrow>
          let buffer = push_bit 6 buffer OR of_nat v;
              bits = bits + 6
          in if 8 \<le> bits
             then ucast (drop_bit (bits - 8) buffer AND 0xFF) # b64_loop cs buffer (bits - 8)
             else b64_loop cs buffer bits)"

definition fromBase64 :: "string \<Rightarrow> bytes" where
  "fromBase64 b64 = b64_loop b64 0 0"

section \<open>The box\<close>

record encrypted_blob =
  eb_nonce :: bytes
  eb_ciphertext :: bytes

text \<open>A box is its key; the default-constructed box has none.\<close>

definition initialized :: "bytes \<Rightarrow> bool" where
  "initialized key \<longleftrightarrow> key \<noteq> []"

definition derive_with_salt :: "'r sodium \<Rightarrow> string \<Rightarrow> bytes \<Rightarrow> bytes" where
  "derive_with_salt sd password salt =
     (if \<not> sd_init sd then []
      else case sd_pwhash sd password salt of None \<Rightarrow> [] | Some key \<Rightarrow> key)"

text \<open>A fresh salt and its box; the salt is handed out only with an initialised box.\<close>

definition deriveFromPassword :: "'r sodium \<Rightarrow> string \<Rightarrow> 'r \<Rightarrow> (bytes \<times> bytes) \<times> 'r" where
  "deriveFromPassword sd password r =
     (let (salt, r) = randomBytes sd kSaltSize r
      in if length salt \<noteq> kSaltSize then (([], []), r)
         else
           let box = derive_with_salt sd password salt
           in if initialized box then ((box, salt), r) else ((box, []), r))"

definition box_encrypt :: "'r sodium \<Rightarrow> bytes \<Rightarrow> bytes \<Rightarrow> 'r \<Rightarrow> encrypted_blob \<times> 'r" where
  "box_encrypt sd key plaintext r =
     (let blob = \<lparr>eb_nonce = [], eb_ciphertext = []\<rparr>
      in if \<not> initialized key \<or> plaintext = [] then (blob, r)
         else
           let (nonce, r) = randomBytes sd kNonceSize r
           in if length nonce \<noteq> kNonceSize then (blob, r)
              else (\<lparr>eb_nonce = nonce, eb_ciphertext = sd_seal sd key nonce plaintext\<rparr>, r))"

definition box_decrypt :: "'r sodium \<Rightarrow> bytes \<Rightarrow> encrypted_blob \<Rightarrow> bytes option" where
  "box_decrypt sd key blob =
     (if \<not> initialized key \<or> length (eb_nonce blob) \<noteq> kNonceSize then None
      else if length (eb_ciphertext blob) < 16 then None
      else sd_open sd key (eb_nonce blob) (eb_ciphertext blob))"

section \<open>Base64 on numbers\<close>

lemma unat_u8: "unat (w :: u8) < 256"
  using unsigned_less [of w] by simp

lemma base64_alphabet: "v < 64 \<Longrightarrow> base64Value (kBase64Alphabet ! v) = Some v"
  "v < 64 \<Longrightarrow> kBase64Alphabet ! v \<noteq> CHR ''=''"
proof -
  have "list_all (\<lambda>v. base64Value (kBase64Alphabet ! v) = Some v \<and> kBase64Alphabet ! v \<noteq> CHR ''='') [0..<64]"
    by code_simp
  then show "v < 64 \<Longrightarrow> base64Value (kBase64Alphabet ! v) = Some v"
    "v < 64 \<Longrightarrow> kBase64Alphabet ! v \<noteq> CHR ''=''"
    by (simp_all add: list_all_iff)
qed

text \<open>The bits of the buffer not yet put out, as a number below \<open>2 ^ bits\<close>.\<close>

lemma buffer_step:
  assumes "v < 64" "bits \<le> 6"
  shows "unat (push_bit 6 b OR of_nat v :: u32) mod 2 ^ (bits + 6) = unat b mod 2 ^ bits * 64 + v"
proof -
  have "unat (push_bit 6 b OR of_nat v :: u32) = unat (push_bit 6 b :: u32) OR v"
    using assms by (simp add: unsigned_or_eq unat_of_nat_u32)
  also have "unat (push_bit 6 b :: u32) = (unat b * 64) mod 2 ^ 32"
    by (simp only: unsigned_push_bit_eq) (simp add: push_bit_eq_mult take_bit_eq_mod)
  also have "(unat b * 64) mod 2 ^ 32 OR v = (unat b * 64) mod 2 ^ 32 + v"
  proof -
    have "(unat b * 64) mod 2 ^ 32 = (unat b mod 2 ^ 26) * 64"
      using mult_mod_right [of 64 "unat b" "2 ^ 26"] by (simp add: mult.commute)
    then show ?thesis using assms(1) or_eq_add_mult [of v 6 "unat b mod 2 ^ 26"] by simp
  qed
  finally have u: "unat (push_bit 6 b OR of_nat v :: u32) = (unat b * 64) mod 2 ^ 32 + v" .
  have dvd: "(2::nat) ^ (bits + 6) dvd 2 ^ 32" using assms(2) by (intro le_imp_power_dvd) simp
  have "((unat b * 64) mod 2 ^ 32 + v) mod 2 ^ (bits + 6) = (unat b * 64 + v) mod 2 ^ (bits + 6)"
    using dvd by (metis mod_add_left_eq mod_mod_cancel)
  also have "\<dots> = unat b mod 2 ^ bits * 64 + v"
  proof -
    have "(unat b * 64 + v) mod (64 * 2 ^ bits) = 64 * (unat b mod 2 ^ bits) + v"
      using assms(1) mod_mult2_eq [of "unat b * 64 + v" 64 "2 ^ bits"] by (simp add: mult.commute)
    then show ?thesis by (simp add: power_add mult.commute)
  qed
  finally show ?thesis by (simp add: u)
qed

text \<open>The decoder on numbers: only the leftover bits of the buffer matter.\<close>

fun b64_nat :: "nat list \<Rightarrow> nat \<Rightarrow> nat \<Rightarrow> bytes" where
  "b64_nat [] r bits = []"
| "b64_nat (v # vs) r bits =
     (let x = r * 64 + v; bits = bits + 6
      in if 8 \<le> bits then of_nat (x div 2 ^ (bits - 8)) # b64_nat vs (x mod 2 ^ (bits - 8)) (bits - 8)
         else b64_nat vs x bits)"

lemma mod_div_byte: "(u mod (2 ^ k * 256)) div 2 ^ k = (u div 2 ^ k) mod (256::nat)"
  using mod_mult2_eq [of u "2 ^ k" 256] by simp

lemma b64_loop_nat:
  "\<forall>v\<in>set vs. v < 64 \<Longrightarrow> bits \<in> {0, 2, 4, 6} \<Longrightarrow>
     b64_loop (map (\<lambda>v. kBase64Alphabet ! v) vs) b bits = b64_nat vs (unat b mod 2 ^ bits) bits"
proof (induction vs arbitrary: b bits)
  case (Cons v vs)
  let ?b = "push_bit 6 b OR of_nat v :: u32" and ?x = "unat b mod 2 ^ bits * 64 + v"
  have v: "v < 64" "base64Value (kBase64Alphabet ! v) = Some v" "kBase64Alphabet ! v \<noteq> CHR ''=''"
    using Cons.prems(1) base64_alphabet by simp_all
  have x: "unat ?b mod 2 ^ (bits + 6) = ?x" using buffer_step [OF v(1), of bits b] Cons.prems(2) by auto
  show ?case
  proof (cases "bits = 0")
    case True
    then show ?thesis using v x Cons.IH [of 6 ?b] Cons.prems(1) by (simp add: Let_def)
  next
    case False
    then obtain k where k: "bits = k + 2" "k \<in> {0, 2, 4}" using Cons.prems(2) by auto
    have p: "(2::nat) ^ (bits + 6) = 2 ^ k * 256" by (simp add: k(1) power_add)
    have byte: "(ucast (drop_bit k ?b AND 0xFF) :: u8) = of_nat (?x div 2 ^ k)"
    proof -
      have "unat (ucast (drop_bit k ?b AND 0xFF) :: u8) = unat ?b div 2 ^ k mod 256"
        by (simp only: unsigned_ucast_eq unsigned_and_eq unat_drop_bit) (simp add: nat_and_masks take_bit_eq_mod)
      moreover have "?x div 2 ^ k = unat ?b div 2 ^ k mod 256" by (simp only: x [symmetric] p mod_div_byte)
      moreover have "unat (of_nat n :: u8) = n mod 256" for n by (simp add: unat_of_nat)
      ultimately show ?thesis by (metis mod_mod_trivial word_unat_eq_iff)
    qed
    have left: "unat ?b mod 2 ^ k = ?x mod 2 ^ k"
      unfolding x [symmetric] p by (simp add: mod_mod_cancel)
    have "b64_loop (map (\<lambda>v. kBase64Alphabet ! v) vs) ?b k = b64_nat vs (unat ?b mod 2 ^ k) k"
      using Cons.IH [of k ?b] Cons.prems(1) k(2) by auto
    then show ?thesis
      using v by (simp only: list.map b64_loop.simps if_False option.case Let_def b64_nat.simps k(1)
          add.assoc) (use byte left k in simp)
  qed
qed simp

lemma base_digits: "V div (m * 64) mod n * 64 + V div m mod 64 = V div m mod (64 * (n::nat))"
  using mod_mult2_eq [of "V div m" 64 n] by (simp add: div_mult2_eq)

lemma group_nat:
  assumes "V = a * 65536 + b * 256 + c" "a < 256" "b < 256" "c < (256::nat)"
  shows "b64_nat (V div 2 ^ 18 # V div 2 ^ 12 mod 64 # V div 64 mod 64 # V mod 64 # vs) 0 0 =
      of_nat a # of_nat b # of_nat c # b64_nat vs 0 0"
    "c = 0 \<Longrightarrow> b64_nat [V div 2 ^ 18, V div 2 ^ 12 mod 64, V div 64 mod 64] 0 0 = [of_nat a, of_nat b]"
    "b64_nat [V div 2 ^ 18, V div 2 ^ 12 mod 64] 0 0 = [of_nat a]"
proof -
  have x2: "V div 262144 * 64 + V div 4096 mod 64 = V div 4096"
    using div_mult_mod_eq [of "V div 4096" 64] by (simp flip: div_mult2_eq)
  have a: "V div 4096 div 16 = a" using assms by (simp flip: div_mult2_eq add: div_nat_eqI)
  have x3: "V div 4096 mod 16 * 64 + V div 64 mod 64 = V div 64 mod 1024"
    using base_digits [of V 64 16] by simp
  have b: "V div 64 mod 1024 div 4 = b"
  proof -
    have "V div 64 mod 1024 div 4 = V div 64 div 4 mod 256"
      using mod_mult2_eq [of "V div 64" 4 256] by simp
    also have "V div 64 div 4 = a * 256 + b" using assms by (simp flip: div_mult2_eq add: div_nat_eqI)
    finally show ?thesis using assms by simp
  qed
  have x4: "V div 64 mod 1024 mod 4 * 64 + V mod 64 = c"
  proof -
    have "V div 64 mod 1024 mod 4 = V div 64 mod 4" by (simp add: mod_mod_cancel)
    then have "V div 64 mod 1024 mod 4 * 64 + V mod 64 = V mod 256"
      using base_digits [of V 1 4] by simp
    also have "\<dots> = c" using assms by (simp add: mod_nat_eqI)
    finally show ?thesis .
  qed
  show "b64_nat (V div 2 ^ 18 # V div 2 ^ 12 mod 64 # V div 64 mod 64 # V mod 64 # vs) 0 0 =
      of_nat a # of_nat b # of_nat c # b64_nat vs 0 0"
    using assms(4) arg_cong [OF x4, of "of_nat :: nat \<Rightarrow> u8"] by (simp add: Let_def x2 a x3 b)
  show "b64_nat [V div 2 ^ 18, V div 2 ^ 12 mod 64, V div 64 mod 64] 0 0 = [of_nat a, of_nat b]" if "c = 0"
    by (simp add: Let_def x2 a x3 b)
  show "b64_nat [V div 2 ^ 18, V div 2 ^ 12 mod 64] 0 0 = [of_nat a]"
    by (simp add: Let_def x2 a)
qed

lemma unat_pack3:
  "unat (push_bit 16 (ucast (a :: u8)) OR push_bit 8 (ucast (b :: u8)) OR ucast (c :: u8) :: u32) =
     unat a * 65536 + unat b * 256 + unat c"
proof -
  have p: "unat (push_bit 16 (ucast a) :: u32) = unat a * 65536" "unat (push_bit 8 (ucast b) :: u32) = unat b * 256"
    "unat (ucast c :: u32) = unat c"
    using unat_u8 [of a] unat_u8 [of b] unat_u8 [of c]
    by (simp_all add: unat_push_bit unsigned_ucast_eq take_bit_nat_eq_self)
  have "unat (push_bit 16 (ucast a) OR push_bit 8 (ucast b) OR ucast c :: u32) =
      (unat a * 256 * 2 ^ 8 OR unat b * 2 ^ 8) OR unat c"
    by (simp only: unsigned_or_eq p) (simp add: or.assoc mult.commute)
  also have "unat a * 256 * 2 ^ 8 OR unat b * 2 ^ 8 = (unat a * 256 + unat b) * 2 ^ 8"
    using or_eq_add_mult [of "unat b * 256" 16 "unat a"] unat_u8 [of b] by (simp add: algebra_simps)
  also have "(unat a * 256 + unat b) * 2 ^ 8 OR unat c = (unat a * 256 + unat b) * 2 ^ 8 + unat c"
    using unat_u8 [of c] by (intro or_eq_add_mult) simp
  finally show ?thesis by simp
qed

lemma b64_char_nat: "b64_char v k = kBase64Alphabet ! (unat v div 2 ^ k mod 64)"
  by (simp only: b64_char_def unsigned_and_eq unat_drop_bit) (simp add: nat_and_masks)

text \<open>The six-bit values of an encoding.\<close>

fun sextets :: "bytes \<Rightarrow> nat list" where
  "sextets (a # b # c # rest) =
     (let V = unat a * 65536 + unat b * 256 + unat c
      in V div 2 ^ 18 # V div 2 ^ 12 mod 64 # V div 64 mod 64 # V mod 64 # sextets rest)"
| "sextets [a] = (let V = unat a * 65536 in [V div 2 ^ 18, V div 2 ^ 12 mod 64])"
| "sextets [a, b] = (let V = unat a * 65536 + unat b * 256 in [V div 2 ^ 18, V div 2 ^ 12 mod 64, V div 64 mod 64])"
| "sextets [] = []"

lemma top_sextet:
  assumes "a < 256" "b < 256" "c < (256::nat)"
  shows "(a * 65536 + b * 256 + c) div 262144 < 64"
    "(a * 65536 + b * 256 + c) div 262144 mod 64 = (a * 65536 + b * 256 + c) div 262144"
proof -
  have "a * 65536 + b * 256 + c < 64 * 262144" using assms by simp
  then show "(a * 65536 + b * 256 + c) div 262144 < 64" by (rule less_mult_imp_div_less)
  then show "(a * 65536 + b * 256 + c) div 262144 mod 64 = (a * 65536 + b * 256 + c) div 262144" by simp
qed

lemma toBase64_sextets: "toBase64 d = map (\<lambda>v. kBase64Alphabet ! v) (sextets d) \<and> (\<forall>v\<in>set (sextets d). v < 64)"
proof (induction d rule: toBase64.induct)
  case (1 a b c rest)
  then show ?case
    using top_sextet [of "unat a" "unat b" "unat c"] unat_u8 by (simp add: Let_def b64_char_nat unat_pack3)
next
  case (2 a)
  then show ?case
    using top_sextet [of "unat a" 0 0] unat_u8 [of a] unat_pack3 [of a 0 0] by (simp add: Let_def b64_char_nat)
next
  case (3 a b)
  then show ?case
    using top_sextet [of "unat a" "unat b" 0] unat_u8 unat_pack3 [of a b 0] by (simp add: Let_def b64_char_nat)
qed simp

lemma sextets_decode: "b64_nat (sextets d) 0 0 = d"
proof (induction d rule: sextets.induct)
  case (1 a b c rest)
  then show ?case
    using group_nat(1) [of _ "unat a" "unat b" "unat c", OF refl unat_u8 unat_u8 unat_u8] by (simp only: sextets.simps Let_def) simp
next
  case (2 a)
  then show ?case using group_nat(3) [of "unat a * 65536" "unat a" 0 0] unat_u8 [of a]
    by (simp only: sextets.simps Let_def) simp
next
  case (3 a b)
  then show ?case using group_nat(2) [of "unat a * 65536 + unat b * 256" "unat a" "unat b" 0] unat_u8
    by (simp only: sextets.simps Let_def) simp
qed simp

section \<open>Properties\<close>

text \<open>
  Decoding the base64 encoding of any byte string returns it, and the encoding uses only
  letters, digits, hyphen and underscore, with four characters for three bytes and no padding.
\<close>

theorem base64_roundtrip:
  "fromBase64 (toBase64 d) = d \<and> set (toBase64 d) \<subseteq> set kBase64Alphabet \<and>
   length (toBase64 d) = (4 * length d + 2) div 3"
proof (intro conjI)
  note s = toBase64_sextets [of d]
  show "fromBase64 (toBase64 d) = d"
    using b64_loop_nat [of "sextets d" 0 0] s sextets_decode [of d] by (simp add: fromBase64_def)
  have "length kBase64Alphabet = 64" by code_simp
  then show "set (toBase64 d) \<subseteq> set kBase64Alphabet" using s by auto
  show "length (toBase64 d) = (4 * length d + 2) div 3"
    by (induction d rule: toBase64.induct) (simp_all add: Let_def)
qed

text \<open>
  A box derived from a password seals what a box derived from the same password and salt opens,
  with a fresh salt and nonce of the documented sizes; and it opens nothing but what was sealed
  under its key.
\<close>

lemma box_seals:
  assumes "sodium_laws sd" and "deriveFromPassword sd pw r = ((box, salt), r1)" and "initialized box"
    and "plaintext \<noteq> []" and "box_encrypt sd box plaintext r1 = (blob, r2)" and "sd_init sd"
  shows "box_decrypt sd (derive_with_salt sd pw salt) blob = Some plaintext \<and>
    length salt = kSaltSize \<and> length (eb_nonce blob) = kNonceSize \<and>
    (\<forall>blob' m. box_decrypt sd box blob' = Some m \<longrightarrow>
       eb_ciphertext blob' = sd_seal sd box (eb_nonce blob') m)"
proof -
  have salt: "length salt = kSaltSize" "box = derive_with_salt sd pw salt"
    using assms(2,3) by (auto simp: deriveFromPassword_def initialized_def Let_def split: prod.splits if_splits)
  have "length (fst (randomBytes sd kNonceSize r1)) = kNonceSize"
    using assms(1,6) by (simp add: randomBytes_def kNonceSize_def sodium_laws_def)
  then have blob: "length (eb_nonce blob) = kNonceSize" "eb_ciphertext blob = sd_seal sd box (eb_nonce blob) plaintext"
    using assms(3-5) by (auto simp: box_encrypt_def split: prod.splits)
  have "\<not> length (sd_seal sd box (eb_nonce blob) plaintext) < 16"
    "sd_open sd box (eb_nonce blob) (sd_seal sd box (eb_nonce blob) plaintext) = Some plaintext"
    using assms(1) by (simp_all add: sodium_laws_def)
  then have "box_decrypt sd box blob = Some plaintext" using blob assms(3) by (simp add: box_decrypt_def)
  moreover have "eb_ciphertext blob' = sd_seal sd box (eb_nonce blob') m" if "box_decrypt sd box blob' = Some m" for blob' m
    using that assms(1) by (auto simp: box_decrypt_def sodium_laws_def split: if_splits)
  ultimately show ?thesis using salt blob by simp
qed

text \<open>A toy instance that meets the laws: the password's length as key and a tag of sixteen copies of it.\<close>

definition toy_sodium :: "unit sodium" where
  "toy_sodium = \<lparr>sd_init = True, sd_random = (\<lambda>r n. (replicate n 7, r)),
     sd_pwhash = (\<lambda>p s. Some (replicate 32 (of_nat (length p)))),
     sd_seal = (\<lambda>k n m. m @ replicate 16 (hd k)),
     sd_open = (\<lambda>k n c. if 16 \<le> length c \<and> drop (length c - 16) c = replicate 16 (hd k)
        then Some (take (length c - 16) c) else None)\<rparr>"

lemma toy_sodium_laws: "sodium_laws toy_sodium"
  by (auto simp: sodium_laws_def toy_sodium_def kKeySize_def) (metis append_take_drop_id)

lemma toy_derive: "deriveFromPassword toy_sodium pw () = ((replicate 32 (of_nat (length pw)), replicate 16 7), ())"
  by (simp add: deriveFromPassword_def toy_sodium_def randomBytes_def kSaltSize_def derive_with_salt_def
      initialized_def)

lemma box_seals_toy:
  "box_decrypt toy_sodium (replicate 32 2) (fst (box_encrypt toy_sodium (replicate 32 2) [1, 2, 3] ())) =
     Some [1, 2, 3]"
proof -
  have d: "deriveFromPassword toy_sodium ''pw'' () = ((replicate 32 2, replicate 16 7), ())"
    by (simp add: toy_derive)
  have i: "initialized (replicate 32 (2 :: u8))" "sd_init toy_sodium" "derive_with_salt toy_sodium ''pw'' (replicate 16 7) = replicate 32 2"
    by (simp_all add: initialized_def toy_sodium_def derive_with_salt_def)
  from box_seals [OF toy_sodium_laws d i(1) _ prod.collapse [symmetric] i(2), of "[1, 2, 3]"] i(3)
  show ?thesis by simp
qed

text \<open>Without libsodium the bytes are always the same, so every key and token drawn is known.\<close>

lemma fallback_constant: "fallbackRandomBytes 2 = [173, 96]"
  by code_simp

end
