(* ===== verification/Snapshot.thy ===== *)
theory Snapshot
  imports Document Crypto
begin

text \<open>
  The index snapshots of \<open>src/snapshot.cpp\<close>: the length-prefixed binary format, its reader with
  all error branches, and the plain and the encrypted file. The reader's position is the suffix it
  still has to read. A locale states what a field codec promises; the integer, string and document
  codecs interpret it, so round trips and the rejection of truncated data follow once for all.
\<close>

section \<open>The format\<close>

definition kSnapshotVersion :: u32 where "kSnapshotVersion = 1"

definition kMagic :: string where "kMagic = ''SHSE1'' @ [char_of (0 :: nat)]"

definition pushU32 :: "string \<Rightarrow> u32 \<Rightarrow> string" where
  "pushU32 out v = out @ [char_of_word (v AND 0xFF), char_of_word (drop_bit 8 v AND 0xFF),
     char_of_word (drop_bit 16 v AND 0xFF), char_of_word (drop_bit 24 v AND 0xFF)]"

definition pushU8 :: "string \<Rightarrow> u8 \<Rightarrow> string" where
  "pushU8 out v = out @ [char_of_word v]"

definition pushStr :: "string \<Rightarrow> string \<Rightarrow> string" where
  "pushStr out s = pushU32 out (of_nat (length s)) @ s"

type_synonym 'a reader = "string \<Rightarrow> ('a \<times> string) option"

fun readU8 :: "u8 reader" where
  "readU8 (a # r) = Some (byte_of a, r)"
| "readU8 [] = None"

fun readU32 :: "u32 reader" where
  "readU32 (a # b # c # d # r) =
     Some (byte_of a OR push_bit 8 (byte_of b) OR push_bit 16 (byte_of c) OR push_bit 24 (byte_of d), r)"
| "readU32 _ = None"

definition readStr :: "string reader" where
  "readStr s =
     (case readU32 s of
        None \<Rightarrow> None
      | Some (len, r) \<Rightarrow> if length r < unat len then None else Some (take (unat len) r, drop (unat len) r))"

definition source_byte :: "source_type \<Rightarrow> u8" where
  "source_byte s = (case s of ClearWeb \<Rightarrow> 0 | Onion \<Rightarrow> 1)"

definition serializeOne :: "document \<Rightarrow> string" where
  "serializeOne d =
     (let out = pushStr [] (doc_url d);
          out = pushStr out (doc_title d);
          out = pushStr out (doc_snippet d);
          out = pushStr out (doc_content d);
          out = pushU8 out (source_byte (doc_source d))
      in pushU32 out (doc_depth d))"

definition serializeDocuments :: "document list \<Rightarrow> string" where
  "serializeDocuments docs =
     (let out = kMagic;
          out = pushU32 out kSnapshotVersion;
          out = pushU32 out (of_nat (length docs))
      in fold (\<lambda>d out. out @ serializeOne d) docs out)"

text \<open>The body of the reading loop: one document.\<close>

definition readDocument :: "document reader" where
  "readDocument s =
     Option.bind (readStr s) (\<lambda>(url, s).
     Option.bind (readStr s) (\<lambda>(title, s).
     Option.bind (readStr s) (\<lambda>(snippet, s).
     Option.bind (readStr s) (\<lambda>(content, s).
     Option.bind (readU8 s) (\<lambda>(source, s).
     Option.bind (readU32 s) (\<lambda>(depth, s).
       Some (empty_document\<lparr>doc_url := url, doc_title := title, doc_snippet := snippet,
               doc_content := content, doc_source := (if source = 1 then Onion else ClearWeb),
               doc_depth := depth\<rparr>, s)))))))"

fun readMany :: "'a reader \<Rightarrow> nat \<Rightarrow> 'a list reader" where
  "readMany rd 0 s = Some ([], s)"
| "readMany rd (Suc n) s =
     (case rd s of
        None \<Rightarrow> None
      | Some (x, s) \<Rightarrow> map_option (\<lambda>(xs, s). (x # xs, s)) (readMany rd n s))"

text \<open>The reader; \<open>Inl\<close> carries the error message. The third component of a success is unread.\<close>

definition deserializeRest :: "string \<Rightarrow> string + document list \<times> string" where
  "deserializeRest data =
     (if length data < 6 \<or> take 6 data \<noteq> kMagic then Inl ''not a Shadow SE snapshot (bad magic)''
      else case readU32 (drop 6 data) of
        None \<Rightarrow> Inl ''unsupported snapshot version''
      | Some (version, s) \<Rightarrow>
          if version \<noteq> kSnapshotVersion then Inl ''unsupported snapshot version''
          else case readU32 s of
            None \<Rightarrow> Inl ''corrupt snapshot header''
          | Some (n, s) \<Rightarrow>
              if 10000000 < n then Inl ''snapshot declares an implausible document count''
              else case readMany readDocument (unat n) s of
                None \<Rightarrow> Inl ''corrupt snapshot body''
              | Some (docs, s) \<Rightarrow> Inr (docs, s))"

definition deserializeDocuments :: "string \<Rightarrow> string + document list" where
  "deserializeDocuments data = map_sum id fst (deserializeRest data)"

section \<open>Files\<close>

text \<open>
  The file system: contents, the paths that can be opened for writing, and what a write that
  fails leaves behind (\<open>None\<close> when it succeeds).
\<close>

record disk =
  dk_files :: "string \<Rightarrow> string option"
  dk_writable :: "string \<Rightarrow> bool"
  dk_partial :: "string \<Rightarrow> string \<Rightarrow> string option"

definition write_file :: "string \<Rightarrow> string \<Rightarrow> disk \<Rightarrow> (string + unit) \<times> disk" where
  "write_file path data dk =
     (if \<not> dk_writable dk path then (Inl (''cannot open '' @ path @ '' for writing''), dk)
      else case dk_partial dk path data of
        Some part \<Rightarrow> (Inl (''failed to write '' @ path), dk\<lparr>dk_files := (dk_files dk)(path \<mapsto> part)\<rparr>)
      | None \<Rightarrow> (Inr (), dk\<lparr>dk_files := (dk_files dk)(path \<mapsto> data)\<rparr>))"

definition saveSnapshot :: "string \<Rightarrow> document list \<Rightarrow> disk \<Rightarrow> (string + unit) \<times> disk" where
  "saveSnapshot path docs dk = (let data = serializeDocuments docs in write_file path data dk)"

definition loadSnapshot :: "string \<Rightarrow> disk \<Rightarrow> string + document list" where
  "loadSnapshot path dk =
     (case dk_files dk path of
        None \<Rightarrow> Inl (''cannot open '' @ path @ '' for reading'')
      | Some data \<Rightarrow> deserializeDocuments data)"

definition to_bytes :: "string \<Rightarrow> bytes" where
  "to_bytes s = map byte_of s"

definition of_bytes :: "bytes \<Rightarrow> string" where
  "of_bytes b = map char_of_word b"

text \<open>The in-memory bytes of a 64-bit length on a little-endian machine.\<close>

definition bytesU64 :: "u64 \<Rightarrow> string" where
  "bytesU64 v = map (\<lambda>k. char_of_word (drop_bit (8 * k) v AND 0xFF)) [0..<8]"

definition readU64 :: "string \<Rightarrow> u64" where
  "readU64 s = foldr (\<lambda>c v. push_bit 8 v OR byte_of c) (take 8 s) 0"

definition saveEncryptedSnapshot ::
    "'r sodium \<Rightarrow> string \<Rightarrow> string \<Rightarrow> document list \<Rightarrow> 'r \<Rightarrow> disk \<Rightarrow> (string + unit) \<times> 'r \<times> disk" where
  "saveEncryptedSnapshot sd path password docs r dk =
     (let ((box, salt), r) = deriveFromPassword sd password r
      in if \<not> initialized box \<or> length salt \<noteq> kSaltSize
         then (Inl ''key derivation failed (libsodium unavailable?)'', r, dk)
         else
           let plaintext = serializeDocuments docs;
               (blob, r) = box_encrypt sd box (to_bytes plaintext) r
           in if length (eb_nonce blob) \<noteq> kNonceSize \<or> eb_ciphertext blob = []
              then (Inl ''encryption failed'', r, dk)
              else
                let data = kMagic @ of_bytes salt @ of_bytes (eb_nonce blob) @
                      bytesU64 (of_nat (length (eb_ciphertext blob))) @ of_bytes (eb_ciphertext blob);
                    (res, dk) = write_file path data dk
                in (res, r, dk))"

definition loadEncryptedSnapshot ::
    "'r sodium \<Rightarrow> string \<Rightarrow> string \<Rightarrow> disk \<Rightarrow> string + document list" where
  "loadEncryptedSnapshot sd path password dk =
     (case dk_files dk path of
        None \<Rightarrow> Inl (''cannot open '' @ path @ '' for reading'')
      | Some file \<Rightarrow>
          if length file < 6 + kSaltSize + kNonceSize + 8
          then Inl ''file too short to be an encrypted snapshot''
          else if take 6 file \<noteq> kMagic then Inl ''not an encrypted Shadow SE snapshot (bad magic)''
          else
            let p = 6;
                salt = to_bytes (take kSaltSize (drop p file));
                p = p + kSaltSize;
                nonce = to_bytes (take kNonceSize (drop p file));
                p = p + kNonceSize;
                clen = readU64 (drop p file);
                p = p + 8
            in if length file - p < unat clen then Inl ''snapshot length field is inconsistent''
               else
                 let ciphertext = to_bytes (take (unat clen) (drop p file));
                     box = derive_with_salt sd password salt
                 in if \<not> initialized box then Inl ''key derivation failed''
                    else case box_decrypt sd box \<lparr>eb_nonce = nonce, eb_ciphertext = ciphertext\<rparr> of
                      None \<Rightarrow> Inl ''decryption failed (wrong password or tampered file)''
                    | Some plaintext \<Rightarrow> deserializeDocuments (of_bytes plaintext))"

section \<open>Codecs\<close>

locale codec =
  fixes enc :: "'a \<Rightarrow> string" and dec :: "'a reader" and ok :: "'a \<Rightarrow> bool"
  assumes dec_enc: "ok x \<Longrightarrow> dec (enc x @ s) = Some (x, s)"
    and dec_more: "dec s = Some (x, r) \<Longrightarrow> dec (s @ t) = Some (x, r @ t)"
begin

lemma many_enc:
  "\<forall>x\<in>set xs. ok x \<Longrightarrow> readMany dec (length xs) (concat (map enc xs) @ s) = Some (xs, s)"
  by (induction xs) (simp_all add: dec_enc)

lemma many_more:
  "readMany dec n s = Some (xs, r) \<Longrightarrow> readMany dec n (s @ t) = Some (xs, r @ t)"
  by (induction n arbitrary: s xs) (auto simp: dec_more split: option.splits)

end

text \<open>A byte that came from a word is the low eight bits of that word.\<close>

lemma byte_of_char: "(byte_of (char_of_word (w :: 'a::len word)) :: u32) = of_nat (unat w mod 256)"
  "(byte_of (char_of_word w) :: u64) = of_nat (unat w mod 256)"
  by (simp_all add: byte_of_def)

lemma and_255: "unat (w AND 0xFF :: 'a::len word) = (if 8 \<le> LENGTH('a) then unat w mod 256 else unat (w AND 0xFF))"
proof (cases "8 \<le> LENGTH('a)")
  case True
  have "w AND 0xFF = take_bit 8 w" by (simp add: take_bit_eq_mask mask_eq_exp_minus_1)
  then have "unat (w AND 0xFF) = take_bit 8 (unat w)" by (simp add: unsigned_take_bit_eq)
  with True show ?thesis by (simp add: take_bit_eq_mod)
qed simp

lemma byte_of_low: "(byte_of (char_of_word ((w :: u32) AND 0xFF)) :: u32) = w AND 0xFF"
  "(byte_of (char_of_word ((v :: u64) AND 0xFF)) :: u64) = v AND 0xFF"
  by (simp_all add: word_unat_eq_iff unat_byte_of and_255 mod_mod_cancel)

lemma u32_bytes: "(v AND 0xFF) OR push_bit 8 (drop_bit 8 v AND 0xFF) OR push_bit 16 (drop_bit 16 v AND 0xFF) OR
    push_bit 24 (drop_bit 24 v AND 0xFF) = (v :: u32)"
proof -
  have m: "w AND 0xFF = take_bit 8 w" for w :: u32 by (simp add: take_bit_eq_mask mask_eq_exp_minus_1)
  show ?thesis
    unfolding m
  proof (rule bit_word_eqI)
    fix n assume "n < LENGTH(32)"
    then consider "n < 8" | "8 \<le> n" "n < 16" | "16 \<le> n" "n < 24" | "24 \<le> n" "n < 32" by fastforce
    then show "bit (take_bit 8 v OR push_bit 8 (take_bit 8 (drop_bit 8 v)) OR push_bit 16 (take_bit 8 (drop_bit 16 v)) OR
        push_bit 24 (take_bit 8 (drop_bit 24 v))) n = bit v n"
      by cases (auto simp: bit_simps)
  qed
qed

lemma readU32_push: "readU32 (pushU32 [] v @ s) = Some (v, s)"
  by (simp only: pushU32_def append_Nil append_Cons readU32.simps byte_of_low u32_bytes)

interpretation u32: codec "pushU32 []" readU32 "\<lambda>v. True"
proof
  fix s t :: string and x r
  assume "readU32 s = Some (x, r)"
  then show "readU32 (s @ t) = Some (x, r @ t)" by (induction s rule: readU32.induct) simp_all
qed (rule readU32_push)

interpretation u8: codec "pushU8 []" readU8 "\<lambda>v. True"
proof
  fix s t :: string and x r
  assume "readU8 s = Some (x, r)"
  then show "readU8 (s @ t) = Some (x, r @ t)" by (cases s) simp_all
next
  fix x :: u8 and s
  show "readU8 (pushU8 [] x @ s) = Some (x, s)"
    using unat_u8 [of x] by (simp add: pushU8_def word_unat_eq_iff)
qed

definition short :: "string \<Rightarrow> bool" where
  "short s \<longleftrightarrow> length s < 2 ^ 32"

interpretation str: codec "pushStr []" readStr short
proof
  fix x s assume "short x"
  then show "readStr (pushStr [] x @ s) = Some (x, s)"
    by (simp add: readStr_def pushStr_def u32.dec_enc short_def unat_of_nat_u32)
next
  fix s t x r assume "readStr s = Some (x, r)"
  then show "readStr (s @ t) = Some (x, r @ t)"
  proof -
    obtain len r0 where *: "readU32 s = Some (len, r0)" "\<not> length r0 < unat len"
      "x = take (unat len) r0" "r = drop (unat len) r0"
      using \<open>readStr s = Some (x, r)\<close> by (auto simp: readStr_def split: option.splits if_splits)
    from u32.dec_more [OF *(1), of t] *(2-) show ?thesis by (simp add: readStr_def)
  qed
qed

text \<open>Documents whose fields have lengths the format can express.\<close>

definition doc_ok :: "document \<Rightarrow> bool" where
  "doc_ok d \<longleftrightarrow> doc_id d = 0 \<and> short (doc_url d) \<and> short (doc_title d) \<and> short (doc_snippet d) \<and> short (doc_content d)"

lemma pushes_append: "pushU32 out v = out @ pushU32 [] v" "pushU8 out b = out @ pushU8 [] b" "pushStr out s = out @ pushStr [] s"
  by (simp_all add: pushU32_def pushU8_def pushStr_def)

lemma serializeOne_append:
  "serializeOne d @ s = pushStr [] (doc_url d) @ pushStr [] (doc_title d) @ pushStr [] (doc_snippet d) @
     pushStr [] (doc_content d) @ pushU8 [] (source_byte (doc_source d)) @ pushU32 [] (doc_depth d) @ s"
proof -
  have "serializeOne d = pushStr [] (doc_url d) @ pushStr [] (doc_title d) @ pushStr [] (doc_snippet d) @
     pushStr [] (doc_content d) @ pushU8 [] (source_byte (doc_source d)) @ pushU32 [] (doc_depth d)"
    unfolding serializeOne_def Let_def
    by (subst pushes_append(1), subst pushes_append(2), subst pushes_append(3), subst (2) pushes_append(3),
        subst (3) pushes_append(3)) (simp only: append_assoc)
  then show ?thesis by simp
qed

interpretation doc: codec serializeOne readDocument doc_ok
proof
  fix d s assume d: "doc_ok d"
  have src: "(if source_byte (doc_source d) = 1 then Onion else ClearWeb) = doc_source d"
    by (cases "doc_source d") (simp_all add: source_byte_def)
  have "empty_document\<lparr>doc_url := doc_url d, doc_title := doc_title d, doc_snippet := doc_snippet d,
      doc_content := doc_content d, doc_source := doc_source d, doc_depth := doc_depth d\<rparr> = d"
    using d by (cases d) (simp add: doc_ok_def empty_document_def)
  then show "readDocument (serializeOne d @ s) = Some (d, s)"
    using d by (simp add: readDocument_def serializeOne_append doc_ok_def str.dec_enc u8.dec_enc u32.dec_enc src)
next
  fix s t x r assume "readDocument s = Some (x, r)"
  then show "readDocument (s @ t) = Some (x, r @ t)"
  proof -
    obtain u s1 v s2 w s3 y s4 b s5 n where r: "readStr s = Some (u, s1)" "readStr s1 = Some (v, s2)"
      "readStr s2 = Some (w, s3)" "readStr s3 = Some (y, s4)" "readU8 s4 = Some (b, s5)" "readU32 s5 = Some (n, r)"
      and x: "x = empty_document\<lparr>doc_url := u, doc_title := v, doc_snippet := w, doc_content := y,
        doc_source := (if b = 1 then Onion else ClearWeb), doc_depth := n\<rparr>"
      using \<open>readDocument s = Some (x, r)\<close> by (auto simp: readDocument_def bind_eq_Some_conv)
    show ?thesis
      unfolding readDocument_def x
      by (simp only: r(1-4) [THEN str.dec_more, of t] r(5) [THEN u8.dec_more, of t]
          r(6) [THEN u32.dec_more, of t] Option.bind.bind_lunit prod.case)
  qed
qed

section \<open>The whole file\<close>

lemma fold_serialize: "fold (\<lambda>d out. out @ serializeOne d) docs out = out @ concat (map serializeOne docs)"
  by (induction docs arbitrary: out) simp_all

lemma serializeDocuments_eq:
  "serializeDocuments docs = kMagic @ pushU32 [] kSnapshotVersion @ pushU32 [] (of_nat (length docs)) @
     concat (map serializeOne docs)"
  unfolding serializeDocuments_def Let_def fold_serialize
  by (subst pushes_append(1), subst (2) pushes_append(1)) (simp only: append_assoc)

lemma kMagic_length: "length kMagic = 6"
  by (simp add: kMagic_def)

lemma deserialize_serialize:
  assumes "\<forall>d\<in>set docs. doc_ok d" "length docs \<le> 10000000"
  shows "deserializeRest (serializeDocuments docs) = Inr (docs, [])"
proof -
  have n: "unat (of_nat (length docs) :: u32) = length docs" using assms(2) by (intro unat_of_nat_u32) simp
  then have "\<not> 10000000 < (of_nat (length docs) :: u32)" using assms(2) by (simp add: word_less_nat_alt)
  then show ?thesis
    using doc.many_enc [OF assms(1), of "[]"] n
    by (simp add: deserializeRest_def serializeDocuments_eq kMagic_length u32.dec_enc)
qed

lemma deserialize_more:
  assumes "deserializeRest s = Inr (docs, r)"
  shows "deserializeRest (s @ t) = Inr (docs, r @ t)"
proof -
  obtain v s1 n s2 where r: "6 \<le> length s" "take 6 s = kMagic" "readU32 (drop 6 s) = Some (v, s1)"
    "v = kSnapshotVersion" "readU32 s1 = Some (n, s2)" "\<not> 10000000 < n"
    "readMany readDocument (unat n) s2 = Some (docs, r)"
    using assms by (auto simp: deserializeRest_def split: if_splits option.splits)
  from r(1) have d: "drop 6 (s @ t) = drop 6 s @ t" "take 6 (s @ t) = take 6 s" "\<not> length (s @ t) < 6" by simp_all
  show ?thesis
    unfolding deserializeRest_def d
    using r(1,2,4,6) by (simp add: u32.dec_more [OF r(3), of t] u32.dec_more [OF r(5), of t] doc.many_more [OF r(7), of t])
qed

lemma serialize_no_id: "serializeOne (d\<lparr>doc_id := i\<rparr>) = serializeOne d"
  by (simp add: serializeOne_def)

definition storable :: "document list \<Rightarrow> bool" where
  "storable docs \<longleftrightarrow> length docs \<le> 10000000 \<and>
     (\<forall>d\<in>set docs. short (doc_url d) \<and> short (doc_title d) \<and> short (doc_snippet d) \<and> short (doc_content d))"

abbreviation anonymous :: "document list \<Rightarrow> document list" where
  "anonymous docs \<equiv> map (\<lambda>d. d\<lparr>doc_id := 0\<rparr>) docs"

lemma serialize_anonymous: "serializeDocuments (anonymous docs) = serializeDocuments docs"
  by (simp add: serializeDocuments_eq serialize_no_id comp_def)

lemma storable_roundtrip:
  "storable docs \<Longrightarrow> deserializeRest (serializeDocuments docs) = Inr (anonymous docs, [])"
  using deserialize_serialize [of "anonymous docs"]
  by (simp add: storable_def doc_ok_def serialize_anonymous)

section \<open>The encrypted file\<close>

lemma write_file_ok: "write_file path data dk = (Inr (), dk') \<Longrightarrow> dk_files dk' path = Some data"
  by (auto simp: write_file_def split: if_splits option.splits)

lemma save_encrypted_ok:
  assumes "deriveFromPassword sd pw r = ((box, salt), r1)"
    and "box_encrypt sd box (to_bytes (serializeDocuments docs)) r1 = (blob, r2)"
    and "saveEncryptedSnapshot sd path pw docs r dk = (Inr (), r', dk')"
  shows "initialized box" "length salt = kSaltSize" "length (eb_nonce blob) = kNonceSize"
    "dk_files dk' path = Some (kMagic @ of_bytes salt @ of_bytes (eb_nonce blob) @
       bytesU64 (of_nat (length (eb_ciphertext blob))) @ of_bytes (eb_ciphertext blob))"
proof -
  let ?data = "kMagic @ of_bytes salt @ of_bytes (eb_nonce blob) @
       bytesU64 (of_nat (length (eb_ciphertext blob))) @ of_bytes (eb_ciphertext blob)"
  obtain res dk1 where w: "write_file path ?data dk = (res, dk1)" by fastforce
  have "(if \<not> initialized box \<or> length salt \<noteq> kSaltSize
      then (Inl ''key derivation failed (libsodium unavailable?)'', r1, dk)
      else if length (eb_nonce blob) \<noteq> kNonceSize \<or> eb_ciphertext blob = []
        then (Inl ''encryption failed'', r2, dk) else (res, r2, dk1)) = (Inr (), r', dk')"
    using assms(3) unfolding saveEncryptedSnapshot_def assms(1) prod.case Let_def assms(2) w .
  then have "initialized box \<and> length salt = kSaltSize \<and> length (eb_nonce blob) = kNonceSize \<and>
      res = Inr () \<and> dk1 = dk'" by (simp split: if_splits)
  with write_file_ok [of path ?data dk dk'] w
  show "initialized box" "length salt = kSaltSize" "length (eb_nonce blob) = kNonceSize"
    "dk_files dk' path = Some ?data" by simp_all
qed

lemma to_of_bytes [simp]: "to_bytes (of_bytes b) = b" "of_bytes (to_bytes s) = s"
proof -
  have "byte_of (char_of_word (w :: u8)) = w" for w using unat_u8 [of w] by (simp add: word_unat_eq_iff)
  then show "to_bytes (of_bytes b) = b" by (simp add: to_bytes_def of_bytes_def comp_def)
  show "of_bytes (to_bytes s) = s" by (simp add: to_bytes_def of_bytes_def comp_def char_of_word_byte_of)
qed

lemma length_bytes [simp]: "length (to_bytes s) = length s" "length (of_bytes b) = length b" "length (bytesU64 v) = 8"
  by (simp_all add: to_bytes_def of_bytes_def bytesU64_def)

lemma readU64_loop:
  "foldr (\<lambda>c v. push_bit 8 v OR byte_of c) (map (\<lambda>k. char_of_word (drop_bit (8 * k) v AND 0xFF)) [0..<n]) 0 =
     take_bit (8 * n) (v :: u64)"
proof (induction n arbitrary: v)
  case (Suc n)
  have u: "[0..<Suc n] = 0 # map Suc [0..<n]" by (metis upt_conv_Cons map_Suc_upt zero_less_Suc)
  have m: "(\<lambda>k. char_of_word (drop_bit (8 * Suc k) v AND 0xFF)) = (\<lambda>k. char_of_word (drop_bit (8 * k) (drop_bit 8 v) AND 0xFF))"
    by (simp add: algebra_simps)
  have "foldr (\<lambda>c v. push_bit 8 v OR byte_of c) (map (\<lambda>k. char_of_word (drop_bit (8 * k) v AND 0xFF)) [0..<Suc n]) 0 =
      push_bit 8 (take_bit (8 * n) (drop_bit 8 v)) OR (v AND 0xFF)"
    unfolding u using Suc.IH [of "drop_bit 8 v"] m by (simp add: comp_def byte_of_low)
  also have "v AND 0xFF = take_bit 8 v" by (simp add: take_bit_eq_mask mask_eq_exp_minus_1)
  also have "push_bit 8 (take_bit (8 * n) (drop_bit 8 v)) OR take_bit 8 v = take_bit (8 * Suc n) v"
    by (rule bit_word_eqI) (auto simp: bit_simps)
  finally show ?case .
qed simp

lemma readU64_bytes: "readU64 (bytesU64 v @ s) = v"
proof -
  have "take 8 (bytesU64 v @ s) = bytesU64 v" by simp
  then show ?thesis
    using readU64_loop [of v 8] by (simp only: readU64_def bytesU64_def) (simp add: take_bit_word_eq_self)
qed

definition parse_encrypted :: "string \<Rightarrow> (bytes \<times> bytes \<times> bytes) option" where
  "parse_encrypted file =
     (if length file < 54 \<or> take 6 file \<noteq> kMagic \<or> length file - 54 < unat (readU64 (drop 46 file)) then None
      else Some (to_bytes (take 16 (drop 6 file)), to_bytes (take 24 (drop 22 file)),
                 to_bytes (take (unat (readU64 (drop 46 file))) (drop 54 file))))"


lemma load_encrypted_ok:
  assumes "dk_files dk path = Some file" "parse_encrypted file = Some (salt, nonce, cipher)"
    "initialized (derive_with_salt sd pw salt)"
    "box_decrypt sd (derive_with_salt sd pw salt) \<lparr>eb_nonce = nonce, eb_ciphertext = cipher\<rparr> = Some plain"
  shows "loadEncryptedSnapshot sd path pw dk = deserializeDocuments (of_bytes plain)"
  using assms
  by (auto simp: loadEncryptedSnapshot_def parse_encrypted_def kSaltSize_def kNonceSize_def Let_def split: if_splits)

lemma parse_encrypted_file:
  assumes "length salt = 16" "length nonce = 24" "length cipher < 2 ^ 64"
  shows "parse_encrypted (kMagic @ of_bytes salt @ of_bytes nonce @ bytesU64 (of_nat (length cipher)) @ of_bytes cipher) =
    Some (salt, nonce, cipher)"
proof -
  have "unat (readU64 (bytesU64 (of_nat (length cipher)) @ of_bytes cipher)) = length cipher"
    using assms(3) by (simp add: readU64_bytes unat_of_nat_u64)
  with assms(1,2) show ?thesis by (simp add: parse_encrypted_def kMagic_length)
qed

section \<open>Properties\<close>

lemma load_saved:
  assumes "storable docs" "saveSnapshot path docs dk = (Inr (), dk')"
  shows "loadSnapshot path dk' = Inr (anonymous docs)"
proof -
  have "dk_files dk' path = Some (serializeDocuments docs)"
    using assms(2) by (auto simp: saveSnapshot_def write_file_def Let_def split: if_splits option.splits)
  then show ?thesis
    by (simp add: loadSnapshot_def deserializeDocuments_def storable_roundtrip [OF assms(1)])
qed

abbreviation sample_docs :: "document list" where
  "sample_docs \<equiv> [empty_document\<lparr>doc_id := 7, doc_url := ''http://a/'', doc_title := ''A''\<rparr>]"

abbreviation good_disk :: disk where
  "good_disk \<equiv> \<lparr>dk_files = Map.empty, dk_writable = (\<lambda>p. True), dk_partial = (\<lambda>p d. None)\<rparr>"

lemma sample_storable: "storable sample_docs"
  by (simp add: storable_def short_def empty_document_def)

text \<open>C33: A snapshot cut short anywhere, in its header or inside a document, is rejected.\<close>

theorem snapshot_truncated:
  assumes "storable docs" "serializeDocuments docs = p @ q" "q \<noteq> []"
  shows "\<exists>e. deserializeDocuments p = Inl e"
proof (cases "deserializeRest p")
  case (Inl e)
  then show ?thesis by (simp add: deserializeDocuments_def)
next
  case (Inr x)
  then obtain ds r where "deserializeRest p = Inr (ds, r)" by (cases x) simp
  from deserialize_more [OF this, of q] storable_roundtrip [OF assms(1)] assms(2,3) show ?thesis by simp
qed

theorem snapshot_truncated_witness:
  "\<exists>e. deserializeDocuments (kMagic @ [char_of (1 :: nat)]) = Inl e"
proof (rule snapshot_truncated)
  show "storable []" by (simp add: storable_def)
  show "serializeDocuments [] = (kMagic @ [char_of (1 :: nat)]) @ replicate 7 (char_of (0 :: nat))" by code_simp
qed simp

text \<open>
  A saved encrypted snapshot loads under the same password as the same documents, for
  every encryption library that meets its documented laws.
\<close>

lemma encrypted_roundtrip:
  assumes "sodium_laws sd" "sd_init sd" "storable docs" "length (serializeDocuments docs) < 2 ^ 63"
    and "saveEncryptedSnapshot sd path pw docs r dk = (Inr (), r', dk')"
  shows "loadEncryptedSnapshot sd path pw dk' = Inr (anonymous docs)"
proof -
  obtain box salt r1 where d: "deriveFromPassword sd pw r = ((box, salt), r1)" by (metis prod.collapse)
  obtain blob r2 where e: "box_encrypt sd box (to_bytes (serializeDocuments docs)) r1 = (blob, r2)" by fastforce
  have ne: "to_bytes (serializeDocuments docs) \<noteq> []"
    by (simp add: serializeDocuments_eq kMagic_def to_bytes_def)
  note ok = save_encrypted_ok [OF d e assms(5)]
  note rt = box_seals [OF assms(1) d ok(1) ne e assms(2)]
  have box: "box = derive_with_salt sd pw salt"
    using d ok(1) by (auto simp: deriveFromPassword_def initialized_def Let_def split: prod.splits if_splits)
  have "box_decrypt sd box blob = Some (to_bytes (serializeDocuments docs))" using rt box by simp
  with rt have "eb_ciphertext blob = sd_seal sd box (eb_nonce blob) (to_bytes (serializeDocuments docs))" by blast
  then have "length (eb_ciphertext blob) < 2 ^ 64" using assms(1,4) by (simp add: sodium_laws_def)
  then have "parse_encrypted (kMagic @ of_bytes salt @ of_bytes (eb_nonce blob) @
      bytesU64 (of_nat (length (eb_ciphertext blob))) @ of_bytes (eb_ciphertext blob)) =
      Some (salt, eb_nonce blob, eb_ciphertext blob)"
    using ok(2,3) by (intro parse_encrypted_file) (simp_all add: kSaltSize_def kNonceSize_def)
  moreover have "box_decrypt sd (derive_with_salt sd pw salt)
      \<lparr>eb_nonce = eb_nonce blob, eb_ciphertext = eb_ciphertext blob\<rparr> = Some (to_bytes (serializeDocuments docs))"
  proof -
    have "\<lparr>eb_nonce = eb_nonce blob, eb_ciphertext = eb_ciphertext blob\<rparr> = blob" by (cases blob) simp
    with rt show ?thesis by (simp only:)
  qed
  ultimately have "loadEncryptedSnapshot sd path pw dk' = deserializeDocuments (serializeDocuments docs)"
    using load_encrypted_ok [OF ok(4)] box ok(1) by (metis to_of_bytes(2))
  then show ?thesis by (simp add: deserializeDocuments_def storable_roundtrip [OF assms(3)])
qed

lemma encrypted_roundtrip_toy:
  "loadEncryptedSnapshot toy_sodium ''f'' ''pw''
     (snd (snd (saveEncryptedSnapshot toy_sodium ''f'' ''pw'' [] () good_disk))) = Inr []"
proof -
  have s: "storable []" "sd_init toy_sodium" "length (serializeDocuments []) < 2 ^ 63"
    by (simp_all add: storable_def toy_sodium_def serializeDocuments_eq kMagic_def pushU32_def)
  have "fst (saveEncryptedSnapshot toy_sodium ''f'' ''pw'' [] () good_disk) = Inr ()"
    by code_simp
  then have "saveEncryptedSnapshot toy_sodium ''f'' ''pw'' [] () good_disk =
      (Inr (), fst (snd (saveEncryptedSnapshot toy_sodium ''f'' ''pw'' [] () good_disk)),
       snd (snd (saveEncryptedSnapshot toy_sodium ''f'' ''pw'' [] () good_disk)))"
    by (metis prod.collapse)
  from encrypted_roundtrip [OF toy_sodium_laws s(2) s(1) s(3) this] show ?thesis by simp
qed



end
