(* ===== verification/Tor_Proxy.thy ===== *)
theory Tor_Proxy
  imports Bloom
begin

text \<open>
  The SOCKS5 liveness probe of \<open>src/tor_proxy.cpp\<close> and the endpoint type and free functions of
  \<open>src/tor_proxy_manager.cpp\<close>: endpoint strings, the proxy list parser, circuit user names and the
  exponential backoff. What the operating system answers to each socket call is a record of the
  answers; the calls the probe makes are its log. Times are nanoseconds as integers. The theory
  proves what an \<open>Up\<close> means and that the socket is closed on every path.
\<close>

section \<open>The probe\<close>

datatype tor_status = TorUnknown | TorUp | TorDown

record probe_result =
  pr_status :: tor_status
  pr_detail :: string
  pr_elapsed :: int

definition empty_probe :: probe_result where
  "empty_probe = \<lparr>pr_status = TorUnknown, pr_detail = [], pr_elapsed = 0\<rparr>"

text \<open>The answers of the operating system: return value and, where the code reads it, \<open>errno\<close>.\<close>

record os_answers =
  os_socket :: "int \<times> int"
  os_pton :: int
  os_connect :: "int \<times> int"
  os_select :: "int \<times> int"
  os_so_error :: int
  os_send :: int
  os_recv :: int
  os_reply :: "u8 \<times> u8"
  os_elapsed :: int

datatype os_call = CSocket | CFcntl bool | CPton string | CConnect u16 | CSelect int int | CGetsockopt
  | CSetsockopt | CSend "u8 list" | CRecv nat | CClose

definition kSocksVersion :: u8 where "kSocksVersion = 5"
definition kNoAuth :: u8 where "kNoAuth = 0"
definition EINPROGRESS :: int where "EINPROGRESS = 115"

definition probe_down :: "os_answers \<Rightarrow> string \<Rightarrow> probe_result" where
  "probe_down os why = \<lparr>pr_status = TorDown, pr_detail = why, pr_elapsed = os_elapsed os\<rparr>"

text \<open>The part after a connected socket: the greeting and the reply.\<close>

definition socks_greeting :: "os_answers \<Rightarrow> string \<Rightarrow> u16 \<Rightarrow> probe_result \<times> os_call list" where
  "socks_greeting os host port =
     (if os_send os \<noteq> 3
      then (probe_down os ''SOCKS5 greeting send failed'', [CSend [kSocksVersion, 1, kNoAuth], CClose])
      else
        let isSocks5 = (os_recv os = 2 \<and> fst (os_reply os) = kSocksVersion \<and> snd (os_reply os) = kNoAuth)
        in (\<lparr>pr_status = (if isSocks5 then TorUp else TorDown),
             pr_detail = (if isSocks5
               then ''SOCKS5 daemon reachable at '' @ host @ '':'' @ nat_to_string (unat port)
               else ''peer did not answer a valid SOCKS5 greeting''),
             pr_elapsed = os_elapsed os\<rparr>,
            [CSend [kSocksVersion, 1, kNoAuth], CRecv 2, CClose]))"

text \<open>\<open>timeout\<close> in milliseconds; \<open>strerror\<close> is the library's message of an error number.\<close>

definition probeTor :: "(int \<Rightarrow> string) \<Rightarrow> string \<Rightarrow> u16 \<Rightarrow> int \<Rightarrow> os_answers \<Rightarrow> probe_result \<times> os_call list" where
  "probeTor strerror host port timeout os =
     (if fst (os_socket os) < 0
      then (probe_down os (''socket(): '' @ strerror (snd (os_socket os))), [CSocket])
      else
        let c1 = [CSocket, CFcntl True, CPton host] in
        if os_pton os \<noteq> 1
        then (probe_down os (''invalid proxy host: '' @ host), c1 @ [CClose])
        else
          let c2 = c1 @ [CConnect port] in
          if fst (os_connect os) \<noteq> 0 \<and> snd (os_connect os) \<noteq> EINPROGRESS
          then (probe_down os (''connect() failed: '' @ strerror (snd (os_connect os))), c2 @ [CClose])
          else
            let c3 = c2 @ [CSelect (timeout div 1000) (timeout mod 1000 * 1000)] in
            if fst (os_select os) = 0
            then (probe_down os (''connection timed out ('' @ int_to_string timeout @ '' ms)''), c3 @ [CClose])
            else if fst (os_select os) < 0
            then (probe_down os (''select() failed: '' @ strerror (snd (os_select os))), c3 @ [CClose])
            else
              let c4 = c3 @ [CGetsockopt] in
              if os_so_error os \<noteq> 0
              then (probe_down os (''connect() refused: '' @ strerror (os_so_error os)), c4 @ [CClose])
              else
                let (r, cs) = socks_greeting os host port
                in (r, c4 @ [CFcntl False, CSetsockopt, CSetsockopt] @ cs))"

section \<open>Endpoints\<close>

record tor_endpoint =
  ep_host :: string
  ep_port :: u16
  ep_username :: string
  ep_password :: string
  ep_healthy :: bool
  ep_failures :: u32
  ep_latency :: int
  ep_used :: int
  ep_probe :: int

definition default_endpoint :: tor_endpoint where
  "default_endpoint = \<lparr>ep_host = ''127.0.0.1'', ep_port = 9050, ep_username = [], ep_password = [],
     ep_healthy = True, ep_failures = 0, ep_latency = 0, ep_used = 0, ep_probe = 0\<rparr>"

definition no_endpoint :: tor_endpoint where
  "no_endpoint = default_endpoint\<lparr>ep_host := [], ep_port := 0\<rparr>"

definition is_none :: "tor_endpoint \<Rightarrow> bool" where
  "is_none e \<longleftrightarrow> ep_host e = [] \<or> ep_port e = 0"

definition sameEndpoint :: "tor_endpoint \<Rightarrow> tor_endpoint \<Rightarrow> bool" where
  "sameEndpoint e f \<longleftrightarrow> ep_host e = ep_host f \<and> ep_port e = ep_port f"

text \<open>An endpoint at a host and port, as the report and removal operations address it.\<close>

definition endpoint_at :: "string \<Rightarrow> u16 \<Rightarrow> tor_endpoint \<Rightarrow> bool" where
  "endpoint_at host port e \<longleftrightarrow> ep_host e = host \<and> ep_port e = port"

definition endpointKey :: "tor_endpoint \<Rightarrow> string" where
  "endpointKey e = ep_host e @ '':'' @ nat_to_string (unat (ep_port e))"

definition socks5Url :: "tor_endpoint \<Rightarrow> string" where
  "socks5Url e = ''socks5h://'' @ ep_host e @ '':'' @ nat_to_string (unat (ep_port e))"

section \<open>Proxy lists\<close>

definition spec_space :: "char \<Rightarrow> bool" where
  "spec_space c \<longleftrightarrow> c = CHR '' '' \<or> code c = 9 \<or> code c = 13 \<or> code c = 10"

definition trim_spec :: "string \<Rightarrow> string" where
  "trim_spec s = rev (dropWhile spec_space (rev (dropWhile spec_space s)))"

text \<open>The pieces between commas.\<close>

fun comma_pieces :: "string \<Rightarrow> string \<Rightarrow> string list" where
  "comma_pieces acc [] = [acc]"
| "comma_pieces acc (c # s) = (if c = CHR '','' then acc # comma_pieces [] s else comma_pieces (acc @ [c]) s)"

text \<open>One piece; \<open>None\<close> is a piece that is skipped.\<close>

definition parse_piece :: "string \<Rightarrow> tor_endpoint option" where
  "parse_piece raw =
     (let piece = trim_spec raw
      in if piece = [] then None
         else case rfind_char (CHR '':'') piece of
           None \<Rightarrow> None
         | Some colon \<Rightarrow>
             (case stol (drop (colon + 1) piece) of
                None \<Rightarrow> None
              | Some p \<Rightarrow>
                  if p < 1 \<or> 65535 < p then None
                  else
                    let host = take colon piece
                    in Some (default_endpoint\<lparr>ep_host := (if host = [] then ''127.0.0.1'' else host),
                         ep_port := of_int p\<rparr>)))"

definition parseProxyList :: "string list \<Rightarrow> tor_endpoint list" where
  "parseProxyList specs = concat (map (\<lambda>spec. List.map_filter parse_piece (comma_pieces [] spec)) specs)"

section \<open>Circuits and backoff\<close>

text \<open>\<open>PerBatch\<close> has the same value as \<open>PerRequest\<close> in the code's enumeration.\<close>

datatype circuit_scope = PerDomain | PerRequest | NoScope

definition PerBatch :: circuit_scope where "PerBatch = PerRequest"

definition hex16 :: "u64 \<Rightarrow> string" where
  "hex16 h = map (\<lambda>k. hex_digit (unat (drop_bit (60 - 4 * k) h AND 15))) [0..<16]"

definition circuit_token :: "string \<Rightarrow> circuit_scope \<Rightarrow> string" where
  "circuit_token url scope =
     (if scope = PerDomain
      then let hostStart = (case str_find ''://'' url of None \<Rightarrow> 0 | Some i \<Rightarrow> i + 3)
           in slice url hostStart (find_first_of ''/?#'' url hostStart)
      else url)"

text \<open>The hash is the same FNV-1a loop as the Bloom filter's.\<close>

definition circuitUsernameFor :: "string \<Rightarrow> circuit_scope \<Rightarrow> string" where
  "circuitUsernameFor url scope =
     (if scope = NoScope then [] else ''s-'' @ hex16 (fnv1a (circuit_token url scope)))"

text \<open>\<open>jitter\<close> is the drawn random number; the result is whole milliseconds.\<close>

definition backoffMs :: "nat \<Rightarrow> 'd::floor_ceiling \<Rightarrow> 'd \<Rightarrow> 'd \<Rightarrow> int" where
  "backoffMs attempt baseMs capMs jitter =
     (let e = min capMs (baseMs * 2 ^ attempt);
          total = min capMs (e + jitter)
      in if 0 \<le> total then \<lfloor>total\<rfloor> else \<lceil>total\<rceil>)"

definition isOnionUrl :: "string \<Rightarrow> bool" where
  "isOnionUrl url \<longleftrightarrow> contains url ''.onion''"

section \<open>The outside world\<close>

text \<open>
  What the proxy managers ask of the world: a probe of a host and port with a timeout in
  milliseconds, the steady clock and the system clock, both in nanoseconds.
\<close>

record 'w tor_env =
  te_probe :: "'w \<Rightarrow> string \<Rightarrow> u16 \<Rightarrow> int \<Rightarrow> probe_result \<times> 'w"
  te_now :: "'w \<Rightarrow> int"
  te_sysnow :: "'w \<Rightarrow> int"

text \<open>Probing the endpoints in order until one is up.\<close>

fun probe_any :: "'w tor_env \<Rightarrow> int \<Rightarrow> tor_endpoint list \<Rightarrow> string \<Rightarrow> 'w \<Rightarrow> bool \<times> string \<times> 'w" where
  "probe_any env timeout [] detail w = (False, detail, w)"
| "probe_any env timeout (e # es) detail w =
     (case te_probe env w (ep_host e) (ep_port e) timeout of
        (r, w) \<Rightarrow>
          if pr_status r = TorUp then (True, pr_detail r, w) else probe_any env timeout es (pr_detail r) w)"

definition aggregateProbe :: "'w tor_env \<Rightarrow> tor_endpoint list \<Rightarrow> int \<Rightarrow> 'w \<Rightarrow> probe_result \<times> 'w" where
  "aggregateProbe env eps timeout w =
     (if eps = [] then (empty_probe\<lparr>pr_status := TorUnknown, pr_detail := ''no Tor proxy configured''\<rparr>, w)
      else case probe_any env timeout eps [] w of
        (anyUp, detail, w') \<Rightarrow>
          (\<lparr>pr_status = (if anyUp then TorUp else TorDown),
            pr_detail = (if anyUp then detail else ''all configured Tor proxies unreachable''),
            pr_elapsed = (te_now env w' - te_now env w) div 1000000\<rparr>, w'))"

section \<open>What the probe guarantees\<close>

text \<open>
  C38: The probe reports \<open>Up\<close> exactly when every step of the handshake succeeded: the socket was
  opened, the host parsed, the connection made before the deadline, the three greeting bytes were
  sent and the peer answered version 5, no authentication. On every path an opened socket is closed
  exactly once, as the last call.
\<close>

theorem probe_up_exact:
  "(pr_status (fst (probeTor strerror host port timeout os)) = TorUp \<longleftrightarrow>
     0 \<le> fst (os_socket os) \<and> os_pton os = 1 \<and>
     (fst (os_connect os) = 0 \<or> snd (os_connect os) = EINPROGRESS) \<and> 0 < fst (os_select os) \<and>
     os_so_error os = 0 \<and> os_send os = 3 \<and> os_recv os = 2 \<and> os_reply os = (5, 0)) \<and>
   count_list (snd (probeTor strerror host port timeout os)) CClose = (if 0 \<le> fst (os_socket os) then 1 else 0) \<and>
   last (snd (probeTor strerror host port timeout os)) = (if 0 \<le> fst (os_socket os) then CClose else CSocket)"
proof (intro conjI)
  note defs = probeTor_def socks_greeting_def probe_down_def Let_def kSocksVersion_def kNoAuth_def
  show "pr_status (fst (probeTor strerror host port timeout os)) = TorUp \<longleftrightarrow>
     0 \<le> fst (os_socket os) \<and> os_pton os = 1 \<and>
     (fst (os_connect os) = 0 \<or> snd (os_connect os) = EINPROGRESS) \<and> 0 < fst (os_select os) \<and>
     os_so_error os = 0 \<and> os_send os = 3 \<and> os_recv os = 2 \<and> os_reply os = (5, 0)"
    by (auto simp: defs prod_eq_iff)
  show "count_list (snd (probeTor strerror host port timeout os)) CClose = (if 0 \<le> fst (os_socket os) then 1 else 0)"
    by (simp add: defs)
  show "last (snd (probeTor strerror host port timeout os)) = (if 0 \<le> fst (os_socket os) then CClose else CSocket)"
    by (simp add: defs)
qed

section \<open>Bounds of the backoff and of the user names\<close>

lemma hex16_length: "length (hex16 h) = 16"
  by (simp add: hex16_def)

text \<open>
  A backoff delay is never negative and never above the cap, and it is at least the exponential
  delay (base times two to the attempt, capped): retries wait longer and longer up to the cap.
\<close>

theorem backoff_bounds:
  fixes baseMs capMs jitter :: "'d::floor_ceiling"
  assumes "0 \<le> baseMs" and "0 \<le> capMs" and "0 \<le> jitter"
  shows "0 \<le> backoffMs attempt baseMs capMs jitter \<and>
    of_int (backoffMs attempt baseMs capMs jitter) \<le> capMs \<and>
    \<lfloor>min capMs (baseMs * 2 ^ attempt)\<rfloor> \<le> backoffMs attempt baseMs capMs jitter"
proof -
  define e where "e = min capMs (baseMs * 2 ^ attempt)"
  have e: "0 \<le> e" "e \<le> capMs" using assms by (simp_all add: e_def)
  then have t: "0 \<le> min capMs (e + jitter)" "e \<le> min capMs (e + jitter)" using assms by simp_all
  then have "backoffMs attempt baseMs capMs jitter = \<lfloor>min capMs (e + jitter)\<rfloor>"
    by (simp add: backoffMs_def Let_def e_def)
  moreover have "of_int \<lfloor>min capMs (e + jitter)\<rfloor> \<le> capMs" by (meson min.bounded_iff of_int_floor_le)
  moreover have "\<lfloor>e\<rfloor> \<le> \<lfloor>min capMs (e + jitter)\<rfloor>" using t(2) by (rule floor_mono)
  moreover have "0 \<le> \<lfloor>min capMs (e + jitter)\<rfloor>" using t(1) by simp
  ultimately show ?thesis unfolding e_def by metis
qed

lemma backoff_bounds_witness:
  "0 \<le> backoffMs 3 (250 :: rat) 8000 100 \<and> of_int (backoffMs 3 (250 :: rat) 8000 100) \<le> (8000 :: rat) \<and>
   \<lfloor>min 8000 (250 * 2 ^ 3 :: rat)\<rfloor> \<le> backoffMs 3 (250 :: rat) 8000 100"
  by (rule backoff_bounds) simp_all

end
