(* ===== verification/Tor_Manager.thy ===== *)
theory Tor_Manager
  imports Tor_Proxy
begin

text \<open>
  The two proxy managers: the single-proxy \<open>DefaultTorProxyManager\<close> of
  \<open>src/tor_proxy_manager.cpp\<close> and the \<open>PooledTorProxyManager\<close> of \<open>src/tor_proxy_pool.cpp\<close>. Every
  operation holds the manager's mutex, so it is one state transformer. What the fetcher relies on
  is the locale \<open>proxy_manager\<close>, interpreted on both. The theory proves that a selected proxy is
  always a configured one and healthy, and that a healthy pool is used in turn.
\<close>

section \<open>Options and statistics\<close>

record 'd manager_options =
  mo_proxies :: "tor_endpoint list"
  mo_rotate :: int
  mo_isolation :: circuit_scope
  mo_onionRetries :: nat
  mo_probeTimeout :: int
  mo_cooldown :: int
  mo_backoffBase :: 'd
  mo_backoffCap :: 'd
  mo_exclude :: "string list"

text \<open>The intervals are in nanoseconds, the probe timeout in milliseconds.\<close>

definition default_manager_options :: "'d::floor_ceiling manager_options" where
  "default_manager_options = \<lparr>mo_proxies = [], mo_rotate = 0, mo_isolation = PerDomain, mo_onionRetries = 0,
     mo_probeTimeout = 1500, mo_cooldown = 5000000000, mo_backoffBase = 250, mo_backoffCap = 8000, mo_exclude = []\<rparr>"

record tor_stats =
  ts_proxyCount :: nat
  ts_healthy :: nat
  ts_circuits :: nat
  ts_resolution :: int
  ts_onionRequests :: u64
  ts_onionFailures :: u64
  ts_retries :: u64
  ts_newnym :: int

definition empty_stats :: tor_stats where
  "empty_stats = \<lparr>ts_proxyCount = 0, ts_healthy = 0, ts_circuits = 0, ts_resolution = 0, ts_onionRequests = 0,
     ts_onionFailures = 0, ts_retries = 0, ts_newnym = 0\<rparr>"

section \<open>The default manager\<close>

record 'd default_manager =
  dm_opts :: "'d manager_options"
  dm_ep :: tor_endpoint
  dm_up :: bool
  dm_last :: probe_result

definition new_default :: "'d manager_options \<Rightarrow> 'd default_manager" where
  "new_default opts = \<lparr>dm_opts = opts,
     dm_ep = (case mo_proxies opts of [] \<Rightarrow> no_endpoint | e # _ \<Rightarrow> e), dm_up = False, dm_last = empty_probe\<rparr>"

definition dm_addProxy :: "tor_endpoint \<Rightarrow> 'd default_manager \<Rightarrow> 'd default_manager" where
  "dm_addProxy e m = m\<lparr>dm_ep := e, dm_up := False\<rparr>"

definition dm_removeProxy :: "string \<Rightarrow> u16 \<Rightarrow> 'd default_manager \<Rightarrow> 'd default_manager" where
  "dm_removeProxy host port m =
     (if endpoint_at host port (dm_ep m) then m\<lparr>dm_ep := no_endpoint, dm_up := False\<rparr> else m)"

definition dm_proxies :: "'d default_manager \<Rightarrow> tor_endpoint list" where
  "dm_proxies m = (if ep_host (dm_ep m) = [] then [] else [dm_ep m])"

definition dm_selectProxy :: "'d default_manager \<Rightarrow> tor_endpoint" where
  "dm_selectProxy m =
     (if ep_host (dm_ep m) = [] \<or> ep_port (dm_ep m) = 0 \<or> \<not> dm_up m then no_endpoint else dm_ep m)"

definition dm_reportSuccess :: "string \<Rightarrow> u16 \<Rightarrow> int \<Rightarrow> 'd default_manager \<Rightarrow> 'd default_manager" where
  "dm_reportSuccess host port lat m =
     (if endpoint_at host port (dm_ep m)
      then m\<lparr>dm_ep := (dm_ep m)\<lparr>ep_failures := 0, ep_latency := lat\<rparr>\<rparr> else m)"

definition dm_reportFailure :: "string \<Rightarrow> u16 \<Rightarrow> 'd default_manager \<Rightarrow> 'd default_manager" where
  "dm_reportFailure host port m =
     (if endpoint_at host port (dm_ep m)
      then m\<lparr>dm_ep := (dm_ep m)\<lparr>ep_failures := ep_failures (dm_ep m) + 1\<rparr>\<rparr> else m)"

definition dm_probe :: "'w tor_env \<Rightarrow> 'd default_manager \<Rightarrow> 'w \<Rightarrow> probe_result \<times> 'd default_manager \<times> 'w" where
  "dm_probe env m w =
     (let e = dm_ep m;
          (r, w) = (if ep_host e = [] \<or> ep_port e = 0
            then (empty_probe\<lparr>pr_status := TorUnknown, pr_detail := ''no Tor proxy configured''\<rparr>, w)
            else te_probe env w (ep_host e) (ep_port e) (mo_probeTimeout (dm_opts m)))
      in (r, m\<lparr>dm_up := (pr_status r = TorUp), dm_ep := e\<lparr>ep_probe := te_now env w\<rparr>, dm_last := r\<rparr>, w))"

definition dm_probeEndpoint :: "'w tor_env \<Rightarrow> tor_endpoint \<Rightarrow> 'd default_manager \<Rightarrow> 'w \<Rightarrow>
    probe_result \<times> 'd default_manager \<times> 'w" where
  "dm_probeEndpoint env e m w =
     (let (r, w) = te_probe env w (ep_host e) (ep_port e) (mo_probeTimeout (dm_opts m))
      in (r, (if sameEndpoint (dm_ep m) e then m\<lparr>dm_up := (pr_status r = TorUp)\<rparr> else m), w))"

definition dm_maxRetries :: "'d default_manager \<Rightarrow> string \<Rightarrow> nat" where
  "dm_maxRetries m url = (if isOnionUrl url then mo_onionRetries (dm_opts m) else 0)"

definition dm_backoff :: "'d::floor_ceiling default_manager \<Rightarrow> 'd \<Rightarrow> nat \<Rightarrow> int" where
  "dm_backoff m jitter attempt = backoffMs attempt (mo_backoffBase (dm_opts m)) (mo_backoffCap (dm_opts m)) jitter"

definition dm_stats :: "'d default_manager \<Rightarrow> tor_stats" where
  "dm_stats m = empty_stats\<lparr>ts_proxyCount := (if ep_host (dm_ep m) = [] then 0 else 1),
     ts_healthy := (if ep_host (dm_ep m) = [] \<or> \<not> dm_up m then 0 else 1), ts_resolution := ep_latency (dm_ep m)\<rparr>"

section \<open>The pooled manager\<close>

record 'd pooled_manager =
  pm_opts :: "'d manager_options"
  pm_eps :: "tor_endpoint list"
  pm_rr :: u64
  pm_lastRotate :: int
  pm_last :: probe_result
  pm_onionRequests :: u64
  pm_retries :: u64

definition new_pooled :: "int \<Rightarrow> 'd manager_options \<Rightarrow> 'd pooled_manager" where
  "new_pooled now opts = \<lparr>pm_opts = opts, pm_eps = mo_proxies opts, pm_rr = 0, pm_lastRotate = now,
     pm_last = empty_probe, pm_onionRequests = 0, pm_retries = 0\<rparr>"

definition pm_addProxy :: "tor_endpoint \<Rightarrow> 'd pooled_manager \<Rightarrow> 'd pooled_manager" where
  "pm_addProxy e m =
     (if list_ex (\<lambda>f. sameEndpoint f e) (pm_eps m) then m else m\<lparr>pm_eps := pm_eps m @ [e]\<rparr>)"

definition pm_removeProxy :: "string \<Rightarrow> u16 \<Rightarrow> 'd pooled_manager \<Rightarrow> 'd pooled_manager" where
  "pm_removeProxy host port m = m\<lparr>pm_eps := filter (\<lambda>e. \<not> endpoint_at host port e) (pm_eps m)\<rparr>"

text \<open>The rotation of the circuits at the start of a selection.\<close>

definition pm_rotate :: "int \<Rightarrow> 'd pooled_manager \<Rightarrow> 'd pooled_manager" where
  "pm_rotate now m =
     (if 0 < mo_rotate (pm_opts m) \<and> mo_rotate (pm_opts m) \<le> now - pm_lastRotate m
      then m\<lparr>pm_eps := map (\<lambda>e. e\<lparr>ep_healthy := True\<rparr>) (pm_eps m),
             pm_rr := of_nat (unat (pm_rr m + 1) mod length (pm_eps m)), pm_lastRotate := now\<rparr>
      else m)"

definition is_candidate :: "int \<Rightarrow> int \<Rightarrow> tor_endpoint \<Rightarrow> bool" where
  "is_candidate cooldown now e \<longleftrightarrow> ep_healthy e \<or> cooldown \<le> now - ep_probe e"

definition pm_candidates :: "int \<Rightarrow> 'd pooled_manager \<Rightarrow> nat list" where
  "pm_candidates now m =
     filter (\<lambda>i. is_candidate (mo_cooldown (pm_opts m)) now (pm_eps m ! i)) [0..<length (pm_eps m)]"

text \<open>The last part of a selection: the chosen endpoint is used, after a new probe if it was failed.\<close>

definition pm_use :: "'w tor_env \<Rightarrow> int \<Rightarrow> string \<Rightarrow> nat \<Rightarrow> 'd pooled_manager \<Rightarrow> 'w \<Rightarrow>
    tor_endpoint \<times> 'd pooled_manager \<times> 'w" where
  "pm_use env now url pick m w =
     (let chosen = pm_eps m ! pick;
          (chosen, w) =
            (if \<not> ep_healthy chosen
             then let (r, w) = te_probe env w (ep_host chosen) (ep_port chosen) (mo_probeTimeout (pm_opts m))
                  in (chosen\<lparr>ep_healthy := (pr_status r = TorUp), ep_probe := now\<rparr>, w)
             else (chosen, w))
      in if \<not> ep_healthy chosen then (no_endpoint, m\<lparr>pm_eps := (pm_eps m)[pick := chosen]\<rparr>, w)
         else
           let chosen = chosen\<lparr>ep_used := te_sysnow env w\<rparr>;
               u = circuitUsernameFor url (mo_isolation (pm_opts m))
           in (chosen\<lparr>ep_username := u, ep_password := u\<rparr>, m\<lparr>pm_eps := (pm_eps m)[pick := chosen]\<rparr>, w))"

definition pm_selectProxy :: "'w tor_env \<Rightarrow> string \<Rightarrow> 'd pooled_manager \<Rightarrow> 'w \<Rightarrow>
    tor_endpoint \<times> 'd pooled_manager \<times> 'w" where
  "pm_selectProxy env url m w =
     (let now = te_now env w
      in if pm_eps m = [] then (no_endpoint, m, w)
         else
           let m = (if isOnionUrl url then m\<lparr>pm_onionRequests := pm_onionRequests m + 1\<rparr> else m);
               m = pm_rotate now m;
               candidates = pm_candidates now m
           in if candidates = [] then (no_endpoint, m, w)
              else pm_use env now url (candidates ! (unat (pm_rr m) mod length candidates))
                     (m\<lparr>pm_rr := pm_rr m + 1\<rparr>) w)"

text \<open>The first endpoint at a host and port.\<close>

fun update_first :: "(tor_endpoint \<Rightarrow> bool) \<Rightarrow> (tor_endpoint \<Rightarrow> tor_endpoint) \<Rightarrow> tor_endpoint list \<Rightarrow> tor_endpoint list" where
  "update_first P f [] = []"
| "update_first P f (e # es) = (if P e then f e # es else e # update_first P f es)"

definition pm_reportSuccess :: "string \<Rightarrow> u16 \<Rightarrow> int \<Rightarrow> 'd pooled_manager \<Rightarrow> 'd pooled_manager" where
  "pm_reportSuccess host port lat m =
     m\<lparr>pm_eps := update_first (endpoint_at host port)
        (\<lambda>e. e\<lparr>ep_healthy := True, ep_failures := 0, ep_latency := lat\<rparr>) (pm_eps m)\<rparr>"

definition pm_reportFailure :: "int \<Rightarrow> string \<Rightarrow> u16 \<Rightarrow> 'd pooled_manager \<Rightarrow> 'd pooled_manager" where
  "pm_reportFailure now host port m =
     m\<lparr>pm_eps := update_first (endpoint_at host port)
        (\<lambda>e. e\<lparr>ep_healthy := False, ep_failures := ep_failures e + 1, ep_probe := now\<rparr>) (pm_eps m)\<rparr>"

fun reprobe_all :: "'w tor_env \<Rightarrow> int \<Rightarrow> tor_endpoint list \<Rightarrow> 'w \<Rightarrow> tor_endpoint list \<times> 'w" where
  "reprobe_all env timeout [] w = ([], w)"
| "reprobe_all env timeout (e # es) w =
     (let (r, w) = te_probe env w (ep_host e) (ep_port e) timeout;
          e = e\<lparr>ep_healthy := (pr_status r = TorUp), ep_probe := te_now env w\<rparr>;
          (es, w) = reprobe_all env timeout es w
      in (e # es, w))"

definition pm_probe :: "'w tor_env \<Rightarrow> 'd pooled_manager \<Rightarrow> 'w \<Rightarrow> probe_result \<times> 'd pooled_manager \<times> 'w" where
  "pm_probe env m w =
     (let timeout = mo_probeTimeout (pm_opts m);
          (result, w) = aggregateProbe env (pm_eps m) timeout w;
          (eps, w) = reprobe_all env timeout (pm_eps m) w
      in (result, m\<lparr>pm_last := result, pm_eps := eps\<rparr>, w))"

definition pm_probeEndpoint :: "'w tor_env \<Rightarrow> tor_endpoint \<Rightarrow> 'd pooled_manager \<Rightarrow> 'w \<Rightarrow>
    probe_result \<times> 'd pooled_manager \<times> 'w" where
  "pm_probeEndpoint env ep m w =
     (let (r, w) = te_probe env w (ep_host ep) (ep_port ep) (mo_probeTimeout (pm_opts m))
      in (r, m\<lparr>pm_eps := map (\<lambda>e. if sameEndpoint e ep
                 then e\<lparr>ep_healthy := (pr_status r = TorUp), ep_probe := te_now env w\<rparr> else e) (pm_eps m)\<rparr>, w))"

definition pm_healthy :: "'d pooled_manager \<Rightarrow> nat" where
  "pm_healthy m = length (filter ep_healthy (pm_eps m))"

definition pm_maxRetries :: "'d pooled_manager \<Rightarrow> string \<Rightarrow> nat" where
  "pm_maxRetries m url =
     (if isOnionUrl url then mo_onionRetries (pm_opts m)
      else let healthy = pm_healthy m in if 0 < healthy then healthy - 1 else 0)"

definition pm_backoff :: "'d::floor_ceiling pooled_manager \<Rightarrow> 'd \<Rightarrow> nat \<Rightarrow> int" where
  "pm_backoff m jitter attempt = backoffMs attempt (mo_backoffBase (pm_opts m)) (mo_backoffCap (pm_opts m)) jitter"

definition pm_setExcludeCountries :: "string list \<Rightarrow> 'd pooled_manager \<Rightarrow> 'd pooled_manager" where
  "pm_setExcludeCountries cc m = m\<lparr>pm_opts := (pm_opts m)\<lparr>mo_exclude := cc\<rparr>\<rparr>"

definition pm_stats :: "'d pooled_manager \<Rightarrow> tor_stats" where
  "pm_stats m = empty_stats\<lparr>ts_proxyCount := length (pm_eps m), ts_healthy := pm_healthy m,
     ts_onionRequests := pm_onionRequests m, ts_retries := pm_retries m\<rparr>"

section \<open>The contract\<close>

text \<open>
  The operations the fetcher calls, with the random numbers of the backoff drawn from the world, and
  what it relies on: a selected proxy is one of the configured addresses, and neither a selection
  nor a report changes the configured addresses.
\<close>

record ('m, 'w) manager_ops =
  op_select :: "string \<Rightarrow> 'm \<Rightarrow> 'w \<Rightarrow> tor_endpoint \<times> 'm \<times> 'w"
  op_success :: "string \<Rightarrow> u16 \<Rightarrow> int \<Rightarrow> 'm \<Rightarrow> 'm"
  op_failure :: "'w \<Rightarrow> string \<Rightarrow> u16 \<Rightarrow> 'm \<Rightarrow> 'm"
  op_retries :: "'m \<Rightarrow> string \<Rightarrow> nat"
  op_backoff :: "nat \<Rightarrow> 'm \<Rightarrow> 'w \<Rightarrow> int \<times> 'w"

definition address :: "tor_endpoint \<Rightarrow> string \<times> u16" where
  "address e = (ep_host e, ep_port e)"

locale proxy_manager =
  fixes M :: "('m, 'w) manager_ops" and known :: "'m \<Rightarrow> (string \<times> u16) set"
  assumes select_known: "op_select M url m w = (e, m', w') \<Longrightarrow> \<not> is_none e \<Longrightarrow> address e \<in> known m"
    and select_keeps: "op_select M url m w = (e, m', w') \<Longrightarrow> known m' = known m"
    and success_keeps: "known (op_success M host port lat m) = known m"
    and failure_keeps: "known (op_failure M w host port m) = known m"

definition default_ops :: "('w \<Rightarrow> 'd \<times> 'w) \<Rightarrow> ('d::floor_ceiling default_manager, 'w) manager_ops" where
  "default_ops draw = \<lparr>op_select = \<lambda>url m w. (dm_selectProxy m, m, w), op_success = dm_reportSuccess,
     op_failure = \<lambda>w. dm_reportFailure, op_retries = dm_maxRetries,
     op_backoff = \<lambda>n m w. let (j, w) = draw w in (dm_backoff m j n, w)\<rparr>"

definition pooled_ops :: "'w tor_env \<Rightarrow> ('w \<Rightarrow> 'd \<times> 'w) \<Rightarrow> ('d::floor_ceiling pooled_manager, 'w) manager_ops" where
  "pooled_ops env draw = \<lparr>op_select = pm_selectProxy env, op_success = pm_reportSuccess,
     op_failure = \<lambda>w. pm_reportFailure (te_now env w), op_retries = pm_maxRetries,
     op_backoff = \<lambda>n m w. let (j, w) = draw w in (pm_backoff m j n, w)\<rparr>"

definition default_known :: "'d default_manager \<Rightarrow> (string \<times> u16) set" where
  "default_known m = {address (dm_ep m)}"

definition pooled_known :: "'d pooled_manager \<Rightarrow> (string \<times> u16) set" where
  "pooled_known m = address ` set (pm_eps m)"

interpretation single: proxy_manager "default_ops draw" default_known
  by unfold_locales
    (auto simp: default_ops_def default_known_def address_def dm_selectProxy_def dm_reportSuccess_def
      dm_reportFailure_def is_none_def no_endpoint_def split: if_splits)

lemma none_is_none [simp]: "is_none no_endpoint"
  by (simp add: is_none_def no_endpoint_def)

lemma address_update [simp]:
  "address (e\<lparr>ep_healthy := b\<rparr>) = address e" "address (e\<lparr>ep_probe := t\<rparr>) = address e"
  "address (e\<lparr>ep_used := t\<rparr>) = address e" "address (e\<lparr>ep_username := u\<rparr>) = address e"
  "address (e\<lparr>ep_password := u\<rparr>) = address e" "address (e\<lparr>ep_failures := n\<rparr>) = address e"
  "address (e\<lparr>ep_latency := t\<rparr>) = address e"
  by (simp_all add: address_def)

lemma update_first_addresses:
  "(\<And>e. address (f e) = address e) \<Longrightarrow> map address (update_first P f es) = map address es"
  by (induction es) simp_all

lemma pm_rotate_addresses: "map address (pm_eps (pm_rotate now m)) = map address (pm_eps m)"
  by (simp add: pm_rotate_def comp_def)

lemma pm_rotate_length [simp]: "length (pm_eps (pm_rotate now m)) = length (pm_eps m)"
  using pm_rotate_addresses [of now m] by (metis length_map)

lemma candidates_range: "i \<in> set (pm_candidates now m) \<Longrightarrow> i < length (pm_eps m)"
  by (simp add: pm_candidates_def)

lemma candidate_picked: "cs \<noteq> [] \<Longrightarrow> cs ! (n mod length cs) \<in> set cs"
  by (simp add: nth_mem)

lemma pm_use_cases:
  assumes "pm_use env now url i m w = (e, m', w')" and "i < length (pm_eps m)"
  shows "map address (pm_eps m') = map address (pm_eps m)"
    and "\<not> is_none e \<Longrightarrow> address e = address (pm_eps m ! i)"
    and "\<not> is_none e \<Longrightarrow> ep_healthy (pm_eps m' ! i) \<and> ep_username e = circuitUsernameFor url (mo_isolation (pm_opts m))"
    and "e = no_endpoint \<or> ep_healthy e"
  using assms
  by (auto simp: pm_use_def Let_def map_update list_update_same_conv address_def split: prod.splits if_splits)

text \<open>The state in which the candidates of a selection are computed.\<close>

definition pm_prepare :: "'w tor_env \<Rightarrow> string \<Rightarrow> 'd pooled_manager \<Rightarrow> 'w \<Rightarrow> 'd pooled_manager" where
  "pm_prepare env url m w = pm_rotate (te_now env w)
     (if isOnionUrl url then m\<lparr>pm_onionRequests := pm_onionRequests m + 1\<rparr> else m)"

lemma pm_prepare_keeps:
  "map address (pm_eps (pm_prepare env url m w)) = map address (pm_eps m)"
  "pm_opts (pm_prepare env url m w) = pm_opts m"
  by (simp_all add: pm_prepare_def pm_rotate_addresses) (simp add: pm_rotate_def)

lemma pm_selectProxy_prepare:
  "pm_eps m \<noteq> [] \<Longrightarrow> pm_selectProxy env url m w =
     (let m1 = pm_prepare env url m w; cs = pm_candidates (te_now env w) m1
      in if cs = [] then (no_endpoint, m1, w)
         else pm_use env (te_now env w) url (cs ! (unat (pm_rr m1) mod length cs)) (m1\<lparr>pm_rr := pm_rr m1 + 1\<rparr>) w)"
  by (simp add: pm_selectProxy_def pm_prepare_def Let_def)

lemma pm_selectProxy_cases:
  assumes sel: "pm_selectProxy env url m w = (e, m', w')"
  obtains (none) "e = no_endpoint" "map address (pm_eps m') = map address (pm_eps m)"
  | (some) i where "i \<in> set (pm_candidates (te_now env w) (pm_prepare env url m w))"
    "pm_use env (te_now env w) url i ((pm_prepare env url m w)\<lparr>pm_rr := pm_rr (pm_prepare env url m w) + 1\<rparr>) w = (e, m', w')"
proof (cases "pm_eps m = []")
  case True
  then show ?thesis using sel none by (simp add: pm_selectProxy_def)
next
  case False
  define m1 where "m1 = pm_prepare env url m w"
  define cs where "cs = pm_candidates (te_now env w) m1"
  show ?thesis
  proof (cases "cs = []")
    case True
    then have "e = no_endpoint" "m' = m1"
      using sel pm_selectProxy_prepare [OF False, of env url w]
      by (simp_all add: Let_def m1_def [symmetric] cs_def [symmetric])
    then show ?thesis using none pm_prepare_keeps(1) [of env url m w] by (simp add: m1_def)
  next
    case ne: False
    have "pm_use env (te_now env w) url (cs ! (unat (pm_rr m1) mod length cs)) (m1\<lparr>pm_rr := pm_rr m1 + 1\<rparr>) w = (e, m', w')"
      using sel pm_selectProxy_prepare [OF False, of env url w] ne
      by (simp add: Let_def m1_def [symmetric] cs_def [symmetric])
    with candidate_picked [OF ne, of "unat (pm_rr m1)"] some [of "cs ! (unat (pm_rr m1) mod length cs)"]
    show ?thesis by (simp add: m1_def cs_def)
  qed
qed

lemma pm_selectProxy_addresses:
  assumes "pm_selectProxy env url m w = (e, m', w')"
  shows "map address (pm_eps m') = map address (pm_eps m) \<and> (\<not> is_none e \<longrightarrow> address e \<in> set (map address (pm_eps m)))"
  using assms
proof (cases rule: pm_selectProxy_cases)
  case none
  then show ?thesis by simp
next
  case (some i)
  define m1 where "m1 = (pm_prepare env url m w)\<lparr>pm_rr := pm_rr (pm_prepare env url m w) + 1\<rparr>"
  have i: "i < length (pm_eps m1)" using candidates_range [OF some(1)] by (simp add: m1_def)
  have a: "map address (pm_eps m1) = map address (pm_eps m)" by (simp add: m1_def pm_prepare_keeps)
  note u = pm_use_cases [OF some(2) [folded m1_def] i]
  have "address (pm_eps m1 ! i) \<in> set (map address (pm_eps m1))" using i by (simp add: nth_mem)
  then show ?thesis using u(1,2) a by metis
qed

lemma pooled_known_update:
  "(\<And>e. address (f e) = address e) \<Longrightarrow> pooled_known (m\<lparr>pm_eps := update_first P f (pm_eps m)\<rparr>) = pooled_known m"
  using update_first_addresses [of f P "pm_eps m"] by (simp add: pooled_known_def) (metis set_map)

interpretation pool: proxy_manager "pooled_ops env draw" pooled_known
proof unfold_locales
  fix url m w e m' w'
  assume sel: "op_select (pooled_ops env draw) url m w = (e, m', w')"
  note a = pm_selectProxy_addresses [OF sel [unfolded pooled_ops_def manager_ops.simps]]
  then show "pooled_known m' = pooled_known m" by (metis pooled_known_def set_map)
  assume "\<not> is_none e"
  then show "address e \<in> pooled_known m" using a by (simp add: pooled_known_def)
next
  show "pooled_known (op_success (pooled_ops env draw) host port lat m) = pooled_known m" for host port lat m
    by (simp add: pooled_ops_def pm_reportSuccess_def pooled_known_update)
  show "pooled_known (op_failure (pooled_ops env draw) w host port m) = pooled_known m" for w host port m
    by (simp add: pooled_ops_def pm_reportFailure_def pooled_known_update)
qed

section \<open>Selection and load balancing\<close>

text \<open>
  C36: A proxy the pool hands out is a configured endpoint that is healthy after the selection, and
  it was healthy (or just made healthy by the circuit rotation) or its failure cooldown had expired
  and a new probe found it up; its credentials are those of the circuit of the URL.
\<close>

theorem pool_select_sound:
  assumes sel: "pm_selectProxy env url m w = (e, m', w')" and ne: "\<not> is_none e"
  shows "\<exists>i < length (pm_eps m). address e = address (pm_eps m ! i) \<and> ep_healthy (pm_eps m' ! i) \<and>
    is_candidate (mo_cooldown (pm_opts m)) (te_now env w) (pm_eps (pm_prepare env url m w) ! i) \<and>
    ep_healthy e \<and> ep_username e = circuitUsernameFor url (mo_isolation (pm_opts m))"
  using sel
proof (cases rule: pm_selectProxy_cases)
  case none
  then show ?thesis using ne by simp
next
  case (some i)
  define m1 where "m1 = (pm_prepare env url m w)\<lparr>pm_rr := pm_rr (pm_prepare env url m w) + 1\<rparr>"
  have i: "i < length (pm_eps m1)" using candidates_range [OF some(1)] by (simp add: m1_def)
  have a: "map address (pm_eps m1) = map address (pm_eps m)" by (simp add: m1_def pm_prepare_keeps)
  then have len: "length (pm_eps m1) = length (pm_eps m)" by (metis length_map)
  have "is_candidate (mo_cooldown (pm_opts m)) (te_now env w) (pm_eps (pm_prepare env url m w) ! i)"
    using some(1) by (simp add: pm_candidates_def pm_prepare_keeps)
  moreover have "address (pm_eps m1 ! i) = address (pm_eps m ! i)" using a i len by (metis nth_map)
  moreover note pm_use_cases [OF some(2) [folded m1_def] i]
  moreover have "pm_opts m1 = pm_opts m" by (simp add: m1_def pm_prepare_keeps)
  moreover have "e \<noteq> no_endpoint" using ne by auto
  ultimately show ?thesis using ne i len by metis
qed

definition sample_env :: "nat tor_env" where
  "sample_env = \<lparr>te_probe = \<lambda>w host port timeout.
       (empty_probe\<lparr>pr_status := (if host = ''127.0.0.1'' then TorUp else TorDown)\<rparr>, w + 1),
     te_now = \<lambda>w. 10000000000 + int w, te_sysnow = int\<rparr>"

definition sample_pool :: "rat pooled_manager" where
  "sample_pool = new_pooled 0 (default_manager_options\<lparr>mo_proxies :=
     [default_endpoint\<lparr>ep_healthy := False\<rparr>, default_endpoint\<lparr>ep_host := ''10.0.0.2''\<rparr>]\<rparr>)"

lemma sample_pool_select:
  "(case pm_selectProxy sample_env ''http://a.onion/x'' sample_pool 0 of (e, m, w) \<Rightarrow>
      (address e, ep_username e, map ep_healthy (pm_eps m), w)) =
   ((''127.0.0.1'', 9050), ''s-'' @ hex16 (fnv1a ''a.onion''), [True, True], 1)"
  by code_simp

lemma pool_select_sound_witness:
  "\<exists>e m' w' i. pm_selectProxy sample_env ''http://a.onion/x'' sample_pool 0 = (e, m', w') \<and>
     i < length (pm_eps sample_pool) \<and> address e = address (pm_eps sample_pool ! i) \<and> ep_healthy (pm_eps m' ! i)"
proof -
  obtain e m' w' where s: "pm_selectProxy sample_env ''http://a.onion/x'' sample_pool 0 = (e, m', w')"
    by (cases "pm_selectProxy sample_env ''http://a.onion/x'' sample_pool 0")
  then have "address e = (''127.0.0.1'', 9050)" using sample_pool_select by simp
  then have "\<not> is_none e" by (simp add: is_none_def address_def)
  from pool_select_sound [OF s this] s show ?thesis by blast
qed

text \<open>A sequence of selections.\<close>

fun pm_selections :: "'w tor_env \<Rightarrow> string list \<Rightarrow> 'd pooled_manager \<Rightarrow> 'w \<Rightarrow> tor_endpoint list \<times> 'd pooled_manager \<times> 'w" where
  "pm_selections env [] m w = ([], m, w)"
| "pm_selections env (url # urls) m w =
     (let (e, m, w) = pm_selectProxy env url m w;
          (es, m, w) = pm_selections env urls m w
      in (e # es, m, w))"

lemma candidates_healthy: "list_all ep_healthy (pm_eps m) \<Longrightarrow> pm_candidates now m = [0..<length (pm_eps m)]"
  by (auto simp: pm_candidates_def is_candidate_def list_all_length intro!: filter_True)

lemma select_healthy:
  assumes ne: "pm_eps m \<noteq> []" and h: "list_all ep_healthy (pm_eps m)" and r: "mo_rotate (pm_opts m) = 0"
    and sel: "pm_selectProxy env url m w = (e, m', w')"
  shows "address e = address (pm_eps m ! (unat (pm_rr m) mod length (pm_eps m)))"
    and "map address (pm_eps m') = map address (pm_eps m)" and "list_all ep_healthy (pm_eps m')"
    and "pm_opts m' = pm_opts m" and "pm_rr m' = pm_rr m + 1"
proof -
  define m1 where "m1 = pm_prepare env url m w"
  have m1: "pm_eps m1 = pm_eps m" "pm_rr m1 = pm_rr m" "pm_opts m1 = pm_opts m"
    by (simp_all add: m1_def pm_prepare_def pm_rotate_def r)
  define i where "i = unat (pm_rr m) mod length (pm_eps m)"
  have i: "i < length (pm_eps m)" "ep_healthy (pm_eps m ! i)"
    using ne h by (simp_all add: i_def list_all_length)
  have "pm_use env (te_now env w) url i (m1\<lparr>pm_rr := pm_rr m1 + 1\<rparr>) w = (e, m', w')"
    using sel ne i(1) m1 candidates_healthy [of m1] h
    by (simp add: pm_selectProxy_prepare Let_def m1_def [symmetric] i_def)
  then have e: "address e = address (pm_eps m ! i)"
    and eps: "pm_eps m' = (pm_eps m)[i := (pm_eps m ! i)\<lparr>ep_used := te_sysnow env w\<rparr>]"
    and rest: "pm_opts m' = pm_opts m" "pm_rr m' = pm_rr m + 1"
    using i m1 by (auto simp: pm_use_def Let_def)
  from e show "address e = address (pm_eps m ! (unat (pm_rr m) mod length (pm_eps m)))" by (simp add: i_def)
  show "map address (pm_eps m') = map address (pm_eps m)"
    using i by (simp add: eps map_update list_update_same_conv)
  show "list_all ep_healthy (pm_eps m')" using h i by (simp add: eps list_all_length nth_list_update)
  from rest show "pm_opts m' = pm_opts m" "pm_rr m' = pm_rr m + 1" .
qed

text \<open>
  C37: Load balancing is round robin: while every endpoint is healthy and circuits are not rotated,
  consecutive selections go through the configured endpoints in order and start again from the
  first, so every run of as many selections as there are endpoints uses each of them once.
\<close>

theorem pool_round_robin:
  assumes "pm_eps m \<noteq> []" and "list_all ep_healthy (pm_eps m)" and "mo_rotate (pm_opts m) = 0"
    and "unat (pm_rr m) + length urls < 2 ^ 64"
  shows "map address (fst (pm_selections env urls m w)) =
    map (\<lambda>k. address (pm_eps m ! ((unat (pm_rr m) + k) mod length (pm_eps m)))) [0..<length urls]"
  using assms
proof (induction urls arbitrary: m w)
  case (Cons url urls)
  obtain e m' w' where sel: "pm_selectProxy env url m w = (e, m', w')" by (cases "pm_selectProxy env url m w")
  note step = select_healthy [OF Cons.prems(1-3) sel]
  have len: "length (pm_eps m') = length (pm_eps m)" using step(2) by (metis length_map)
  then have ne: "pm_eps m' \<noteq> []" using Cons.prems(1) by auto
  have nth: "address (pm_eps m' ! (k mod length (pm_eps m))) = address (pm_eps m ! (k mod length (pm_eps m)))" for k
    using step(2) len Cons.prems(1) by (metis length_greater_0_conv mod_less_divisor nth_map)
  have rr: "unat (pm_rr m') = unat (pm_rr m) + 1"
    using Cons.prems(4) unat_add_lem [of "pm_rr m" 1] by (simp add: step(5))
  have "map address (fst (pm_selections env urls m' w')) =
      map (\<lambda>k. address (pm_eps m' ! ((unat (pm_rr m') + k) mod length (pm_eps m')))) [0..<length urls]"
    using Cons.prems rr step(3,4) ne by (intro Cons.IH) simp_all
  also have "\<dots> = map (\<lambda>k. address (pm_eps m ! ((unat (pm_rr m) + Suc k) mod length (pm_eps m)))) [0..<length urls]"
    by (simp add: rr len nth)
  finally show ?case
    using sel step(1) by (simp add: case_prod_beta Let_def upt_conv_Cons map_Suc_upt [symmetric] comp_def del: upt_Suc)
qed simp

lemma pool_round_robin_witness:
  "map address (fst (pm_selections sample_env [''u'', ''v'', ''w'']
      (sample_pool\<lparr>pm_eps := [default_endpoint, default_endpoint\<lparr>ep_host := ''10.0.0.2''\<rparr>]\<rparr>) 0)) =
   [(''127.0.0.1'', 9050), (''10.0.0.2'', 9050), (''127.0.0.1'', 9050)]"
  by (subst pool_round_robin)
    (simp_all add: sample_pool_def new_pooled_def default_manager_options_def default_endpoint_def address_def upt_rec)

end
