(* ===== verification/Curl_Fetcher.thy ===== *)
theory Curl_Fetcher
  imports Tor_Manager Stub_Fetcher
begin

text \<open>
  The \<open>CurlFetcher\<close> of \<open>src/fetcher.cpp\<close>: proxy selection per attempt, retries with backoff,
  failover reports. libcurl is a parameter, a function from the request it is given to its answer;
  the requests made are a log of the fetch. The theory proves inside the contract of a proxy manager,
  and then for both managers, that an onion address is never contacted without a configured proxy.
\<close>

section \<open>libcurl\<close>

datatype curl_code = CURLE_OK | CURLE_COULDNT_CONNECT | CURLE_COULDNT_RESOLVE_PROXY | CURLE_OPERATION_TIMEDOUT
  | CURLE_SEND_ERROR | CURLE_RECV_ERROR | CURLE_PROXY | CURLE_HTTP2 | CURLE_OTHER nat

record curl_request =
  rq_url :: string
  rq_timeout :: int
  rq_connectTimeout :: int
  rq_proxy :: string
  rq_user :: string
  rq_password :: string

text \<open>The pieces the write callback is given, in order.\<close>

record curl_reply =
  cr_code :: curl_code
  cr_http :: int
  cr_pieces :: "string list"
  cr_errbuf :: string

record 'w curl =
  cu_init :: "'w \<Rightarrow> bool \<times> 'w"
  cu_perform :: "curl_request \<Rightarrow> 'w \<Rightarrow> curl_reply \<times> 'w"
  cu_strerror :: "curl_code \<Rightarrow> string"
  cu_now :: "'w \<Rightarrow> int"
  cu_sleep :: "int \<Rightarrow> 'w \<Rightarrow> 'w"

definition writeCallback :: "string \<Rightarrow> string \<Rightarrow> string" where
  "writeCallback out piece = out @ piece"

definition isTransientCurlError :: "curl_code \<Rightarrow> bool" where
  "isTransientCurlError ec =
     (case ec of
        CURLE_COULDNT_CONNECT \<Rightarrow> True
      | CURLE_COULDNT_RESOLVE_PROXY \<Rightarrow> True
      | CURLE_OPERATION_TIMEDOUT \<Rightarrow> True
      | CURLE_SEND_ERROR \<Rightarrow> True
      | CURLE_RECV_ERROR \<Rightarrow> True
      | CURLE_PROXY \<Rightarrow> True
      | CURLE_HTTP2 \<Rightarrow> True
      | _ \<Rightarrow> False)"

section \<open>A fetch\<close>

text \<open>The state of a fetch: the manager when there is one, the world, the requests made.\<close>

record ('m, 'w) fetch_state =
  fs_manager :: 'm
  fs_world :: 'w
  fs_requests :: "curl_request list"

definition wait_backoff :: "'w curl \<Rightarrow> ('m, 'w) manager_ops option \<Rightarrow> nat \<Rightarrow> ('m, 'w) fetch_state \<Rightarrow> ('m, 'w) fetch_state" where
  "wait_backoff cu ops attempt st =
     (case ops of
        None \<Rightarrow> st
      | Some M \<Rightarrow>
          if 0 < attempt
          then let (ms, w) = op_backoff M (attempt - 1) (fs_manager st) (fs_world st)
               in st\<lparr>fs_world := cu_sleep cu ms w\<rparr>
          else st)"

definition choose_proxy :: "('m, 'w) manager_ops option \<Rightarrow> string \<Rightarrow> ('m, 'w) fetch_state \<Rightarrow>
    tor_endpoint \<times> ('m, 'w) fetch_state" where
  "choose_proxy ops url st =
     (case ops of
        None \<Rightarrow> (default_endpoint, st)
      | Some M \<Rightarrow>
          let (e, m, w) = op_select M url (fs_manager st) (fs_world st)
          in (e, st\<lparr>fs_manager := m, fs_world := w\<rparr>))"

definition request_for :: "string \<Rightarrow> int \<Rightarrow> tor_endpoint \<Rightarrow> string \<Rightarrow> curl_request" where
  "request_for url timeoutMs ep proxy =
     \<lparr>rq_url = url, rq_timeout = timeoutMs, rq_connectTimeout = timeoutMs div 2, rq_proxy = proxy,
      rq_user = (if proxy \<noteq> [] \<and> ep_username ep \<noteq> [] then ep_username ep else []),
      rq_password = (if proxy \<noteq> [] \<and> ep_username ep \<noteq> [] then ep_password ep else [])\<rparr>"

text \<open>After the transfer: a result that ends the loop, or the result so far.\<close>

definition handle_reply :: "'w curl \<Rightarrow> ('m, 'w) manager_ops option \<Rightarrow> bool \<Rightarrow> tor_endpoint \<Rightarrow> int \<Rightarrow> curl_reply \<Rightarrow>
    fetch_result \<Rightarrow> ('m, 'w) fetch_state \<Rightarrow> (fetch_result + fetch_result) \<times> ('m, 'w) fetch_state" where
  "handle_reply cu ops onion ep latency reply result st =
     (if cr_code reply = CURLE_OK \<and> cr_http reply < 400
      then (Inl (result\<lparr>fr_ok := True, fr_html := foldl writeCallback [] (cr_pieces reply)\<rparr>),
            (case ops of
               Some M \<Rightarrow> if ep_host ep \<noteq> []
                 then st\<lparr>fs_manager := op_success M (ep_host ep) (ep_port ep) latency (fs_manager st)\<rparr> else st
             | None \<Rightarrow> st))
      else
        let result = result\<lparr>fr_error :=
              (if cr_code reply \<noteq> CURLE_OK
               then (if cr_errbuf reply \<noteq> [] then cr_errbuf reply else cu_strerror cu (cr_code reply))
               else ''HTTP '' @ int_to_string (cr_http reply))\<rparr>;
            st = (case ops of
               Some M \<Rightarrow> if ep_host ep \<noteq> []
                 then st\<lparr>fs_manager := op_failure M (fs_world st) (ep_host ep) (ep_port ep) (fs_manager st)\<rparr> else st
             | None \<Rightarrow> st)
        in if 400 \<le> cr_http reply then (Inl result, st)
           else if \<not> isTransientCurlError (cr_code reply) \<and> \<not> onion then (Inl result, st)
           else (Inr result, st))"

text \<open>One attempt.\<close>

definition attempt_once :: "'w curl \<Rightarrow> ('m, 'w) manager_ops option \<Rightarrow> int \<Rightarrow> string \<Rightarrow> nat \<Rightarrow> fetch_result \<Rightarrow>
    ('m, 'w) fetch_state \<Rightarrow> (fetch_result + fetch_result) \<times> ('m, 'w) fetch_state" where
  "attempt_once cu ops timeoutMs url attempt result st =
     (let onion = contains url ''.onion'';
          st = wait_backoff cu ops attempt st;
          (ep, st) = choose_proxy ops url st;
          proxy = (if ep_host ep = [] \<or> ep_port ep = 0 then [] else socks5Url ep)
      in if onion \<and> proxy = []
         then (Inl (result\<lparr>fr_error :=
                 ''onion target requires Tor; no healthy SOCKS5 proxy available (run '' @ [char_of (39 :: nat)] @
                 ''status'' @ [char_of (39 :: nat)] @ '')''\<rparr>), st)
         else
           let (opened, w) = cu_init cu (fs_world st)
           in if \<not> opened then (Inl (result\<lparr>fr_error := ''curl_easy_init() failed''\<rparr>), st\<lparr>fs_world := w\<rparr>)
              else
                let rq = request_for url timeoutMs ep proxy;
                    start = cu_now cu w;
                    (reply, w) = cu_perform cu rq w;
                    latency = (cu_now cu w - start) div 1000000;
                    st = st\<lparr>fs_world := w, fs_requests := fs_requests st @ [rq]\<rparr>
                in handle_reply cu ops onion ep latency reply result st)"

text \<open>The loop over the attempts; the first argument is how many are left.\<close>

fun attempts :: "'w curl \<Rightarrow> ('m, 'w) manager_ops option \<Rightarrow> int \<Rightarrow> string \<Rightarrow> nat \<Rightarrow> nat \<Rightarrow> fetch_result \<Rightarrow>
    ('m, 'w) fetch_state \<Rightarrow> fetch_result \<times> ('m, 'w) fetch_state" where
  "attempts cu ops timeoutMs url 0 attempt result st = (result, st)"
| "attempts cu ops timeoutMs url (Suc n) attempt result st =
     (case attempt_once cu ops timeoutMs url attempt result st of
        (Inl result, st) \<Rightarrow> (result, st)
      | (Inr result, st) \<Rightarrow> attempts cu ops timeoutMs url n (attempt + 1) result st)"

text \<open>The number of attempts is a \<open>size_t\<close>: one more than the most retries possible wraps to none.\<close>

definition curl_fetch :: "'w curl \<Rightarrow> ('m, 'w) manager_ops option \<Rightarrow> int \<Rightarrow> string \<Rightarrow> 'm \<Rightarrow> 'w \<Rightarrow>
    fetch_result \<times> ('m, 'w) fetch_state" where
  "curl_fetch cu ops timeoutMs url m w =
     (let maxTries = (case ops of Some M \<Rightarrow> (1 + op_retries M m url) mod 2 ^ 64 | None \<Rightarrow> 1)
      in attempts cu ops timeoutMs url maxTries 0 empty_result
           \<lparr>fs_manager = m, fs_world = w, fs_requests = []\<rparr>)"

text \<open>The fetcher built without libcurl.\<close>

definition nocurl_fetch :: "string \<Rightarrow> fetch_result" where
  "nocurl_fetch url = empty_result\<lparr>fr_error := ''libcurl support was not compiled in; cannot fetch '' @ url\<rparr>"

section \<open>Clients of a proxy manager\<close>

text \<open>A request that goes through one of the given proxies.\<close>

definition through :: "(string \<times> u16) set \<Rightarrow> curl_request \<Rightarrow> bool" where
  "through known rq \<longleftrightarrow> (\<exists>e. \<not> is_none e \<and> address e \<in> known \<and> rq_proxy rq = socks5Url e)"

context proxy_manager begin

lemma backoff_keeps:
  "fs_manager (wait_backoff cu ops n st) = fs_manager st" "fs_requests (wait_backoff cu ops n st) = fs_requests st"
  by (auto simp: wait_backoff_def split: option.split prod.split)

lemma choose_known:
  assumes "choose_proxy (Some M) url st = (e, st')"
  shows "known (fs_manager st') = known (fs_manager st)" "fs_requests st' = fs_requests st"
    "\<not> is_none e \<Longrightarrow> address e \<in> known (fs_manager st)"
proof -
  obtain e' m' w' where s: "op_select M url (fs_manager st) (fs_world st) = (e', m', w')"
    by (cases "op_select M url (fs_manager st) (fs_world st)")
  with assms have e: "e' = e" "st' = st\<lparr>fs_manager := m', fs_world := w'\<rparr>"
    by (simp_all add: choose_proxy_def)
  show "known (fs_manager st') = known (fs_manager st)" "fs_requests st' = fs_requests st"
    "\<not> is_none e \<Longrightarrow> address e \<in> known (fs_manager st)"
    using select_keeps [OF s] select_known [OF s] e by simp_all
qed

lemma handle_reply_keeps:
  assumes "handle_reply cu (Some M) onion ep latency reply result st = (x, st')"
  shows "fs_requests st' = fs_requests st" "known (fs_manager st') = known (fs_manager st)"
  using assms by (auto simp: handle_reply_def Let_def success_keeps failure_keeps split: if_splits)

lemma attempt_once_onion:
  assumes on: "contains url ''.onion''"
    and st: "attempt_once cu (Some M) timeoutMs url n result st = (r, st')"
  shows "known (fs_manager st') = known (fs_manager st)"
    and "\<exists>rqs. fs_requests st' = fs_requests st @ rqs \<and> length rqs \<le> 1 \<and>
      list_all (through (known (fs_manager st))) rqs"
proof -
  obtain e st1 where c: "choose_proxy (Some M) url (wait_backoff cu (Some M) n st) = (e, st1)"
    by (cases "choose_proxy (Some M) url (wait_backoff cu (Some M) n st)")
  note ch = choose_known [OF c, unfolded backoff_keeps]
  obtain opened w where i: "cu_init cu (fs_world st1) = (opened, w)" by (cases "cu_init cu (fs_world st1)")
  have u: "socks5Url e \<noteq> []" by (simp add: socks5Url_def)
  define rq where "rq = request_for url timeoutMs e (socks5Url e)"
  obtain reply w' where p: "cu_perform cu rq w = (reply, w')" by (cases "cu_perform cu rq w")
  consider "is_none e" | "\<not> is_none e" "\<not> opened" | "\<not> is_none e" "opened" by blast
  then have "known (fs_manager st') = known (fs_manager st) \<and>
      (\<exists>rqs. fs_requests st' = fs_requests st @ rqs \<and> length rqs \<le> 1 \<and> list_all (through (known (fs_manager st))) rqs)"
  proof cases
    case 1
    then have none: "(ep_host e = [] \<or> ep_port e = 0) = True" by (simp add: is_none_def)
    have "st' = st1" using st on c by (simp add: attempt_once_def Let_def none)
    then show ?thesis using ch by simp
  next
    case 2
    then have ne: "(ep_host e = [] \<or> ep_port e = 0) = False" by (simp add: is_none_def)
    have "st' = st1\<lparr>fs_world := w\<rparr>" using st on c i 2 u by (simp add: attempt_once_def Let_def ne)
    then show ?thesis using ch by simp
  next
    case 3
    then have ne: "ep_host e \<noteq> []" "ep_port e \<noteq> 0" by (simp_all add: is_none_def)
    have "through (known (fs_manager st)) rq"
      using ch(3) 3 by (auto simp: through_def rq_def request_for_def)
    moreover obtain latency where
      "handle_reply cu (Some M) True e latency reply result (st1\<lparr>fs_world := w', fs_requests := fs_requests st1 @ [rq]\<rparr>) = (r, st')"
      using st c i p ne on u 3(2) by (simp add: attempt_once_def rq_def Let_def)
    from handle_reply_keeps [OF this]
    have "fs_requests st' = fs_requests st @ [rq] \<and> known (fs_manager st') = known (fs_manager st)"
      using ch(1,2) by simp
    ultimately show ?thesis by auto
  qed
  then show "known (fs_manager st') = known (fs_manager st)"
    and "\<exists>rqs. fs_requests st' = fs_requests st @ rqs \<and> length rqs \<le> 1 \<and> list_all (through (known (fs_manager st))) rqs"
    by blast+
qed

lemma attempts_onion:
  assumes "contains url ''.onion''"
    and "attempts cu (Some M) timeoutMs url k n result st = (r, st')"
  shows "known (fs_manager st') = known (fs_manager st) \<and>
    (\<exists>rqs. fs_requests st' = fs_requests st @ rqs \<and> length rqs \<le> k \<and> list_all (through (known (fs_manager st))) rqs)"
  using assms(2)
proof (induction k arbitrary: n result st)
  case (Suc k)
  obtain x st1 where a: "attempt_once cu (Some M) timeoutMs url n result st = (x, st1)"
    by (cases "attempt_once cu (Some M) timeoutMs url n result st")
  note one = attempt_once_onion [OF assms(1) a]
  obtain rqs where rqs: "fs_requests st1 = fs_requests st @ rqs" "length rqs \<le> 1"
    "list_all (through (known (fs_manager st))) rqs" using one(2) by blast
  show ?case
  proof (cases x)
    case (Inl y)
    then have "st' = st1" using Suc.prems a by simp
    then show ?thesis using one(1) rqs by auto
  next
    case (Inr y)
    then have "attempts cu (Some M) timeoutMs url k (n + 1) y st1 = (r, st')" using Suc.prems a by simp
    from Suc.IH [OF this] obtain more where "known (fs_manager st') = known (fs_manager st1)"
      "fs_requests st' = fs_requests st1 @ more" "length more \<le> k" "list_all (through (known (fs_manager st1))) more"
      by blast
    then show ?thesis using one(1) rqs by (intro conjI exI [of _ "rqs @ more"]) simp_all
  qed
qed simp

lemma fetch_onion:
  assumes "contains url ''.onion''" and "curl_fetch cu (Some M) timeoutMs url m w = (r, st)"
  shows "list_all (through (known m)) (fs_requests st) \<and> length (fs_requests st) \<le> 1 + op_retries M m url \<and>
    known (fs_manager st) = known m"
proof -
  have "attempts cu (Some M) timeoutMs url ((1 + op_retries M m url) mod 2 ^ 64) 0 empty_result
      \<lparr>fs_manager = m, fs_world = w, fs_requests = []\<rparr> = (r, st)"
    using assms(2) by (simp add: curl_fetch_def del: attempts.simps)
  from attempts_onion [OF assms(1) this] obtain rqs where "fs_requests st = rqs"
    "length rqs \<le> (1 + op_retries M m url) mod 2 ^ 64" "list_all (through (known m)) rqs" "known (fs_manager st) = known m"
    by auto
  then show ?thesis using mod_less_eq_dividend [of "1 + op_retries M m url" "2 ^ 64"] by (metis order_trans)
qed

end

text \<open>
  The retries option \<open>-1\<close>, which \<open>std::stoul\<close> reads as the greatest number, therefore turns fetching
  off: nothing is tried and the failure has no message.
\<close>

lemma greatest_retries_fetch_nothing:
  "op_retries M m url = 2 ^ 64 - 1 \<Longrightarrow>
     curl_fetch cu (Some M) timeoutMs url m w = (empty_result, \<lparr>fs_manager = m, fs_world = w, fs_requests = []\<rparr>)"
  by (simp add: curl_fetch_def)

text \<open>
  C30: An onion address never leaks: whatever the network answers, every request the fetcher makes
  for a URL that contains .onion goes through a SOCKS5 proxy that was configured in the manager, and
  it makes at most one request more than the retries allowed. This holds with the single-proxy manager
  and with the pool, for every state of their health records.
\<close>

theorem onion_never_direct:
  assumes on: "contains url ''.onion''"
  shows "list_all (through (pooled_known p)) (fs_requests (snd (curl_fetch cu (Some (pooled_ops env draw)) timeoutMs url p w))) \<and>
    list_all (through (default_known d)) (fs_requests (snd (curl_fetch cu (Some (default_ops draw)) timeoutMs url d w))) \<and>
    length (fs_requests (snd (curl_fetch cu (Some (pooled_ops env draw)) timeoutMs url p w))) \<le> 1 + pm_maxRetries p url \<and>
    length (fs_requests (snd (curl_fetch cu (Some (default_ops draw)) timeoutMs url d w))) \<le> 1 + dm_maxRetries d url"
proof -
  obtain r st where p: "curl_fetch cu (Some (pooled_ops env draw)) timeoutMs url p w = (r, st)"
    by (cases "curl_fetch cu (Some (pooled_ops env draw)) timeoutMs url p w")
  obtain r' st' where d: "curl_fetch cu (Some (default_ops draw)) timeoutMs url d w = (r', st')"
    by (cases "curl_fetch cu (Some (default_ops draw)) timeoutMs url d w")
  have retries: "op_retries (pooled_ops env draw) p url = pm_maxRetries p url"
    "op_retries (default_ops draw) d url = dm_maxRetries d url"
    by (simp_all add: pooled_ops_def default_ops_def)
  show ?thesis
    using pool.fetch_onion [OF on p] single.fetch_onion [OF on d]
    unfolding p d snd_conv retries [symmetric] by blast
qed

definition sample_curl :: "nat curl" where
  "sample_curl = \<lparr>cu_init = \<lambda>w. (True, w),
     cu_perform = \<lambda>rq w. (\<lparr>cr_code = CURLE_COULDNT_CONNECT, cr_http = 0, cr_pieces = [], cr_errbuf = []\<rparr>, w + 1),
     cu_strerror = \<lambda>_. ''failed'', cu_now = int, cu_sleep = \<lambda>ms w. w\<rparr>"

lemma onion_never_direct_witness:
  "list_all (through (pooled_known sample_pool))
     (fs_requests (snd (curl_fetch sample_curl (Some (pooled_ops sample_env (\<lambda>w. (100, w)))) 10000 ''http://a.onion/x'' sample_pool 0)))"
proof -
  have "contains ''http://a.onion/x'' ''.onion''" by code_simp
  from onion_never_direct [OF this, of sample_pool sample_curl sample_env "\<lambda>w. (100, w)" 10000 0] show ?thesis by blast
qed

end
