(* ===== verification/Engine.thy ===== *)
theory Engine
  imports Process Bm25 Snapshot Curl_Fetcher
begin

text \<open>
  The facade of \<open>src/engine.cpp\<close>: construction from a configuration, search, crawling, the demo
  corpus, plain and encrypted persistence, and \<open>normalizeUrl\<close>; and the Tor flags of
  \<open>src/tor_proxy_manager.cpp\<close> that fill the configuration. The proxy manager the engine shares with
  its fetcher lives in the network world the crawler threads. The theory proves that an index saved
  and loaded is the same store of documents.
\<close>

section \<open>Configuration\<close>

record config =
  ec_stub :: bool
  ec_torHost :: string
  ec_torPort :: u16
  ec_torProxies :: "string list"
  ec_pool :: bool
  ec_onionRetries :: nat
  ec_rotate :: int
  ec_workers :: nat
  ec_maxPages :: nat
  ec_maxDepth :: u32

definition default_config :: config where
  "default_config = \<lparr>ec_stub = True, ec_torHost = ''127.0.0.1'', ec_torPort = 9050, ec_torProxies = [],
     ec_pool = False, ec_onionRetries = 0, ec_rotate = 0, ec_workers = 2, ec_maxPages = 64, ec_maxDepth = 2\<rparr>"

text \<open>\<open>std::stoul\<close> accepts a sign: a negated value wraps around.\<close>

definition stoul :: "string \<Rightarrow> nat option" where
  "stoul s =
     (let t = dropWhile is_space s;
          neg = (t \<noteq> [] \<and> hd t = CHR ''-'');
          u = (if t \<noteq> [] \<and> (hd t = CHR ''-'' \<or> hd t = CHR ''+'') then tl t else t);
          ds = takeWhile is_digit u
      in if ds = [] then None
         else if 2 ^ 64 \<le> digits_val ds then None
         else Some (if neg then (2 ^ 64 - digits_val ds) mod 2 ^ 64 else digits_val ds))"

text \<open>The rotation interval is kept in seconds.\<close>

definition parseTorFlag :: "config \<Rightarrow> string \<Rightarrow> string \<Rightarrow> bool \<times> config" where
  "parseTorFlag cfg arg val =
     (if arg = ''--tor-pool'' then (True, cfg\<lparr>ec_pool := True\<rparr>)
      else if arg = ''--tor-proxy'' then
        (True, case parseProxyList [val] of
                 [] \<Rightarrow> cfg
               | e # es \<Rightarrow> cfg\<lparr>ec_torHost := ep_host e, ec_torPort := ep_port e, ec_torProxies := map endpointKey es\<rparr>)
      else if arg = ''--onion-retries'' then
        (True, if val \<noteq> [] then cfg\<lparr>ec_onionRetries := (case stoul val of Some n \<Rightarrow> n | None \<Rightarrow> 0)\<rparr> else cfg)
      else if arg = ''--circuit-rotate'' then
        (True, if val \<noteq> [] then cfg\<lparr>ec_rotate := (case stol val of Some n \<Rightarrow> n | None \<Rightarrow> 0)\<rparr> else cfg)
      else (False, cfg))"

section \<open>The shared manager and the fetcher\<close>

datatype 'd manager = DefaultManager "'d default_manager" | PooledManager "'d pooled_manager"

text \<open>The network as the crawler sees it: the shared manager and what is outside.\<close>

record ('d, 'w) net =
  nt_manager :: "'d manager"
  nt_world :: 'w

datatype fetcher_kind = UseStub | UseCurl

text \<open>What the engine is built on: the environment of the managers, libcurl, random numbers, whether
  libcurl was compiled in, the logarithm and the string hash.\<close>

record ('d, 'w) platform =
  pf_env :: "'w tor_env"
  pf_curl :: "'w curl"
  pf_draw :: "'w \<Rightarrow> 'd \<times> 'w"
  pf_haveCurl :: bool
  pf_ln :: "'d \<Rightarrow> 'd"
  pf_hash :: "string \<Rightarrow> u64"

definition manager_probe :: "'w tor_env \<Rightarrow> 'd manager \<Rightarrow> 'w \<Rightarrow> probe_result \<times> 'd manager \<times> 'w" where
  "manager_probe env mg w =
     (case mg of
        DefaultManager m \<Rightarrow> let (r, m, w) = dm_probe env m w in (r, DefaultManager m, w)
      | PooledManager m \<Rightarrow> let (r, m, w) = pm_probe env m w in (r, PooledManager m, w))"

definition manager_proxies :: "'d manager \<Rightarrow> tor_endpoint list" where
  "manager_proxies mg = (case mg of DefaultManager m \<Rightarrow> dm_proxies m | PooledManager m \<Rightarrow> pm_eps m)"

definition manager_stats :: "'d manager \<Rightarrow> tor_stats" where
  "manager_stats mg = (case mg of DefaultManager m \<Rightarrow> dm_stats m | PooledManager m \<Rightarrow> pm_stats m)"

text \<open>The virtual calls of a fetch, dispatched on the manager.\<close>

definition engine_ops :: "('d::floor_ceiling, 'w) platform \<Rightarrow> ('d manager, 'w) manager_ops" where
  "engine_ops pf =
     (let d = default_ops (pf_draw pf); p = pooled_ops (pf_env pf) (pf_draw pf)
      in \<lparr>op_select = \<lambda>url mg w. (case mg of
              DefaultManager m \<Rightarrow> let (e, m, w) = op_select d url m w in (e, DefaultManager m, w)
            | PooledManager m \<Rightarrow> let (e, m, w) = op_select p url m w in (e, PooledManager m, w)),
          op_success = \<lambda>host port lat mg. (case mg of
              DefaultManager m \<Rightarrow> DefaultManager (op_success d host port lat m)
            | PooledManager m \<Rightarrow> PooledManager (op_success p host port lat m)),
          op_failure = \<lambda>w host port mg. (case mg of
              DefaultManager m \<Rightarrow> DefaultManager (op_failure d w host port m)
            | PooledManager m \<Rightarrow> PooledManager (op_failure p w host port m)),
          op_retries = \<lambda>mg url. (case mg of
              DefaultManager m \<Rightarrow> op_retries d m url
            | PooledManager m \<Rightarrow> op_retries p m url),
          op_backoff = \<lambda>n mg w. (case mg of
              DefaultManager m \<Rightarrow> op_backoff d n m w
            | PooledManager m \<Rightarrow> op_backoff p n m w)\<rparr>)"

text \<open>The fetcher the crawler is given; libcurl times out after ten seconds.\<close>

definition engine_fetch :: "('d::floor_ceiling, 'w) platform \<Rightarrow> fetcher_kind \<Rightarrow> ('d, 'w) net fetcher" where
  "engine_fetch pf kind net url =
     (case kind of
        UseStub \<Rightarrow> (stub_fetch url, net)
      | UseCurl \<Rightarrow>
          let (r, st) = curl_fetch (pf_curl pf) (Some (engine_ops pf)) 10000 url (nt_manager net) (nt_world net)
          in (r, net\<lparr>nt_manager := fs_manager st, nt_world := fs_world st\<rparr>))"

section \<open>The engine\<close>

record ('d, 'w) engine =
  en_cfg :: config
  en_world :: "('d, 'w) net world"
  en_fetcher :: fetcher_kind
  en_lastTor :: probe_result

abbreviation en_index :: "('d, 'w) engine \<Rightarrow> inverted_index" where
  "en_index e \<equiv> w_index (en_world e)"

definition engine_endpoints :: "config \<Rightarrow> tor_endpoint list" where
  "engine_endpoints cfg =
     default_endpoint\<lparr>ep_host := ec_torHost cfg, ep_port := ec_torPort cfg\<rparr> # parseProxyList (ec_torProxies cfg)"

definition new_engine :: "('d::floor_ceiling, 'w) platform \<Rightarrow> config \<Rightarrow> 'w \<Rightarrow> ('d, 'w) engine" where
  "new_engine pf cfg w =
     (let opts = default_manager_options\<lparr>mo_proxies := engine_endpoints cfg,
            mo_onionRetries := ec_onionRetries cfg, mo_rotate := ec_rotate cfg * 1000000000\<rparr>;
          mg = (if ec_pool cfg then PooledManager (new_pooled (te_now (pf_env pf) w) opts)
                else DefaultManager (new_default opts));
          (tor, mg, w) = manager_probe (pf_env pf) mg w;
          kind = (if pf_haveCurl pf \<and> \<not> ec_stub cfg then UseCurl else UseStub);
          copts = default_options\<lparr>o_workerCount := ec_workers cfg, o_maxPages := ec_maxPages cfg,
            o_maxDepth := ec_maxDepth cfg\<rparr>
      in \<lparr>en_cfg = cfg,
          en_world = \<lparr>w_crawler = new_crawler (pf_ln pf) copts, w_robots = new_robots (o_userAgent copts),
            w_index = empty_index, w_net = \<lparr>nt_manager = mg, nt_world = w\<rparr>,
            w_timing = \<lparr>tm_reads = 0, tm_lastFetch = Map.empty\<rparr>, w_onDoc = None, w_onErr = None\<rparr>,
          en_fetcher = kind, en_lastTor = tor\<rparr>)"

definition engine_probeTor :: "('d, 'w) platform \<Rightarrow> ('d, 'w) engine \<Rightarrow> probe_result \<times> ('d, 'w) engine" where
  "engine_probeTor pf e =
     (let net = w_net (en_world e);
          (r, mg, w) = manager_probe (pf_env pf) (nt_manager net) (nt_world net)
      in (r, e\<lparr>en_lastTor := r, en_world := (en_world e)\<lparr>w_net := \<lparr>nt_manager = mg, nt_world = w\<rparr>\<rparr>\<rparr>))"

definition search :: "('d \<Rightarrow> 'd) \<Rightarrow> inverted_index \<Rightarrow> string \<Rightarrow> nat \<Rightarrow> 'd::linordered_field scored_document list" where
  "search lg ix query limit = (let toks = tokenize query in rank lg (12 / 10) (75 / 100) ix toks limit)"

definition crawl :: "('d, 'w) platform \<Rightarrow> string \<Rightarrow> ('d, 'w) engine \<Rightarrow> bool \<times> ('d, 'w) engine" where
  "crawl pf url e =
     (let (ok, c) = enqueue (pf_hash pf) (w_crawler (en_world e)) url 0 (- 1)
      in (ok, e\<lparr>en_world := (en_world e)\<lparr>w_crawler := c\<rparr>\<rparr>))"

definition pendingCrawls :: "('d, 'w) engine \<Rightarrow> nat" where
  "pendingCrawls e = pendingCount (w_crawler (en_world e))"

definition crawledPages :: "('d, 'w) engine \<Rightarrow> nat" where
  "crawledPages e = crawledCount (w_crawler (en_world e))"

definition crawlerBusy :: "('d, 'w) engine \<Rightarrow> bool" where
  "crawlerBusy e = cr_running (w_crawler (en_world e))"

definition set_index :: "inverted_index \<Rightarrow> ('d, 'w) engine \<Rightarrow> ('d, 'w) engine" where
  "set_index ix e = e\<lparr>en_world := (en_world e)\<lparr>w_index := ix\<rparr>\<rparr>"

section \<open>Persistence\<close>

definition saveEncrypted :: "'r sodium \<Rightarrow> string \<Rightarrow> string \<Rightarrow> ('d, 'w) engine \<Rightarrow> 'r \<Rightarrow> disk \<Rightarrow> (string + unit) \<times> 'r \<times> disk" where
  "saveEncrypted sd path password e r dk = saveEncryptedSnapshot sd path password (allDocuments (en_index e)) r dk"

definition loadEncrypted :: "'r sodium \<Rightarrow> string \<Rightarrow> string \<Rightarrow> disk \<Rightarrow> ('d, 'w) engine \<Rightarrow> (string + unit) \<times> ('d, 'w) engine" where
  "loadEncrypted sd path password dk e =
     (case loadEncryptedSnapshot sd path password dk of
        Inl err \<Rightarrow> (Inl err, e)
      | Inr docs \<Rightarrow> (Inr (), set_index (replaceAll (en_index e) docs) e))"

definition saveState :: "string \<Rightarrow> ('d, 'w) engine \<Rightarrow> disk \<Rightarrow> (string + unit) \<times> disk" where
  "saveState path e dk = saveSnapshot path (allDocuments (en_index e)) dk"

definition loadState :: "string \<Rightarrow> disk \<Rightarrow> ('d, 'w) engine \<Rightarrow> (string + unit) \<times> ('d, 'w) engine" where
  "loadState path dk e =
     (case loadSnapshot path dk of
        Inl err \<Rightarrow> (Inl err, e)
      | Inr docs \<Rightarrow> (Inr (), set_index (replaceAll (en_index e) docs) e))"

definition normalizeUrl :: "string \<Rightarrow> string" where
  "normalizeUrl input =
     (let url = trim input
      in if url = [] then []
         else if \<not> prefix ''http://'' url \<and> \<not> prefix ''https://'' url then ''http://'' @ url
         else url)"

section \<open>The demo corpus\<close>

definition demo_documents :: "document list" where
  "demo_documents =
    [empty_document\<lparr>doc_url := ''https://shadow-se.internal/intel/feed-2026'',
       doc_title := ''Shadow SE Threat Intelligence Feed'',
       doc_snippet := ''Clearweb crawler telemetry, TLS transparency logs, IOC correlation'',
       doc_content := ''Real-time clearweb crawler telemetry, TLS certificate '' @
         ''transparency logs, IOC correlation matrices, dark threat '' @
         ''intelligence reporting and sandbox analysis pipelines.'',
       doc_source := ClearWeb\<rparr>,
     empty_document\<lparr>doc_url := ''https://github.com/alhassanshehade/shadow-se-docs'',
       doc_title := ''Open Source OSINT Framework Documentation'',
       doc_snippet := ''Architecture overview for C++20 memory safety, sandboxing, index compression'',
       doc_content := ''Comprehensive architecture overview for the modern C++20 memory '' @
         ''safety model, sandboxing, inverted index compression, bm25 ranking '' @
         ''and tor routing used by the shadow search engine.'',
       doc_source := ClearWeb\<rparr>,
     empty_document\<lparr>doc_url := ''http://shadow77ivq2cc3x.onion/index/vault'',
       doc_title := ''DeepNet Secured Vault // Index Node 04'',
       doc_snippet := ''Encrypted storage node with scraped telemetry, logs, historical metadata'',
       doc_content := ''Encrypted storage node containing scraped telemetry, logs and '' @
         ''historical metadata mapping across darknet hidden services. Indexed '' @
         ''onion vault maintained over the tor anonymity network.'',
       doc_source := Onion\<rparr>,
     empty_document\<lparr>doc_url := ''http://anondrop55s3q5xx.onion/drop'',
       doc_title := ''Hidden Services Directory & Mirror'',
       doc_snippet := ''Decentralized onion drop point verified via SOCKS5 proxy routing loop'',
       doc_content := ''Decentralized onion drop point. Verified active via SOCKS5 proxy '' @
         ''routing loop against the local tor daemon on 127.0.0.1:9050. '' @
         ''Accepts mirror submissions and metadata exchange.'',
       doc_source := Onion\<rparr>]"

definition seedDemoData :: "('d, 'w) engine \<Rightarrow> ('d, 'w) engine" where
  "seedDemoData e = set_index (fold (\<lambda>d ix. fst (addDocument ix d)) demo_documents (en_index e)) e"

section \<open>The shared manager is a proxy manager\<close>

definition manager_known :: "'d manager \<Rightarrow> (string \<times> u16) set" where
  "manager_known mg = (case mg of DefaultManager m \<Rightarrow> default_known m | PooledManager m \<Rightarrow> pooled_known m)"

interpretation engine_mgr: proxy_manager "engine_ops pf" manager_known
proof unfold_locales
  fix url mg w e mg' w'
  assume sel: "op_select (engine_ops pf) url mg w = (e, mg', w')"
  show "manager_known mg' = manager_known mg"
    using sel
    by (cases mg) (auto simp: engine_ops_def Let_def manager_known_def
        dest: single.select_keeps pool.select_keeps split: prod.splits)
  assume "\<not> is_none e"
  then show "address e \<in> manager_known mg"
    using sel
    by (cases mg) (auto simp: engine_ops_def Let_def manager_known_def
        dest: single.select_known pool.select_known split: prod.splits)
next
  show "manager_known (op_success (engine_ops pf) host port lat mg) = manager_known mg" for host port lat mg
    by (cases mg) (simp_all add: engine_ops_def Let_def manager_known_def single.success_keeps pool.success_keeps)
  show "manager_known (op_failure (engine_ops pf) w host port mg) = manager_known mg" for w host port mg
    by (cases mg) (simp_all add: engine_ops_def Let_def manager_known_def single.failure_keeps pool.failure_keeps)
qed

section \<open>URLs\<close>

lemma normalizeUrl_web:
  "normalizeUrl s = [] \<or> prefix ''http://'' (normalizeUrl s) \<or> prefix ''https://'' (normalizeUrl s)"
  by (simp add: normalizeUrl_def Let_def)

lemma normalizeUrl_idem: "normalizeUrl (normalizeUrl s) = normalizeUrl s"
proof -
  define u where "u = trim s"
  have idem: "trim u = u" by (simp add: u_def)
  have "trim (''http://'' @ u) = ''http://'' @ u" if "u \<noteq> []"
    using that trim_last [of s] by (intro trim_eq_selfI) (auto simp: u_def is_space_def)
  moreover have "trim [] = []" by (simp add: trim_def)
  ultimately show ?thesis using idem by (simp add: normalizeUrl_def Let_def u_def [symmetric])
qed

section \<open>Saving and loading\<close>

lemma by_url_anonymous: "by_url (anonymous ds) = by_url ds"
  by (simp add: by_url_def comp_def strip_id_def)

lemma by_url_iff:
  "distinct (map doc_url ds) \<Longrightarrow> by_url ds u = Some x \<longleftrightarrow> (\<exists>d\<in>set ds. doc_url d = u \<and> strip_id d = x)"
proof -
  assume "distinct (map doc_url ds)"
  then have "distinct (map fst (map (\<lambda>d. (doc_url d, strip_id d)) ds))" by (simp add: comp_def)
  then show ?thesis by (auto simp: by_url_def map_of_eq_Some_iff rev_map [symmetric])
qed

lemma by_url_allDocuments:
  assumes I: "index_inv s"
  shows "by_url (allDocuments s) = index_view s"
proof (rule ext)
  fix u
  have doc: "d \<in> set (allDocuments s) \<longleftrightarrow> (\<exists>i. map_of (ix_docs s) i = Some d)" for d
    using I by (force simp: allDocuments_def index_inv_def map_of_eq_Some_iff)
  have "by_url (allDocuments s) u = Some x \<longleftrightarrow> index_view s u = Some x" for x
  proof -
    have "by_url (allDocuments s) u = Some x \<longleftrightarrow> (\<exists>d\<in>set (allDocuments s). doc_url d = u \<and> strip_id d = x)"
      by (rule by_url_iff [OF inv_distinct_urls [OF I]])
    also have "\<dots> \<longleftrightarrow> index_view s u = Some x"
      using index_inv_docD [OF I] index_inv_urlD [OF I, of u]
      by (force simp: doc index_view_def split: option.split)
    finally show ?thesis .
  qed
  then show "by_url (allDocuments s) u = index_view s u" by (metis option.exhaust)
qed

lemma load_view:
  assumes "index_inv s" and "storable (allDocuments s)"
  shows "index_inv (replaceAll t (anonymous (allDocuments s)))"
    and "index_view (replaceAll t (anonymous (allDocuments s))) = index_view s"
proof -
  have "length (anonymous (allDocuments s)) \<le> 2 ^ 64 - 2" using assms(2) by (simp add: storable_def)
  note r = replaceAll_store [OF this, of t]
  from r show "index_inv (replaceAll t (anonymous (allDocuments s)))"
    "index_view (replaceAll t (anonymous (allDocuments s))) = index_view s"
    by (simp_all add: by_url_anonymous by_url_allDocuments [OF assms(1)])
qed

text \<open>
  C31: Persistence loses nothing: an index saved to a file, plain or encrypted under a password,
  and loaded again (into any engine, whatever it held before) has exactly the same document at
  every URL, and the loaded index is a consistent index.
\<close>

theorem engine_save_load:
  assumes I: "index_inv (en_index e)" and S: "storable (allDocuments (en_index e))"
    and sd: "sodium_laws sd" "sd_init sd" "length (serializeDocuments (allDocuments (en_index e))) < 2 ^ 63"
    and plain: "saveState path e dk = (Inr (), dk1)"
    and enc: "saveEncrypted sd path2 pw e r dk = (Inr (), r', dk2)"
  shows "\<exists>e1 e2. loadState path dk1 t = (Inr (), e1) \<and> index_inv (en_index e1) \<and>
      index_view (en_index e1) = index_view (en_index e) \<and>
      loadEncrypted sd path2 pw dk2 t = (Inr (), e2) \<and> index_inv (en_index e2) \<and>
      index_view (en_index e2) = index_view (en_index e)"
proof -
  have "loadSnapshot path dk1 = Inr (anonymous (allDocuments (en_index e)))"
    using load_saved [OF S] plain by (simp add: saveState_def)
  moreover have "loadEncryptedSnapshot sd path2 pw dk2 = Inr (anonymous (allDocuments (en_index e)))"
    using encrypted_roundtrip [OF sd(1,2) S sd(3)] enc by (simp add: saveEncrypted_def)
  ultimately show ?thesis
    by (simp add: loadState_def loadEncrypted_def set_index_def load_view [OF I S])
qed

definition sample_platform :: "(rat, nat) platform" where
  "sample_platform = \<lparr>pf_env = sample_env, pf_curl = sample_curl, pf_draw = (\<lambda>w. (100, w)), pf_haveCurl = True,
     pf_ln = (\<lambda>x. x), pf_hash = (\<lambda>s. of_nat (length s))\<rparr>"

definition sample_index :: inverted_index where
  "sample_index = replaceAll empty_index sample_docs"

definition sample_engine :: "(rat, nat) engine" where
  "sample_engine = set_index sample_index (new_engine sample_platform default_config 0)"

lemma sample_engine_index [simp]: "en_index sample_engine = sample_index"
  by (simp add: sample_engine_def set_index_def)

lemma sample_index_facts:
  "index_inv sample_index" "allDocuments sample_index = [empty_document\<lparr>doc_id := 1, doc_url := ''http://a/'', doc_title := ''A''\<rparr>]"
proof -
  show "index_inv sample_index" unfolding sample_index_def by (rule replaceAll_store(1)) simp
  show "allDocuments sample_index = [empty_document\<lparr>doc_id := 1, doc_url := ''http://a/'', doc_title := ''A''\<rparr>]"
    by code_simp
qed

lemma engine_save_load_witness:
  "\<exists>e1 e2. loadState ''f'' (snd (saveState ''f'' sample_engine good_disk)) sample_engine = (Inr (), e1) \<and>
     loadEncrypted toy_sodium ''g'' ''pw'' (snd (snd (saveEncrypted toy_sodium ''g'' ''pw'' sample_engine () good_disk)))
       sample_engine = (Inr (), e2) \<and>
     index_view (en_index e1) ''http://a/'' = index_view (en_index e2) ''http://a/''"
proof -
  let ?docs = "[empty_document\<lparr>doc_id := 1, doc_url := ''http://a/'', doc_title := ''A''\<rparr>]"
  have st: "storable (allDocuments (en_index sample_engine))"
    by (simp add: sample_index_facts storable_def short_def empty_document_def)
  have len: "length (serializeDocuments (allDocuments (en_index sample_engine))) < 2 ^ 63"
  proof -
    have "length (serializeDocuments ?docs) < 100" by code_simp
    then show ?thesis by (simp add: sample_index_facts)
  qed
  have p: "saveState ''f'' sample_engine good_disk = (Inr (), snd (saveState ''f'' sample_engine good_disk))"
    by (simp add: saveState_def saveSnapshot_def write_file_def)
  have "fst (saveEncryptedSnapshot toy_sodium ''g'' ''pw'' ?docs () good_disk) = Inr ()" by code_simp
  then have c: "saveEncrypted toy_sodium ''g'' ''pw'' sample_engine () good_disk =
      (Inr (), (), snd (snd (saveEncrypted toy_sodium ''g'' ''pw'' sample_engine () good_disk)))"
    by (simp add: saveEncrypted_def sample_index_facts prod_eq_iff)
  have i: "sd_init toy_sodium" by (simp add: toy_sodium_def)
  have "index_inv (en_index sample_engine)" by (simp add: sample_index_facts)
  from engine_save_load [OF this st toy_sodium_laws i len p c, of sample_engine] show ?thesis by auto
qed

end
