(* ===== verification/Http.thy ===== *)
theory Http
  imports Engine
begin

text \<open>
  What the two hand-written HTTP servers (\<open>src/web_server.cpp\<close> and \<open>src/admin.cpp\<close>) have in
  common, word for word in the code: opening the loopback listener, receiving a request up to the
  blank line under a size limit, sending a response in as many pieces as the socket takes, splitting
  the request line and the query string, and escaping HTML. The answers of the socket calls are
  lists. The theory proves that escaping removes every markup character and loses nothing.
\<close>

section \<open>Text\<close>

text \<open>
  A string literal of the sources: the back quote stands for the double quote, the tilde for line
  feed and the circumflex for carriage return; no literal of the sources uses these three.
\<close>

definition lit :: "string \<Rightarrow> string" where
  "lit s = map (\<lambda>c. if c = CHR 0x60 then CHR 0x22 else if c = CHR ''~'' then CHR 0x0A
     else if c = CHR 0x5E then CHR 0x0D else c) s"

definition utf8_bytes :: "nat list \<Rightarrow> string" where
  "utf8_bytes bs = map char_of bs"

definition crlf :: string where "crlf = [CHR 0x0D, CHR 0x0A]"

definition escape_html_char :: "char \<Rightarrow> string" where
  "escape_html_char c =
     (if c = CHR ''&'' then ''&amp;''
      else if c = CHR ''<'' then ''&lt;''
      else if c = CHR ''>'' then ''&gt;''
      else if c = CHR 0x22 then ''&quot;''
      else if c = CHR 0x27 then ''&#39;''
      else [c])"

definition escapeHtml :: "string \<Rightarrow> string" where
  "escapeHtml s = concat (map escape_html_char s)"

section \<open>Sockets\<close>

text \<open>
  The loop around \<open>send\<close>: each answer is the number of bytes taken, or not positive for an error.
  The result is what the peer was sent and the answers that are left.
\<close>

fun send_all :: "int list \<Rightarrow> string \<Rightarrow> string \<times> int list" where
  "send_all [] s = ([], [])"
| "send_all (n # ns) s =
     (if s = [] then ([], n # ns)
      else if n \<le> 0 then ([], ns)
      else let (t, ns) = send_all ns (drop (nat n) s) in (take (nat n) s @ t, ns))"

text \<open>Receiving until the blank line: the chunks the peer sends, an empty one for a closed or failed socket.\<close>

fun receive :: "nat \<Rightarrow> string \<Rightarrow> string list \<Rightarrow> string \<times> nat option" where
  "receive limit buf [] = (buf, None)"
| "receive limit buf (chunk # chunks) =
     (if limit \<le> length buf \<or> chunk = [] then (buf, None)
      else
        let buf = buf @ chunk
        in case str_find (crlf @ crlf) buf of
             Some headerEnd \<Rightarrow> (buf, Some headerEnd)
           | None \<Rightarrow> receive limit buf chunks)"

text \<open>The request line and the other headers of a received head.\<close>

definition split_head :: "string \<Rightarrow> string \<times> string" where
  "split_head head =
     (case str_find crlf head of
        None \<Rightarrow> (head, [])
      | Some lineEnd \<Rightarrow> (take lineEnd head, drop (lineEnd + 2) head))"

text \<open>\<open>line >> method >> target\<close>: the first two words.\<close>

definition next_word :: "string \<Rightarrow> string \<times> string" where
  "next_word s = (let t = dropWhile is_space s in (takeWhile (\<lambda>c. \<not> is_space c) t, dropWhile (\<lambda>c. \<not> is_space c) t))"

definition request_words :: "string \<Rightarrow> string \<times> string" where
  "request_words line = (let (m, rest) = next_word line; (t, _) = next_word rest in (m, t))"

text \<open>The path of a target and its query string.\<close>

definition split_target :: "string \<Rightarrow> string \<times> string" where
  "split_target target =
     (case str_find ''?'' target of
        None \<Rightarrow> (target, [])
      | Some q \<Rightarrow> (take q target, drop (q + 1) target))"

text \<open>The value of the first parameter with the given prefix, still encoded.\<close>

fun split_amp :: "string \<Rightarrow> string \<Rightarrow> string list" where
  "split_amp acc [] = [acc]"
| "split_amp acc (c # s) = (if c = CHR ''&'' then acc # split_amp [] s else split_amp (acc @ [c]) s)"

definition first_param :: "string \<Rightarrow> string \<Rightarrow> string option" where
  "first_param key query =
     (case find_if (prefix key) (split_amp [] query) of
        None \<Rightarrow> None
      | Some i \<Rightarrow> Some (drop (length key) (split_amp [] query ! i)))"

section \<open>The listener\<close>

text \<open>The answers of the operating system while a listener is opened; an address is loopback or any.\<close>

datatype inet_addr = Loopback | AnyAddr

record listen_answers =
  la_socket :: int
  la_bind :: int
  la_listen :: int
  la_port :: u16
  la_errno :: int

record server =
  sv_listen :: "(inet_addr \<times> u16) option"
  sv_port :: u16
  sv_running :: bool
  sv_active :: nat

definition new_server :: server where
  "new_server = \<lparr>sv_listen = None, sv_port = 0, sv_running = False, sv_active = 0\<rparr>"

definition start_server :: "(int \<Rightarrow> string) \<Rightarrow> listen_answers \<Rightarrow> server \<Rightarrow> (string + unit) \<times> server" where
  "start_server strerror la sv =
     (if la_socket la < 0 then (Inl (''socket(): '' @ strerror (la_errno la)), sv\<lparr>sv_listen := None\<rparr>)
      else if la_bind la \<noteq> 0 then (Inl (''bind(): '' @ strerror (la_errno la)), sv\<lparr>sv_listen := None\<rparr>)
      else if la_listen la \<noteq> 0 then (Inl (''listen(): '' @ strerror (la_errno la)), sv\<lparr>sv_listen := None\<rparr>)
      else (Inr (), sv\<lparr>sv_listen := Some (Loopback, la_port la), sv_port := la_port la, sv_running := True\<rparr>))"

definition stop_server :: "server \<Rightarrow> server" where
  "stop_server sv = sv\<lparr>sv_running := False, sv_listen := None\<rparr>"

section \<open>Escaping\<close>

definition markup :: "char \<Rightarrow> bool" where
  "markup c \<longleftrightarrow> c = CHR ''<'' \<or> c = CHR ''>'' \<or> c = CHR 0x22 \<or> c = CHR 0x27"

lemma escapeHtml_simps [simp]: "escapeHtml [] = []" "escapeHtml (c # s) = escape_html_char c @ escapeHtml s"
  by (simp_all add: escapeHtml_def)

lemma escapeHtml_append: "escapeHtml (s @ t) = escapeHtml s @ escapeHtml t"
  by (simp add: escapeHtml_def)

lemma escape_no_markup: "filter markup (escapeHtml s) = []"
  by (induction s) (simp_all add: escape_html_char_def markup_def)

text \<open>Reading the five entities back.\<close>

fun unescapeHtml :: "string \<Rightarrow> string" where
  "unescapeHtml [] = []"
| "unescapeHtml (c # s) =
     (if c \<noteq> CHR ''&'' then c # unescapeHtml s
      else if prefix ''amp;'' s then CHR ''&'' # unescapeHtml (drop 4 s)
      else if prefix ''lt;'' s then CHR ''<'' # unescapeHtml (drop 3 s)
      else if prefix ''gt;'' s then CHR ''>'' # unescapeHtml (drop 3 s)
      else if prefix ''quot;'' s then CHR 0x22 # unescapeHtml (drop 5 s)
      else if prefix ''#39;'' s then CHR 0x27 # unescapeHtml (drop 4 s)
      else c # unescapeHtml s)"

lemma unescape_escape: "unescapeHtml (escapeHtml s) = s"
  by (induction s) (simp_all add: escape_html_char_def)

text \<open>What \<open>send_all\<close> sends is the beginning of the message.\<close>

lemma send_all_prefix: "prefix (fst (send_all ns s)) s"
proof (induction ns s rule: send_all.induct)
  case (2 n ns s)
  then show ?case
    by (auto simp: Let_def case_prod_beta) (metis append_take_drop_id same_prefix_prefix)
qed simp

end
