(* ===== verification/Web.thy ===== *)
theory Web
  imports Http
begin

text \<open>
  The search front end of \<open>src/web_server.cpp\<close>: percent decoding, the result page, the response
  with the privacy headers, the request handler, and the accept loop with its connection cap as a
  step relation. How the library prints a score is a parameter, and so is the search. The theory proves that
  no query and no indexed text can inject markup, what every request is answered, and that the
  connection cap holds in every interleaving.
\<close>

section \<open>Percent decoding\<close>

text \<open>\<open>None\<close> is the result false.\<close>

fun urlDecode :: "string \<Rightarrow> string option" where
  "urlDecode [] = Some []"
| "urlDecode (c # s) =
     (if c = CHR ''+'' then map_option ((#) (CHR '' '')) (urlDecode s)
      else if c = CHR 0x25 then
        (case s of
           a # b # r \<Rightarrow>
             (case (hex_val a, hex_val b) of
                (Some hi, Some lo) \<Rightarrow> map_option ((#) (char_of (hi * 16 + lo))) (urlDecode r)
              | _ \<Rightarrow> None)
         | _ \<Rightarrow> None)
      else map_option ((#) c) (urlDecode s))"

section \<open>Responses\<close>

definition kPrivacyHeaders :: string where
  "kPrivacyHeaders =
     lit ''Cache-Control: no-store, no-cache, must-revalidate^~Pragma: no-cache^~X-Content-Type-Options: no'' @
     lit ''sniff^~X-Frame-Options: DENY^~Referrer-Policy: no-referrer^~Content-Security-Policy: default-src'' @
     lit '' 'none'; style-src 'unsafe-inline'; script-src 'none'; form-action 'self'; base-uri 'none'; fram'' @
     lit ''e-ancestors 'none'; img-src 'none'; media-src 'none'; object-src 'none'^~Permissions-Policy: int'' @
     lit ''erest-cohort=(), browsing-topics=()^~Clear-Site-Data: `cache`,`cookies`,`storage`^~''"

definition web_response :: "nat \<Rightarrow> string \<Rightarrow> string \<Rightarrow> string" where
  "web_response status statusText body =
     ''HTTP/1.1 '' @ nat_to_string status @ '' '' @ statusText @ crlf @
     ''Content-Type: text/html; charset=utf-8'' @ crlf @
     kPrivacyHeaders @
     ''Content-Length: '' @ nat_to_string (length body) @ crlf @
     ''Connection: close'' @ crlf @
     crlf"

text \<open>The head and then the body, each in its own loop.\<close>

definition sendResponse :: "int list \<Rightarrow> nat \<Rightarrow> string \<Rightarrow> string \<Rightarrow> string" where
  "sendResponse sends status statusText body =
     (let (a, sends) = send_all sends (web_response status statusText body);
          (b, sends) = send_all sends body
      in a @ b)"

section \<open>The page\<close>

definition result_item :: "('d \<Rightarrow> string) \<Rightarrow> 'd scored_document \<Rightarrow> string" where
  "result_item fmt2 r =
     (let d = sc_doc r;
          badge = (if isOnion d then lit ''<span class=`d`>[DARKWEB]</span>'' else lit ''<span class=`c`>[CLEARWEB]</span>'')
      in lit ''<li>'' @
      badge @
      lit '' <strong>'' @
      escapeHtml (doc_title d) @
      lit ''</strong><br>~<a href=`'' @
      escapeHtml (doc_url d) @
      lit ''`>'' @
      escapeHtml (doc_url d) @
      lit ''</a><br>~<span class=`meta`>'' @
      escapeHtml (doc_snippet d) @
      lit ''</span> <span class=`s`>score '' @
      fmt2 (sc_score r) @
      lit ''</span></li>~'')"

definition page_head :: "string \<Rightarrow> string \<Rightarrow> string" where
  "page_head title query =
     lit ''<!DOCTYPE html>~<html lang=`en`><head><meta charset=`utf-8`>~<title>'' @
     escapeHtml title @
     lit ''</title>~<meta name=`robots` content=`noindex, nofollow, noarchive`>~<style>body{font-family:ui-'' @
     lit ''monospace,Menlo,Consolas,monospace;background:#0d1117;color:#c9d1d9;max-width:760px;margin:2rem '' @
     lit ''auto;padding:0 1rem;line-height:1.5}h1{color:#58a6ff;font-size:1.3rem}a{color:#58a6ff;word-break'' @
     lit '':break-all}input{width:100%;padding:.55rem;background:#161b22;border:1px solid #30363d;color:#c9'' @
     lit ''d1d9;border-radius:6px;font:inherit}.meta{color:#8b949e;font-size:.85rem}.d{color:#bc8cff}.c{col'' @
     lit ''or:#3fb950}.s{color:#e3b341}li{margin:.9rem 0}.hint{color:#484f58;font-size:.8rem}</style></head'' @
     lit ''><body>~<h1>Shadow SE</h1>~<form method=`get` action=`/`>~<input type=`text` name=`q` maxlength='' @
     lit ''`256` autofocus placeholder=`search the index&hellip;` value=`'' @
     escapeHtml query @
     lit ''`>~</form>~''"

definition renderPage :: "('d \<Rightarrow> string) \<Rightarrow> string \<Rightarrow> string \<Rightarrow> 'd scored_document list \<Rightarrow> string" where
  "renderPage fmt2 title query results =
     page_head title query @
     (if query \<noteq> [] then
      lit ''<p class=`meta`>'' @
      nat_to_string (length results) @
      lit '' result(s) for <span class=`s`>'' @
      escapeHtml query @
      lit ''</span> &mdash; no cookies, no logs, no trackers.</p>~''
      else []) @
     (if results = [] \<and> query \<noteq> [] then lit ''<p class=`meta`>No matches.</p>~'' else []) @
     (if results \<noteq> [] then lit ''<ol>~'' @ concat (map (result_item fmt2) results) @ lit ''</ol>~'' else []) @
     lit ''<p class=`hint`>Use <code>search</code>/<code>crawl</code> in the terminal, or crawl then <code>'' @
      lit ''save</code> an encrypted snapshot and start <code>shadow-se-web --load &lt;snapshot&gt;</code>.<'' @
      lit ''/p>~</body></html>~''"

section \<open>Requests\<close>

record web_options =
  wo_host :: string
  wo_port :: u16
  wo_maxConns :: nat
  wo_maxRequestBytes :: nat
  wo_maxQueryLength :: nat
  wo_pageTitle :: string

definition default_web_options :: web_options where
  "default_web_options = \<lparr>wo_host = ''127.0.0.1'', wo_port = 8080, wo_maxConns = 24, wo_maxRequestBytes = 16 * 1024,
     wo_maxQueryLength = 256, wo_pageTitle = ''Shadow SE''\<rparr>"

text \<open>The decoded \<open>q\<close> parameter, cut to the cap; a parameter that does not decode is dropped.\<close>

definition web_query :: "web_options \<Rightarrow> string \<Rightarrow> string" where
  "web_query opts queryString =
     (let query = (case first_param ''q='' queryString of
            None \<Rightarrow> []
          | Some p \<Rightarrow> (case urlDecode p of Some decoded \<Rightarrow> decoded | None \<Rightarrow> []))
      in take (wo_maxQueryLength opts) query)"

definition serveRequest :: "(string \<Rightarrow> nat \<Rightarrow> 'd scored_document list) \<Rightarrow> ('d \<Rightarrow> string) \<Rightarrow> web_options \<Rightarrow>
    string \<Rightarrow> nat \<times> string \<times> string" where
  "serveRequest query_docs fmt2 opts requestLine =
     (let (mth, target) = request_words requestLine
      in if mth \<noteq> ''GET'' then (405, ''Method Not Allowed'', ''<html><body>GET only.</body></html>'')
         else if contains target ''..'' then (400, ''Bad Request'', ''<html><body>Bad request.</body></html>'')
         else
           let (path, queryString) = split_target target
           in if path \<noteq> ''/'' then
                (404, ''Not Found'', lit ''<html><body><h1>404</h1><p>Not found. Try <a href=`/`>/</a>.</p></body></html>'')
              else
                let query = web_query opts queryString;
                    results = (if query = [] then [] else query_docs query 20)
                in (200, ''OK'', renderPage fmt2 (wo_pageTitle opts) query results))"

text \<open>A client's connection: what the peer is sent, nothing for a malformed or oversized request.\<close>

definition handleClient :: "(string \<Rightarrow> nat \<Rightarrow> 'd scored_document list) \<Rightarrow> ('d \<Rightarrow> string) \<Rightarrow> web_options \<Rightarrow>
    string list \<Rightarrow> int list \<Rightarrow> string" where
  "handleClient query_docs fmt2 opts chunks sends =
     (case receive (wo_maxRequestBytes opts) [] chunks of
        (buf, None) \<Rightarrow> []
      | (buf, Some headerEnd) \<Rightarrow>
          let (requestLine, headers) = split_head (take headerEnd buf);
              (status, statusText, body) = serveRequest query_docs fmt2 opts requestLine
          in sendResponse sends status statusText body)"

section \<open>The accept loop\<close>

text \<open>
  Where the accept thread is: about to test \<open>running_\<close>, inside \<open>accept\<close>, or returned. Each client
  has a detached thread that decrements the counter when it is done.
\<close>

datatype acceptor = Testing | Accepting | Returned

record web_state =
  ws_server :: server
  ws_thread :: acceptor

datatype web_event = Loop | Refuse | Serve | NoClient | Done | StopServer

definition connect_client :: "nat \<Rightarrow> server \<Rightarrow> web_event \<times> server" where
  "connect_client maxConns sv =
     (if maxConns \<le> sv_active sv then (Refuse, sv) else (Serve, sv\<lparr>sv_active := sv_active sv + 1\<rparr>))"

inductive web_step :: "nat \<Rightarrow> web_state \<Rightarrow> web_event \<Rightarrow> web_state \<Rightarrow> bool" for maxConns where
  web_loop: "ws_thread s = Testing \<Longrightarrow>
    web_step maxConns s Loop (s\<lparr>ws_thread := (if sv_running (ws_server s) then Accepting else Returned)\<rparr>)"
| web_fail: "ws_thread s = Accepting \<Longrightarrow>
    web_step maxConns s NoClient (s\<lparr>ws_thread := (if sv_running (ws_server s) then Testing else Returned)\<rparr>)"
| web_interrupted: "ws_thread s = Accepting \<Longrightarrow> web_step maxConns s NoClient (s\<lparr>ws_thread := Testing\<rparr>)"
| web_client: "ws_thread s = Accepting \<Longrightarrow> connect_client maxConns (ws_server s) = (ev, sv) \<Longrightarrow>
    web_step maxConns s ev (s\<lparr>ws_server := sv, ws_thread := Testing\<rparr>)"
| web_done: "0 < sv_active (ws_server s) \<Longrightarrow>
    web_step maxConns s Done (s\<lparr>ws_server := (ws_server s)\<lparr>sv_active := sv_active (ws_server s) - 1\<rparr>\<rparr>)"
| web_stop: "web_step maxConns s StopServer (s\<lparr>ws_server := stop_server (ws_server s)\<rparr>)"

inductive_cases web_stepE: "web_step maxConns s ev s'"

text \<open>Runs of any server's step relation, with their events.\<close>

inductive server_run :: "(web_state \<Rightarrow> web_event \<Rightarrow> web_state \<Rightarrow> bool) \<Rightarrow> web_state \<Rightarrow> web_event list \<Rightarrow> web_state \<Rightarrow> bool" for step where
  server_run_nil: "server_run step s [] s"
| server_run_snoc: "server_run step s tr s' \<Longrightarrow> step s' ev s'' \<Longrightarrow> server_run step s (tr @ [ev]) s''"

inductive_simps server_run_Nil [simp]: "server_run step s [] s'"

section \<open>Pages carry no foreign markup\<close>

lemma filter_markup_digits: "filter markup (nat_to_string n) = []"
proof -
  have "is_digit c \<Longrightarrow> \<not> markup c" for c by (auto simp: is_digit_def markup_def)
  then show ?thesis using nat_to_string_digits [of n] by (simp add: filter_empty_conv)
qed

lemma result_item_same_markup:
  assumes f: "\<And>x. filter markup (fmt2 x) = []" and o: "isOnion (sc_doc r) = isOnion (sc_doc r')"
  shows "filter markup (result_item fmt2 r) = filter markup (result_item fmt2 r')"
  by (simp only: result_item_def Let_def filter_append escape_no_markup f o)

lemma result_items_markup:
  assumes f: "\<And>x. filter markup (fmt2 x) = []"
  shows "map (\<lambda>r. isOnion (sc_doc r)) rs = map (\<lambda>r. isOnion (sc_doc r)) rs' \<Longrightarrow>
    filter markup (concat (map (result_item fmt2) rs)) = filter markup (concat (map (result_item fmt2) rs'))"
proof (induction rs arbitrary: rs')
  case (Cons r rs)
  then obtain r' rs2 where rs': "rs' = r' # rs2" "isOnion (sc_doc r) = isOnion (sc_doc r')"
    "map (\<lambda>r. isOnion (sc_doc r)) rs = map (\<lambda>r. isOnion (sc_doc r)) rs2" by (cases rs') auto
  then show ?case
    using Cons.IH [OF rs'(3)] result_item_same_markup [OF f rs'(2)] by (simp only: rs' list.map concat.simps filter_append)
qed simp

text \<open>
  C14: No query and no indexed text can inject markup into a page: two pages whose results are
  equally many and of the same kinds have exactly the same tag and quote characters in the same
  order, whatever their titles, queries, URLs and snippets are.
\<close>

theorem page_noninterference:
  assumes "\<And>x. filter markup (fmt2 x) = []"
    and "map (\<lambda>r. isOnion (sc_doc r)) rs = map (\<lambda>r. isOnion (sc_doc r)) rs'"
    and "query = [] \<longleftrightarrow> query' = []"
  shows "filter markup (renderPage fmt2 title query rs) = filter markup (renderPage fmt2 title' query' rs')"
proof -
  have l: "length rs = length rs'" using assms(2) by (metis length_map)
  then have e: "rs = [] \<longleftrightarrow> rs' = []" by (metis length_0_conv)
  have h: "filter markup (page_head t q) = filter markup (page_head [] [])" for t q
    by (simp only: page_head_def filter_append escape_no_markup)
  have items: "filter markup (concat (map (result_item fmt2) rs)) = filter markup (concat (map (result_item fmt2) rs'))"
    by (rule result_items_markup [OF assms(1,2)])
  show ?thesis
    unfolding renderPage_def filter_append h [of title query] h [of title' query']
    by (cases "query = []"; cases "rs = []")
      (use assms(3) e items in \<open>simp_all only: filter_append escape_no_markup filter_markup_digits if_True if_False simp_thms\<close>)
qed

lemma page_noninterference_witness:
  "filter markup (renderPage (\<lambda>x :: rat. ''1.00'') ''T'' ''<script>''
      [\<lparr>sc_doc = empty_document\<lparr>doc_title := [CHR 0x22, CHR ''>'']\<rparr>, sc_score = 1\<rparr>]) =
   filter markup (renderPage (\<lambda>x :: rat. ''1.00'') ''S'' ''q'' [\<lparr>sc_doc = empty_document, sc_score = 2\<rparr>])"
  by (rule page_noninterference) (simp_all add: markup_def isOnion_def empty_document_def)

section \<open>What requests are answered\<close>

text \<open>Every byte percent-encoded.\<close>

definition urlEncode :: "string \<Rightarrow> string" where
  "urlEncode s = concat (map (\<lambda>c. [CHR 0x25, hex_digit (code c div 16), hex_digit (code c mod 16)]) s)"

lemma urlEncode_simps [simp]: "urlEncode [] = []"
  "urlEncode (c # s) = CHR 0x25 # hex_digit (code c div 16) # hex_digit (code c mod 16) # urlEncode s"
  by (simp_all add: urlEncode_def)

lemma urlDecode_encode: "urlDecode (urlEncode s) = Some s"
proof (induction s)
  case (Cons c s)
  have "code c div 16 < 16" by (simp add: less_mult_imp_div_less)
  then show ?case using Cons by simp
qed simp

lemma hex_digit_plain:
  assumes "d < 16"
  shows "hex_digit d \<noteq> CHR ''&''" "hex_digit d \<noteq> CHR ''?''" "hex_digit d \<noteq> CHR ''.''" "\<not> is_space (hex_digit d)"
proof -
  have "list_all (\<lambda>d. hex_digit d \<noteq> CHR ''&'' \<and> hex_digit d \<noteq> CHR ''?'' \<and> hex_digit d \<noteq> CHR ''.'' \<and>
    \<not> is_space (hex_digit d)) [0..<16]" by code_simp
  then show "hex_digit d \<noteq> CHR ''&''" "hex_digit d \<noteq> CHR ''?''" "hex_digit d \<noteq> CHR ''.''" "\<not> is_space (hex_digit d)"
    using assms by (simp_all add: list_all_iff)
qed

lemma urlEncode_plain: "c \<in> set (urlEncode s) \<Longrightarrow> c \<noteq> CHR ''&'' \<and> c \<noteq> CHR ''?'' \<and> c \<noteq> CHR ''.'' \<and> \<not> is_space c"
proof (induction s)
  case (Cons d s)
  have "code d div 16 < 16" "code d mod 16 < 16" by (simp_all add: less_mult_imp_div_less)
  then show ?case using Cons hex_digit_plain by (auto simp: is_space_def)
qed simp

lemma split_amp_plain: "CHR ''&'' \<notin> set s \<Longrightarrow> split_amp acc s = [acc @ s]"
  by (induction acc s rule: split_amp.induct) auto

lemma first_param_encoded: "first_param ''q='' (''q='' @ urlEncode s) = Some (urlEncode s)"
proof -
  have "split_amp [] (''q='' @ urlEncode s) = [''q='' @ urlEncode s]"
    using split_amp_plain [of "''q='' @ urlEncode s" "[]"] urlEncode_plain [of _ s] by auto
  then show ?thesis by (simp only: first_param_def) simp
qed

text \<open>
  C15: A browser's search is answered with the results of what was typed: for the request line of a
  percent-encoded query the front end decodes exactly that query, cuts it to the cap, searches for it
  with the limit 20 and answers 200 with the page of the results; an empty query shows no results and searches for nothing.
\<close>

theorem web_search_answer:
  "serveRequest query_docs fmt2 opts (''GET /?q='' @ urlEncode s @ '' HTTP/1.1'') =
     (let query = take (wo_maxQueryLength opts) s
      in (200, ''OK'', renderPage fmt2 (wo_pageTitle opts) query (if query = [] then [] else query_docs query 20)))"
proof -
  define target where "target = ''/?q='' @ urlEncode s"
  have plain: "\<not> is_space c" "c = CHR ''.'' \<Longrightarrow> False" if "c \<in> set target" for c
    using that urlEncode_plain [of c s] by (auto simp: target_def is_space_def)
  have tw: "takeWhile (\<lambda>c. \<not> is_space c) (target @ '' HTTP/1.1'') = target"
    using plain(1) by (simp add: takeWhile_append2 is_space_def)
  have dw: "dropWhile is_space (CHR '' '' # target @ '' HTTP/1.1'') = target @ '' HTTP/1.1''"
    by (simp add: is_space_def target_def)
  have words: "request_words (''GET '' @ target @ '' HTTP/1.1'') = (''GET'', target)"
    using tw dw by (simp add: request_words_def next_word_def Let_def is_space_def)
  have dots: "\<not> contains target ''..''"
  proof
    assume "contains target ''..''"
    then have "\<exists>a b. target = a @ ''..'' @ b" by (simp only: contains_iff)
    then have "CHR ''.'' \<in> set target" by auto
    then show False using plain(2) by blast
  qed
  have split: "split_target target = (''/'', ''q='' @ urlEncode s)"
    by (simp add: split_target_def target_def)
  have "web_query opts (''q='' @ urlEncode s) = take (wo_maxQueryLength opts) s"
    by (simp only: web_query_def first_param_encoded option.case urlDecode_encode Let_def)
  then show ?thesis
    using words dots split by (simp add: serveRequest_def target_def Let_def)
qed

section \<open>The connection cap\<close>

lemma server_run_last: "server_run step s (tr @ [ev]) s'' \<Longrightarrow> \<exists>s'. server_run step s tr s' \<and> step s' ev s''"
  by (auto elim: server_run.cases)

lemma server_run_split:
  "server_run step s (tr1 @ tr2) s'' \<Longrightarrow> \<exists>s'. server_run step s tr1 s' \<and> server_run step s' tr2 s''"
proof (induction tr2 arbitrary: s'' rule: rev_induct)
  case (snoc ev tr2)
  then obtain s' where "server_run step s (tr1 @ tr2) s'" "step s' ev s''"
    using server_run_last [of step s "tr1 @ tr2" ev s''] by auto
  then show ?case using snoc.IH server_run_snoc by blast
qed (auto intro: server_run_nil)

definition clients :: "web_event list \<Rightarrow> nat" where
  "clients tr = count_list tr Serve + count_list tr Refuse"

definition waiting :: "web_state \<Rightarrow> nat" where
  "waiting s = (if ws_thread s = Accepting then 1 else 0)"

text \<open>
  What the two socket servers promise of their accept loops: a stopped server stays stopped, and
  then only a client \<open>accept\<close> was already waiting for is taken.
\<close>

locale accept_loop =
  fixes step :: "web_state \<Rightarrow> web_event \<Rightarrow> web_state \<Rightarrow> bool"
  assumes stopped: "step s StopServer s' \<Longrightarrow> \<not> sv_running (ws_server s')"
    and stays_stopped: "step s ev s' \<Longrightarrow> \<not> sv_running (ws_server s) \<Longrightarrow> \<not> sv_running (ws_server s')"
    and last_client: "step s ev s' \<Longrightarrow> \<not> sv_running (ws_server s) \<Longrightarrow> clients [ev] + waiting s' \<le> waiting s"
begin

lemma run_stopped:
  "server_run step s tr s' \<Longrightarrow> \<not> sv_running (ws_server s) \<Longrightarrow>
    \<not> sv_running (ws_server s') \<and> clients tr + waiting s' \<le> waiting s"
proof (induction rule: server_run.induct)
  case (server_run_snoc s tr s' ev s'')
  then have "clients [ev] + waiting s'' \<le> waiting s'" "clients tr + waiting s' \<le> waiting s" using last_client by simp_all
  then have "clients (tr @ [ev]) + waiting s'' \<le> waiting s" by (simp add: clients_def)
  then show ?case using server_run_snoc stays_stopped by blast
qed (simp add: clients_def)

lemma after_stop:
  assumes "server_run step s (tr1 @ StopServer # tr2) s'"
  shows "clients tr2 \<le> 1"
proof -
  have "server_run step s ((tr1 @ [StopServer]) @ tr2) s'" using assms by simp
  from server_run_split [OF this] obtain s1 where
    "server_run step s (tr1 @ [StopServer]) s1" and r: "server_run step s1 tr2 s'" by blast
  then have "\<not> sv_running (ws_server s1)" using server_run_last stopped by blast
  from run_stopped [OF r this] show ?thesis by (simp add: waiting_def split: if_splits)
qed

end

lemma web_step_stopped:
  "web_step maxConns s ev s' \<Longrightarrow> (ev = StopServer \<longrightarrow> \<not> sv_running (ws_server s')) \<and>
    (\<not> sv_running (ws_server s) \<longrightarrow> \<not> sv_running (ws_server s') \<and> clients [ev] + waiting s' \<le> waiting s)"
  by (elim web_stepE) (auto simp: connect_client_def stop_server_def clients_def waiting_def split: if_splits)

interpretation web_loop: accept_loop "web_step maxConns"
  by unfold_locales (auto dest: web_step_stopped)

lemma web_run_counts:
  "server_run (web_step maxConns) s tr s' \<Longrightarrow> sv_active (ws_server s) \<le> maxConns \<Longrightarrow>
    sv_active (ws_server s') \<le> maxConns \<and>
    sv_active (ws_server s') + count_list tr Done = sv_active (ws_server s) + count_list tr Serve"
proof (induction rule: server_run.induct)
  case (server_run_snoc s tr s' ev s'')
  from server_run_snoc(2) show ?case
    by (cases rule: web_stepE) (use server_run_snoc in \<open>auto simp: connect_client_def stop_server_def split: if_splits\<close>)
qed simp

text \<open>
  C16: In every interleaving of the accept thread, the client threads and stop, never more clients
  are served at the same time than the connection cap, every served client still counted has not
  finished, and after stop at most one more client (the one \<open>accept\<close> was already waiting for) is taken.
\<close>

theorem web_connection_cap:
  assumes "server_run (web_step maxConns) \<lparr>ws_server = sv, ws_thread = Testing\<rparr> tr s" and "sv_active sv = 0"
  shows "sv_active (ws_server s) \<le> maxConns \<and>
    sv_active (ws_server s) + count_list tr Done = count_list tr Serve \<and>
    (\<forall>tr1 tr2. tr = tr1 @ StopServer # tr2 \<longrightarrow> count_list tr2 Serve + count_list tr2 Refuse \<le> 1)"
  using web_run_counts [OF assms(1)] assms web_loop.after_stop [of maxConns] by (auto simp: clients_def)

lemma web_connection_cap_witness:
  "\<exists>s. server_run (web_step 1) \<lparr>ws_server = new_server\<lparr>sv_running := True\<rparr>, ws_thread = Testing\<rparr> [Loop, Serve] s \<and>
     sv_active (ws_server s) = 1"
proof -
  let ?s0 = "\<lparr>ws_server = new_server\<lparr>sv_running := True\<rparr>, ws_thread = Testing\<rparr>"
  let ?s1 = "?s0\<lparr>ws_thread := Accepting\<rparr>"
  let ?s2 = "?s1\<lparr>ws_server := (ws_server ?s1)\<lparr>sv_active := 1\<rparr>, ws_thread := Testing\<rparr>"
  have "web_step 1 ?s0 Loop ?s1" using web_loop [of ?s0 1] by simp
  moreover have "web_step 1 ?s1 Serve ?s2"
    using web_client [of ?s1 1 Serve "(ws_server ?s1)\<lparr>sv_active := 1\<rparr>"] by (simp add: connect_client_def new_server_def)
  ultimately have r: "server_run (web_step 1) ?s0 [Loop, Serve] ?s2"
    using server_run_snoc [OF server_run_snoc [OF server_run_nil]] by fastforce
  have "sv_active (new_server\<lparr>sv_running := True\<rparr>) = 0" by (simp add: new_server_def)
  from web_connection_cap [OF r this] have "sv_active (ws_server ?s2) = 1" by simp
  with r show ?thesis by blast
qed

end
