(* ===== verification/Json.thy ===== *)
theory Json
  imports Tokenizer
begin

text \<open>
  The JSON values, serializer and parser of \<open>src/json.cpp\<close>. Numbers are idealised as an ordered
  field with floor; how the standard library prints a number that is not an integer (\<open>fmt\<close>) and
  reads a decimal (\<open>std::strtod\<close>) are parameters. The parser reads the suffix that is left, from
  which the offset of an error follows; its recursion is bounded by fuel, and twice the length of
  the text is shown to be enough. The theory proves that parsing inverts serializing.
\<close>

section \<open>Values\<close>

datatype 'd json =
  JNull
  | JBool bool
  | JNumber 'd
  | JString string
  | JArray "'d json list"
  | JObject "(string \<times> 'd json) list"

definition asBool :: "bool \<Rightarrow> 'd json \<Rightarrow> bool" where
  "asBool dflt v = (case v of JBool b \<Rightarrow> b | _ \<Rightarrow> dflt)"

definition asNumber :: "'d \<Rightarrow> 'd json \<Rightarrow> 'd" where
  "asNumber dflt v = (case v of JNumber n \<Rightarrow> n | _ \<Rightarrow> dflt)"

definition asString :: "string \<Rightarrow> 'd json \<Rightarrow> string" where
  "asString dflt v = (case v of JString s \<Rightarrow> s | _ \<Rightarrow> dflt)"

definition json_array :: "'d json \<Rightarrow> 'd json list" where
  "json_array v = (case v of JArray a \<Rightarrow> a | _ \<Rightarrow> [])"

definition json_object :: "'d json \<Rightarrow> (string \<times> 'd json) list" where
  "json_object v = (case v of JObject ob \<Rightarrow> ob | _ \<Rightarrow> [])"

definition json_push :: "'d json \<Rightarrow> 'd json \<Rightarrow> 'd json" where
  "json_push v x = JArray (json_array v @ [x])"

text \<open>\<open>v[key] = x\<close>: the reference \<open>operator[]\<close> returns is the first entry of the key, or a new one.\<close>

fun put_member :: "string \<Rightarrow> 'd json \<Rightarrow> (string \<times> 'd json) list \<Rightarrow> (string \<times> 'd json) list" where
  "put_member key x [] = [(key, x)]"
| "put_member key x ((k, v) # ob) = (if k = key then (k, x) # ob else (k, v) # put_member key x ob)"

definition json_put :: "'d json \<Rightarrow> string \<Rightarrow> 'd json \<Rightarrow> 'd json" where
  "json_put v key x = JObject (put_member key x (json_object v))"

definition json_find :: "string \<Rightarrow> 'd json \<Rightarrow> 'd json option" where
  "json_find key v = (case v of JObject ob \<Rightarrow> map_of ob key | _ \<Rightarrow> None)"

section \<open>Serializer\<close>

abbreviation chr :: "nat \<Rightarrow> char" where
  "chr n \<equiv> char_of n"

definition escape_char :: "char \<Rightarrow> string" where
  "escape_char c =
     (if code c = 34 then [chr 92, chr 34]
      else if code c = 92 then [chr 92, chr 92]
      else if code c = 8 then [chr 92, CHR ''b'']
      else if code c = 12 then [chr 92, CHR ''f'']
      else if code c = 10 then [chr 92, CHR ''n'']
      else if code c = 13 then [chr 92, CHR ''r'']
      else if code c = 9 then [chr 92, CHR ''t'']
      else if code c < 32 then
        [chr 92, CHR ''u'', CHR ''0'', CHR ''0'', hex_digit (code c div 16), hex_digit (code c mod 16)]
      else [c])"

definition escapeString :: "string \<Rightarrow> string" where
  "escapeString s = concat (map escape_char s)"

definition newlineIndent :: "nat \<Rightarrow> string" where
  "newlineIndent level = chr 10 # replicate (level * 2) (CHR '' '')"

definition dump_number :: "('d \<Rightarrow> string) \<Rightarrow> 'd::floor_ceiling \<Rightarrow> string" where
  "dump_number fmt n =
     (if n = of_int \<lfloor>n\<rfloor> \<and> \<bar>n\<bar> < 9200000000000000000 then int_to_string \<lfloor>n\<rfloor> else fmt n)"

fun dumpValue :: "('d \<Rightarrow> string) \<Rightarrow> bool \<Rightarrow> nat \<Rightarrow> 'd::floor_ceiling json \<Rightarrow> string"
and dumpElements :: "('d \<Rightarrow> string) \<Rightarrow> bool \<Rightarrow> nat \<Rightarrow> bool \<Rightarrow> 'd json list \<Rightarrow> string"
and dumpMembers :: "('d \<Rightarrow> string) \<Rightarrow> bool \<Rightarrow> nat \<Rightarrow> bool \<Rightarrow> (string \<times> 'd json) list \<Rightarrow> string" where
  "dumpValue fmt pretty indent JNull = ''null''"
| "dumpValue fmt pretty indent (JBool b) = (if b then ''true'' else ''false'')"
| "dumpValue fmt pretty indent (JNumber n) = dump_number fmt n"
| "dumpValue fmt pretty indent (JString s) = chr 34 # escapeString s @ [chr 34]"
| "dumpValue fmt pretty indent (JArray a) =
     (if a = [] then ''[]''
      else ''['' @ dumpElements fmt pretty indent False a @ (if pretty then newlineIndent indent else []) @ '']'')"
| "dumpValue fmt pretty indent (JObject ob) =
     (if ob = [] then ''{}''
      else ''{'' @ dumpMembers fmt pretty indent False ob @ (if pretty then newlineIndent indent else []) @ ''}'')"
| "dumpElements fmt pretty indent more [] = []"
| "dumpElements fmt pretty indent more (v # vs) =
     (if more then '','' else []) @ (if pretty then newlineIndent (indent + 1) else []) @
     dumpValue fmt pretty (indent + 1) v @ dumpElements fmt pretty indent True vs"
| "dumpMembers fmt pretty indent more [] = []"
| "dumpMembers fmt pretty indent more ((k, v) # ob) =
     (if more then '','' else []) @ (if pretty then newlineIndent (indent + 1) else []) @
     chr 34 # escapeString k @ [chr 34] @ '':'' @ (if pretty then '' '' else []) @
     dumpValue fmt pretty (indent + 1) v @ dumpMembers fmt pretty indent True ob"

definition dump :: "('d \<Rightarrow> string) \<Rightarrow> bool \<Rightarrow> 'd::floor_ceiling json \<Rightarrow> string" where
  "dump fmt pretty v = dumpValue fmt pretty 0 v"

section \<open>Parser\<close>

text \<open>A result, an error message with the number of characters left, or no fuel.\<close>

datatype 'a parsed = Parsed 'a string | Failed string nat | NoFuel

abbreviation fail :: "string \<Rightarrow> string \<Rightarrow> 'a parsed" where
  "fail msg s \<equiv> Failed msg (length s)"

definition json_ws :: "char \<Rightarrow> bool" where
  "json_ws c \<longleftrightarrow> c = CHR '' '' \<or> code c = 9 \<or> code c = 10 \<or> code c = 13"

definition skipWs :: "string \<Rightarrow> string" where
  "skipWs s = dropWhile json_ws s"

definition parseLiteral :: "string \<Rightarrow> 'd json \<Rightarrow> string \<Rightarrow> 'd json parsed" where
  "parseLiteral lit v s =
     (if take (length lit) s \<noteq> lit then fail ''invalid literal'' s else Parsed v (drop (length lit) s))"

text \<open>The end of a number: digits, an optional fraction, an optional exponent.\<close>

definition after_digits :: "string \<Rightarrow> string" where
  "after_digits s = dropWhile is_digit s"

definition after_number :: "string \<Rightarrow> string" where
  "after_number s =
     (let s = after_digits s;
          s = (case s of c # r \<Rightarrow> if c = CHR ''.'' then after_digits r else s | [] \<Rightarrow> s)
      in case s of
           c # r \<Rightarrow>
             if c = CHR ''e'' \<or> c = CHR ''E''
             then after_digits (case r of d # q \<Rightarrow> if d = CHR ''+'' \<or> d = CHR ''-'' then q else r | [] \<Rightarrow> r)
             else s
         | [] \<Rightarrow> s)"

definition parseNumber :: "(string \<Rightarrow> 'd) \<Rightarrow> string \<Rightarrow> 'd json parsed" where
  "parseNumber strtod s0 =
     (let s = (case s0 of c # r \<Rightarrow> if c = CHR ''-'' then r else s0 | [] \<Rightarrow> s0)
      in if s = [] then fail ''bad number'' s
         else
           let r = after_number s;
               num = take (length s0 - length r) s0
           in if num = [] \<or> num = ''-'' then fail ''bad number'' r else Parsed (JNumber (strtod num)) r)"

text \<open>\<open>readHex4\<close>: the value, or what is left at the failure.\<close>

fun hex4_loop :: "nat \<Rightarrow> nat \<Rightarrow> string \<Rightarrow> string + nat \<times> string" where
  "hex4_loop 0 v s = Inr (v, s)"
| "hex4_loop (Suc n) v [] = Inl []"
| "hex4_loop (Suc n) v (c # s) =
     (case hex_val c of None \<Rightarrow> Inl s | Some d \<Rightarrow> hex4_loop n (v * 16 + d) s)"

definition readHex4 :: "string \<Rightarrow> string + nat \<times> string" where
  "readHex4 s = (if length s < 4 then Inl s else hex4_loop 4 0 s)"

text \<open>The code point of a \<open>\u\<close> escape, with the second half of a surrogate pair.\<close>

definition unicode_escape :: "string \<Rightarrow> nat parsed" where
  "unicode_escape s =
     (case readHex4 s of
        Inl r \<Rightarrow> fail (''bad '' @ [chr 92] @ ''u escape'') r
      | Inr (cp, r) \<Rightarrow>
          if 0xD800 \<le> cp \<and> cp \<le> 0xDBFF then
            (case r of
               a # b # q \<Rightarrow>
                 if a \<noteq> chr 92 \<or> b \<noteq> CHR ''u'' then fail ''missing low surrogate'' r
                 else (case readHex4 q of
                         Inl q \<Rightarrow> fail ''bad low surrogate'' q
                       | Inr (low, q) \<Rightarrow>
                           if low < 0xDC00 \<or> 0xDFFF < low then fail ''bad low surrogate'' q
                           else Parsed (0x10000 + (cp - 0xD800) * 1024 + (low - 0xDC00)) q)
             | _ \<Rightarrow> fail ''missing low surrogate'' r)
          else Parsed cp r)"

definition simple_escape :: "char \<Rightarrow> char option" where
  "simple_escape e =
     (if code e = 34 then Some (chr 34) else if code e = 92 then Some (chr 92)
      else if e = CHR ''/'' then Some (CHR ''/'') else if e = CHR ''b'' then Some (chr 8)
      else if e = CHR ''f'' then Some (chr 12) else if e = CHR ''n'' then Some (chr 10)
      else if e = CHR ''r'' then Some (chr 13) else if e = CHR ''t'' then Some (chr 9) else None)"

text \<open>\<open>appendUtf8\<close> is the same code as the tokenizer's \<open>appendCodepoint\<close>.\<close>

definition appendUtf8 :: "string \<Rightarrow> nat \<Rightarrow> string" where
  "appendUtf8 out cp = appendCodepoint out (of_nat cp)"

lemma hex4_shorter: "hex4_loop n v s = Inr (w, r) \<Longrightarrow> length r + n = length s"
  by (induction n v s rule: hex4_loop.induct) (auto split: option.splits)

lemma readHex4_shorter: "readHex4 s = Inr (w, r) \<Longrightarrow> length r < length s"
  by (auto simp: readHex4_def dest: hex4_shorter split: if_splits)

lemma unicode_escape_shorter: "unicode_escape s = Parsed cp r \<Longrightarrow> length r < length s"
  by (auto simp: unicode_escape_def dest!: readHex4_shorter split: sum.splits if_splits list.splits)

text \<open>The characters after the opening quote.\<close>

function parse_chars :: "string \<Rightarrow> string \<Rightarrow> string parsed" where
  "parse_chars value [] = fail ''unterminated string'' []"
| "parse_chars value (c # s) =
     (if c = chr 34 then Parsed value s
      else if c = chr 92 then
        (case s of
           [] \<Rightarrow> fail ''bad escape'' s
         | e # r \<Rightarrow>
             if e = CHR ''u'' then
               (case unicode_escape r of
                  Parsed cp q \<Rightarrow> parse_chars (appendUtf8 value cp) q
                | Failed msg n \<Rightarrow> Failed msg n
                | NoFuel \<Rightarrow> NoFuel)
             else (case simple_escape e of
                     None \<Rightarrow> fail ''bad escape character'' r
                   | Some d \<Rightarrow> parse_chars (value @ [d]) r))
      else if code c < 32 then fail ''control char in string'' s
      else parse_chars (value @ [c]) s)"
  by pat_completeness auto
termination
  by (relation "measure (\<lambda>(v, s). length s)") (auto dest!: unicode_escape_shorter)

definition parseString :: "string \<Rightarrow> string parsed" where
  "parseString s =
     (case s of c # r \<Rightarrow> if c = chr 34 then parse_chars [] r else fail ''expected string'' s
      | [] \<Rightarrow> fail ''expected string'' s)"

fun parseValue :: "(string \<Rightarrow> 'd) \<Rightarrow> nat \<Rightarrow> string \<Rightarrow> 'd json parsed"
and parseElements :: "(string \<Rightarrow> 'd) \<Rightarrow> nat \<Rightarrow> 'd json list \<Rightarrow> string \<Rightarrow> 'd json parsed"
and parseMembers :: "(string \<Rightarrow> 'd) \<Rightarrow> nat \<Rightarrow> (string \<times> 'd json) list \<Rightarrow> string \<Rightarrow> 'd json parsed" where
  "parseValue strtod 0 s = NoFuel"
| "parseValue strtod (Suc f) s =
     (case skipWs s of
        [] \<Rightarrow> fail ''unexpected end of input'' []
      | c # r \<Rightarrow>
          if c = CHR ''{'' then
            (case skipWs r of
               d # q \<Rightarrow> if d = CHR ''}'' then Parsed (JObject []) q else parseMembers strtod f [] (d # q)
             | [] \<Rightarrow> parseMembers strtod f [] [])
          else if c = CHR ''['' then
            (case skipWs r of
               d # q \<Rightarrow> if d = CHR '']'' then Parsed (JArray []) q else parseElements strtod f [] (d # q)
             | [] \<Rightarrow> parseElements strtod f [] [])
          else if c = chr 34 then
            (case parseString (c # r) of
               Parsed str q \<Rightarrow> Parsed (JString str) q | Failed msg n \<Rightarrow> Failed msg n | NoFuel \<Rightarrow> NoFuel)
          else if c = CHR ''t'' then parseLiteral ''true'' (JBool True) (c # r)
          else if c = CHR ''f'' then parseLiteral ''false'' (JBool False) (c # r)
          else if c = CHR ''n'' then parseLiteral ''null'' JNull (c # r)
          else if c = CHR ''-'' \<or> is_digit c then parseNumber strtod (c # r)
          else fail (''unexpected character '' @ [chr 39, c, chr 39]) (c # r))"
| "parseElements strtod 0 acc s = NoFuel"
| "parseElements strtod (Suc f) acc s =
     (case parseValue strtod f (skipWs s) of
        Parsed v r \<Rightarrow>
          (case skipWs r of
             c # q \<Rightarrow>
               if c = CHR '']'' then Parsed (JArray (acc @ [v])) q
               else if c = CHR '','' then parseElements strtod f (acc @ [v]) q
               else fail (''expected '' @ [chr 39, CHR '','', chr 39] @ '' or '' @ [chr 39, CHR '']'', chr 39]) (c # q)
           | [] \<Rightarrow> fail (''expected '' @ [chr 39, CHR '','', chr 39] @ '' or '' @ [chr 39, CHR '']'', chr 39]) [])
      | Failed msg n \<Rightarrow> Failed msg n
      | NoFuel \<Rightarrow> NoFuel)"
| "parseMembers strtod 0 acc s = NoFuel"
| "parseMembers strtod (Suc f) acc s =
     (case parseString (skipWs s) of
        Failed msg n \<Rightarrow> Failed ''expected object key'' n
      | NoFuel \<Rightarrow> NoFuel
      | Parsed key r \<Rightarrow>
          (case skipWs r of
             c # q \<Rightarrow>
               if c \<noteq> CHR '':'' then fail (''expected '' @ [chr 39, CHR '':'', chr 39]) (c # q)
               else
                 (case parseValue strtod f (skipWs q) of
                    Parsed v r \<Rightarrow>
                      (case skipWs r of
                         c # q \<Rightarrow>
                           if c = CHR ''}'' then Parsed (JObject (acc @ [(key, v)])) q
                           else if c = CHR '','' then parseMembers strtod f (acc @ [(key, v)]) q
                           else fail (''expected '' @ [chr 39, CHR '','', chr 39] @ '' or '' @ [chr 39, CHR ''}'', chr 39]) (c # q)
                       | [] \<Rightarrow> fail (''expected '' @ [chr 39, CHR '','', chr 39] @ '' or '' @ [chr 39, CHR ''}'', chr 39]) [])
                  | Failed msg n \<Rightarrow> Failed msg n
                  | NoFuel \<Rightarrow> NoFuel)
           | [] \<Rightarrow> fail (''expected '' @ [chr 39, CHR '':'', chr 39]) []))"

definition parse_fuel :: "string \<Rightarrow> nat" where
  "parse_fuel text = 2 * length text + 1"

text \<open>A complete document; \<open>None\<close> would be a parser that ran out of fuel.\<close>

definition parse :: "(string \<Rightarrow> 'd) \<Rightarrow> string \<Rightarrow> (string + 'd json) option" where
  "parse strtod txt =
     (case parseValue strtod (parse_fuel txt) txt of
        NoFuel \<Rightarrow> None
      | Failed msg n \<Rightarrow>
          Some (Inl (''JSON parse error at offset '' @ nat_to_string (length txt - n) @ '': '' @ msg))
      | Parsed v r \<Rightarrow>
          if skipWs r \<noteq> [] then Some (Inl ''JSON parse error: trailing data after document'')
          else Some (Inr v))"

section \<open>Fuel\<close>

lemma skipWs_length: "length (skipWs s) \<le> length s"
  by (simp add: skipWs_def length_dropWhile_le)

lemma skipWs_Cons: "skipWs s = c # r \<Longrightarrow> length r < length s"
  using skipWs_length [of s] by simp

lemma parse_chars_result:
  "parse_chars v s \<noteq> NoFuel" "parse_chars v s = Parsed w r \<Longrightarrow> length r < length s"
proof -
  have u: "unicode_escape s \<noteq> NoFuel" for s
    by (simp add: unicode_escape_def split: sum.split prod.split list.split)
  show "parse_chars v s \<noteq> NoFuel"
    by (induction v s rule: parse_chars.induct) (auto simp: u split: list.split option.split parsed.split)
  show "parse_chars v s = Parsed w r \<Longrightarrow> length r < length s"
  proof (induction v s rule: parse_chars.induct)
    case (2 v c s)
    show ?case
    proof (cases "c = chr 92")
      case False
      then show ?thesis using "2.prems" "2.IH"(3) by (auto split: if_splits)
    next
      case c: True
      show ?thesis
      proof (cases s)
        case Nil
        then show ?thesis using "2.prems" c by simp
      next
        case s: (Cons e q)
        show ?thesis
        proof (cases "e = CHR ''u''")
          case True
          then obtain cp r' where u: "unicode_escape q = Parsed cp r'" "parse_chars (appendUtf8 v cp) r' = Parsed w r"
            using "2.prems" c s by (auto split: parsed.splits)
          have "length r < length r'" using "2.IH"(1) [of e q cp r'] u True c s by simp
          with unicode_escape_shorter [OF u(1)] show ?thesis using s by simp
        next
          case False
          then obtain d where d: "simple_escape e = Some d" "parse_chars (v @ [d]) q = Parsed w r"
            using "2.prems" c s by (auto split: option.splits)
          have "length r < length q" using "2.IH"(2) [of e q d] d False c s by simp
          then show ?thesis using s by simp
        qed
      qed
    qed
  qed simp
qed

lemma parseString_result:
  "parseString s \<noteq> NoFuel" "parseString s = Parsed w r \<Longrightarrow> length r < length s"
  using parse_chars_result(1)
  by (auto simp: parseString_def split: list.splits if_splits dest!: parse_chars_result(2))

lemma after_number_length: "length (after_number s) \<le> length s"
proof -
  have d: "length (after_digits s) \<le> length s" for s by (simp add: after_digits_def length_dropWhile_le)
  define a where "a = after_digits s"
  define b where "b = (case a of c # r \<Rightarrow> if c = CHR ''.'' then after_digits r else a | [] \<Rightarrow> a)"
  have "length b \<le> length s"
    using d [of s] d [of "tl a"] by (auto simp: b_def a_def split: list.split)
  moreover have "length (after_number s) \<le> length b"
    unfolding after_number_def Let_def a_def [symmetric] b_def [symmetric]
    using d [of "tl b"] d [of "tl (tl b)"] by (auto split: list.split)
  ultimately show ?thesis by simp
qed

lemma after_number_digit: "is_digit c \<Longrightarrow> length (after_number (c # s)) \<le> length s"
proof -
  assume "is_digit c"
  then have "after_number (c # s) = after_number s" by (simp add: after_number_def after_digits_def)
  then show ?thesis using after_number_length [of s] by simp
qed

lemma parseNumber_result:
  "parseNumber strtod s \<noteq> NoFuel"
  "parseNumber strtod (c # s) = Parsed v r \<Longrightarrow> c = CHR ''-'' \<or> is_digit c \<Longrightarrow> length r < length (c # s)"
  using after_number_length [of s] after_number_digit [of c s]
  by (auto simp: parseNumber_def Let_def less_Suc_eq_le split: list.splits if_splits)

lemma parseLiteral_result:
  "parseLiteral lit v s \<noteq> NoFuel"
  "parseLiteral lit v s = Parsed w r \<Longrightarrow> lit \<noteq> [] \<Longrightarrow> length r < length s"
  by (auto simp: parseLiteral_def split: if_splits) (metis diff_less length_greater_0_conv take_Nil)

text \<open>What is left after a success is shorter than the text.\<close>

definition shorter :: "string \<Rightarrow> 'a parsed \<Rightarrow> bool" where
  "shorter s res \<longleftrightarrow> (\<forall>v r. res = Parsed v r \<longrightarrow> length r < length s)"

lemma shorter_simps [simp]: "shorter s NoFuel" "shorter s (Failed msg n)"
  "shorter s (Parsed v r) \<longleftrightarrow> length r < length s"
  by (simp_all add: shorter_def)

lemma shorter_trans: "shorter s res \<Longrightarrow> length s \<le> length t \<Longrightarrow> shorter t res"
  by (auto simp: shorter_def)

lemma shorter_base:
  "shorter s (parseString s)" "lit \<noteq> [] \<Longrightarrow> shorter s (parseLiteral lit v s)"
  "c = CHR ''-'' \<or> is_digit c \<Longrightarrow> shorter (c # r) (parseNumber strtod (c # r))"
  unfolding shorter_def using parseString_result(2) parseLiteral_result(2) parseNumber_result(2) by blast+

text \<open>The values that are neither an array nor an object.\<close>

definition parse_atom :: "(string \<Rightarrow> 'd) \<Rightarrow> char \<Rightarrow> string \<Rightarrow> 'd json parsed" where
  "parse_atom strtod c r =
     (if c = chr 34 then
        (case parseString (c # r) of
           Parsed str q \<Rightarrow> Parsed (JString str) q | Failed msg n \<Rightarrow> Failed msg n | NoFuel \<Rightarrow> NoFuel)
      else if c = CHR ''t'' then parseLiteral ''true'' (JBool True) (c # r)
      else if c = CHR ''f'' then parseLiteral ''false'' (JBool False) (c # r)
      else if c = CHR ''n'' then parseLiteral ''null'' JNull (c # r)
      else if c = CHR ''-'' \<or> is_digit c then parseNumber strtod (c # r)
      else fail (''unexpected character '' @ [chr 39, c, chr 39]) (c # r))"

lemma parseValue_atom:
  "skipWs s = c # r \<Longrightarrow> c \<noteq> CHR ''{'' \<Longrightarrow> c \<noteq> CHR ''['' \<Longrightarrow>
   parseValue strtod (Suc f) s = parse_atom strtod c r"
  by (simp only: parseValue.simps list.case if_False parse_atom_def)

lemma parse_atom_fuelled: "parse_atom strtod c r \<noteq> NoFuel"
proof (cases "c = chr 34")
  case True
  then show ?thesis
    using parseString_result(1) [of "c # r"] by (cases "parseString (c # r)") (simp_all add: parse_atom_def)
next
  case False
  then have "parse_atom strtod c r =
      (if c = CHR ''t'' then parseLiteral ''true'' (JBool True) (c # r)
       else if c = CHR ''f'' then parseLiteral ''false'' (JBool False) (c # r)
       else if c = CHR ''n'' then parseLiteral ''null'' JNull (c # r)
       else if c = CHR ''-'' \<or> is_digit c then parseNumber strtod (c # r)
       else fail (''unexpected character '' @ [chr 39, c, chr 39]) (c # r))"
    by (simp only: parse_atom_def if_False)
  then show ?thesis
    by (simp add: parseLiteral_result(1) parseNumber_result(1))
qed

lemma parse_atom_shorter: "shorter (c # r) (parse_atom strtod c r)"
proof (cases "c = chr 34")
  case True
  then show ?thesis
    using shorter_base(1) [of "c # r"]
    by (cases "parseString (c # r)") (simp_all add: parse_atom_def shorter_def)
next
  case False
  have lit: "shorter (c # r) (parseLiteral ''true'' (JBool True) (c # r))"
    "shorter (c # r) (parseLiteral ''false'' (JBool False) (c # r))"
    "shorter (c # r) (parseLiteral ''null'' JNull (c # r))"
    by (rule shorter_base(2); simp)+
  show ?thesis
    unfolding parse_atom_def if_not_P [OF False] using lit shorter_base(3) [of c r strtod]
    by (auto simp only: split: if_split intro: shorter_simps(2))
qed

lemma parseValue_shorter:
  assumes IH: "\<And>s acc. shorter s (parseElements strtod f acc s)" "\<And>s mem. shorter s (parseMembers strtod f mem s)"
  shows "shorter s (parseValue strtod (Suc f) s)"
proof (cases "skipWs s")
  case (Cons c r)
  have l: "length (c # r) \<le> length s" using skipWs_length [of s] Cons by simp
  have r: "length (skipWs r) \<le> length (c # r)" using skipWs_length [of r] by simp
  have sub: "shorter (c # r) (parseElements strtod f [] (skipWs r))" "shorter (c # r) (parseMembers strtod f [] (skipWs r))"
    using shorter_trans [OF IH(1) r] shorter_trans [OF IH(2) r] by blast+
  have tl: "skipWs r = d # q \<Longrightarrow> length q < length (c # r)" for d q using skipWs_Cons [of r d q] by simp
  consider "c = CHR ''{''" | "c = CHR ''[''" | "c \<noteq> CHR ''{''" "c \<noteq> CHR ''[''" by blast
  then have "shorter (c # r) (parseValue strtod (Suc f) s)"
  proof cases
    case 1
    show ?thesis
      using sub(2) tl by (cases "skipWs r") (simp_all add: Cons 1 del: parseElements.simps parseMembers.simps)
  next
    case 2
    show ?thesis
      using sub(1) tl by (cases "skipWs r") (simp_all add: Cons 2 del: parseElements.simps parseMembers.simps)
  next
    case 3
    then show ?thesis using parse_atom_shorter parseValue_atom [OF Cons] by metis
  qed
  with l show ?thesis by (auto intro: shorter_trans)
qed simp

lemma parse_shorter:
  "shorter s (parseValue strtod f s) \<and> shorter s (parseElements strtod f acc s) \<and> shorter s (parseMembers strtod f mem s)"
proof (induction f arbitrary: s acc mem)
  case (Suc f)
  have V: "parseValue strtod f (skipWs s) = Parsed v r \<Longrightarrow> length r < length s" for s v r
    using Suc.IH skipWs_length [of s] unfolding shorter_def by (meson less_le_trans)
  have E: "shorter s (parseElements strtod (Suc f) acc s)"
  proof (cases "parseValue strtod f (skipWs s)")
    case (Parsed v r)
    show ?thesis
    proof (cases "skipWs r")
      case (Cons c q)
      then have "length q < length s" using V [OF Parsed] skipWs_Cons [OF Cons] by simp
      moreover have "shorter q (parseElements strtod f (acc @ [v]) q)" using Suc.IH by blast
      ultimately have "shorter s (parseElements strtod f (acc @ [v]) q)" "length q < length s"
        by (auto intro: shorter_trans)
      then show ?thesis using Parsed Cons by simp
    qed (simp add: Parsed)
  qed simp_all
  have M: "shorter s (parseMembers strtod (Suc f) mem s)"
  proof (cases "parseString (skipWs s)")
    case key: (Parsed key r)
    show ?thesis
    proof (cases "skipWs r")
      case c: (Cons c q)
      have q: "length q < length s"
        using parseString_result(2) [OF key] skipWs_length [of s] skipWs_Cons [OF c] by simp
      show ?thesis
      proof (cases "parseValue strtod f (skipWs q)")
        case v: (Parsed v r')
        show ?thesis
        proof (cases "skipWs r'")
          case (Cons d p)
          then have "length p < length s" using V [OF v] skipWs_Cons [OF Cons] q by simp
          moreover have "shorter p (parseMembers strtod f (mem @ [(key, v)]) p)" using Suc.IH by blast
          ultimately have "shorter s (parseMembers strtod f (mem @ [(key, v)]) p)" "length p < length s"
            by (auto intro: shorter_trans)
          then show ?thesis using key c v Cons by simp
        qed (simp add: key c v)
      qed (simp_all add: key c)
    qed (simp add: key)
  qed simp_all
  show ?case using parseValue_shorter Suc.IH E M by blast
qed simp

lemma parseValue_shorter_ws: "parseValue strtod f (skipWs s) = Parsed v r \<Longrightarrow> length r < length s"
  using parse_shorter [of "skipWs s" strtod f] skipWs_length [of s] unfolding shorter_def by (meson less_le_trans)

lemma parseValue_fuelled:
  assumes "\<And>s acc. 2 * length s + 2 \<le> f \<Longrightarrow> parseElements strtod f acc s \<noteq> NoFuel"
    and "\<And>s mem. 2 * length s + 2 \<le> f \<Longrightarrow> parseMembers strtod f mem s \<noteq> NoFuel"
    and f: "2 * length s + 1 \<le> Suc f"
  shows "parseValue strtod (Suc f) s \<noteq> NoFuel"
proof (cases "skipWs s")
  case (Cons c r)
  have r: "2 * length (skipWs r) + 2 \<le> f" using skipWs_Cons [OF Cons] skipWs_length [of r] f by simp
  have sub: "parseElements strtod f [] (skipWs r) \<noteq> NoFuel" "parseMembers strtod f [] (skipWs r) \<noteq> NoFuel"
    using assms(1,2) r by blast+
  consider "c = CHR ''{''" | "c = CHR ''[''" | "c \<noteq> CHR ''{''" "c \<noteq> CHR ''[''" by blast
  then show ?thesis
  proof cases
    case 1
    show ?thesis
      using sub(2) by (cases "skipWs r") (simp_all add: Cons 1 del: parseElements.simps parseMembers.simps)
  next
    case 2
    show ?thesis
      using sub(1) by (cases "skipWs r") (simp_all add: Cons 2 del: parseElements.simps parseMembers.simps)
  next
    case 3
    then show ?thesis using parse_atom_fuelled parseValue_atom [OF Cons] by metis
  qed
qed simp

lemma parse_fuelled:
  "(2 * length s + 1 \<le> f \<longrightarrow> parseValue strtod f s \<noteq> NoFuel) \<and>
   (2 * length s + 2 \<le> f \<longrightarrow> parseElements strtod f acc s \<noteq> NoFuel) \<and>
   (2 * length s + 2 \<le> f \<longrightarrow> parseMembers strtod f mem s \<noteq> NoFuel)"
proof (induction f arbitrary: s acc mem)
  case (Suc f)
  have V: "2 * length s + 1 \<le> f \<Longrightarrow> parseValue strtod f (skipWs s) \<noteq> NoFuel" for s
    using Suc.IH skipWs_length [of s] by (meson add_le_mono1 le_trans mult_le_mono2)
  have E: "parseElements strtod (Suc f) acc s \<noteq> NoFuel" if "2 * length s + 2 \<le> Suc f"
  proof (cases "parseValue strtod f (skipWs s)")
    case (Parsed v r)
    show ?thesis
    proof (cases "skipWs r")
      case (Cons c q)
      have "length q < length s" using parseValue_shorter_ws [OF Parsed] skipWs_Cons [OF Cons] by simp
      then have "parseElements strtod f (acc @ [v]) q \<noteq> NoFuel" using Suc.IH that by simp
      then show ?thesis using Parsed Cons by simp
    qed (simp add: Parsed)
  next
    case NoFuel
    then show ?thesis using V that by simp
  qed simp
  have M: "parseMembers strtod (Suc f) mem s \<noteq> NoFuel" if "2 * length s + 2 \<le> Suc f"
  proof (cases "parseString (skipWs s)")
    case key: (Parsed key r)
    show ?thesis
    proof (cases "skipWs r")
      case c: (Cons c q)
      have q: "length q < length s"
        using parseString_result(2) [OF key] skipWs_length [of s] skipWs_Cons [OF c] by simp
      show ?thesis
      proof (cases "parseValue strtod f (skipWs q)")
        case v: (Parsed v r')
        show ?thesis
        proof (cases "skipWs r'")
          case (Cons d p)
          then have "length p < length s" using parseValue_shorter_ws [OF v] skipWs_Cons [OF Cons] q by simp
          then have "parseMembers strtod f (mem @ [(key, v)]) p \<noteq> NoFuel" using Suc.IH that by simp
          then show ?thesis using key c v Cons by simp
        qed (simp add: key c v)
      next
        case NoFuel
        then show ?thesis using V [of q] that q by simp
      qed (simp_all add: key c)
    qed (simp add: key)
  next
    case NoFuel
    then show ?thesis using parseString_result(1) by simp
  qed simp
  show ?case using parseValue_fuelled Suc.IH E M by blast
qed simp

text \<open>
  C35: The JSON parser always answers: on every input text it returns a document or an error, its
  recursion never going deeper than twice the length of the text.
\<close>

theorem parse_total: "parse strtod s \<noteq> None"
  using parse_fuelled [of s "parse_fuel s" strtod]
  by (simp add: parse_def parse_fuel_def split: parsed.split)

section \<open>Round trip\<close>

text \<open>Values whose numbers are whole and exact in a double.\<close>

fun plain :: "'d::floor_ceiling json \<Rightarrow> bool" where
  "plain (JNumber n) \<longleftrightarrow> n = of_int \<lfloor>n\<rfloor> \<and> \<bar>\<lfloor>n\<rfloor>\<bar> \<le> 2 ^ 53"
| "plain (JArray a) \<longleftrightarrow> list_all plain a"
| "plain (JObject ob) \<longleftrightarrow> list_all (\<lambda>(k, v). plain v) ob"
| "plain _ \<longleftrightarrow> True"

definition num_stop :: "string \<Rightarrow> bool" where
  "num_stop r \<longleftrightarrow> (case r of [] \<Rightarrow> True
     | c # q \<Rightarrow> \<not> is_digit c \<and> c \<noteq> CHR ''.'' \<and> c \<noteq> CHR ''e'' \<and> c \<noteq> CHR ''E'')"

lemma code_chr: "n < 256 \<Longrightarrow> code (chr n) = n"
  by (simp add: of_char_of)

lemma chr_code [simp]: "chr (code c) = c"
  by simp

lemma char_eq_chr: "n < 256 \<Longrightarrow> c = chr n \<longleftrightarrow> code c = n"
  by (metis chr_code code_chr)

lemma hex4_loop_4: "hex4_loop 4 = hex4_loop (Suc (Suc (Suc (Suc 0))))"
  by (simp add: numeral_eq_Suc)

lemma readHex4_hex: "n < 256 \<Longrightarrow>
  readHex4 (CHR ''0'' # CHR ''0'' # hex_digit (n div 16) # hex_digit (n mod 16) # r) = Inr (n, r)"
proof -
  assume n: "n < 256"
  have z: "hex_val (CHR ''0'') = Some 0" by code_simp
  have "n div 16 < 16" using n by (simp add: less_mult_imp_div_less)
  then show ?thesis by (simp add: readHex4_def hex4_loop_4 z)
qed

lemma appendUtf8_ascii: "n < 128 \<Longrightarrow> appendUtf8 out n = out @ [chr n]"
  by (simp add: appendUtf8_def appendCodepoint_def word_less_nat_alt unat_of_nat char_of_word_def)

lemma unicode_escape_hex: "n < 256 \<Longrightarrow>
  unicode_escape (CHR ''0'' # CHR ''0'' # hex_digit (n div 16) # hex_digit (n mod 16) # r) = Parsed n r"
  by (simp add: unicode_escape_def readHex4_hex)

lemma parse_chars_simple:
  "e \<noteq> CHR ''u'' \<Longrightarrow> simple_escape e = Some d \<Longrightarrow> parse_chars acc (chr 92 # e # r) = parse_chars (acc @ [d]) r"
  by (simp add: char_eq_chr)

lemma parse_chars_hex: "n < 128 \<Longrightarrow>
  parse_chars acc (chr 92 # CHR ''u'' # CHR ''0'' # CHR ''0'' # hex_digit (n div 16) # hex_digit (n mod 16) # r) =
  parse_chars (acc @ [chr n]) r"
  by (simp add: char_eq_chr unicode_escape_hex appendUtf8_ascii)

lemma parse_chars_escape: "parse_chars acc (escape_char c @ r) = parse_chars (acc @ [c]) r"
proof -
  define n where "n = code c"
  have c: "c = chr n" and n: "n < 256" by (simp_all add: n_def)
  have u: "chr 34 \<noteq> CHR ''u''" "chr 92 \<noteq> CHR ''u''" by code_simp+
  have e: "simple_escape (chr 34) = Some (chr 34)" "simple_escape (chr 92) = Some (chr 92)"
    "simple_escape (CHR ''b'') = Some (chr 8)" "simple_escape (CHR ''f'') = Some (chr 12)"
    "simple_escape (CHR ''n'') = Some (chr 10)" "simple_escape (CHR ''r'') = Some (chr 13)"
    "simple_escape (CHR ''t'') = Some (chr 9)"
    by code_simp+
  consider "n \<in> {34, 92, 8, 12, 10, 13, 9}" | "n \<notin> {34, 92, 8, 12, 10, 13, 9}" "n < 32"
    | "n \<notin> {34, 92}" "32 \<le> n" by fastforce
  then show ?thesis
  proof cases
    case 1
    then show ?thesis
      unfolding c by (elim insertE emptyE) (simp_all add: escape_char_def parse_chars_simple u e)
  next
    case 2
    then show ?thesis
      unfolding c by (simp add: escape_char_def parse_chars_hex del: parse_chars.simps)
  next
    case 3
    then show ?thesis
      using n unfolding c by (simp add: escape_char_def char_eq_chr)
  qed
qed

lemma parse_chars_escapeString: "parse_chars acc (escapeString s @ chr 34 # r) = Parsed (acc @ s) r"
proof (induction s arbitrary: acc)
  case Nil
  then show ?case by (simp add: escapeString_def)
next
  case (Cons c s)
  then show ?case using parse_chars_escape [of acc c "escapeString s @ chr 34 # r"] by (simp add: escapeString_def)
qed

lemma parseString_escape: "parseString (chr 34 # escapeString s @ chr 34 # r) = Parsed s r"
  by (simp add: parseString_def parse_chars_escapeString)

lemma after_digits_digits: "list_all is_digit ds \<Longrightarrow> num_stop r \<Longrightarrow> after_digits (ds @ r) = r"
  by (cases r) (auto simp: after_digits_def num_stop_def list_all_iff dropWhile_append2)

lemma after_number_digits: "list_all is_digit ds \<Longrightarrow> num_stop r \<Longrightarrow> after_number (ds @ r) = r"
  by (simp add: after_number_def after_digits_digits) (auto simp: num_stop_def split: list.split)

lemma nat_to_string_list_all: "list_all is_digit (nat_to_string n)"
  using nat_to_string_digits by (simp add: list_all_iff)

lemma int_to_string_split: obtains sg ds where "int_to_string i = sg @ ds" "sg = [] \<or> sg = ''-''"
    "ds \<noteq> []" "list_all is_digit ds"
proof (cases "i < 0")
  case True
  show ?thesis
    by (rule that [of "''-''" "nat_to_string (nat (- i))"])
      (simp_all add: True int_to_string_def nat_to_string_list_all)
next
  case False
  show ?thesis
    by (rule that [of "[]" "nat_to_string (nat i)"]) (simp_all add: False int_to_string_def nat_to_string_list_all)
qed

lemma parseNumber_int: "num_stop r \<Longrightarrow>
  parseNumber strtod (int_to_string i @ r) = Parsed (JNumber (strtod (int_to_string i))) r"
proof -
  assume r: "num_stop r"
  obtain sg ds where i: "int_to_string i = sg @ ds" and sg: "sg = [] \<or> sg = ''-''"
    and ds: "ds \<noteq> []" "list_all is_digit ds" by (rule int_to_string_split)
  obtain d ds' where d: "ds = d # ds'" using ds(1) by (cases ds) auto
  have "d \<noteq> CHR ''-''" using ds(2) by (auto simp: d is_digit_def)
  then have s: "(case sg @ ds @ r of c # q \<Rightarrow> if c = CHR ''-'' then q else sg @ ds @ r | [] \<Rightarrow> sg @ ds @ r) = ds @ r"
    using sg by (auto simp: d)
  have ne: "ds @ r \<noteq> []" "sg @ ds \<noteq> []" "sg @ ds \<noteq> ''-''"
    using sg ds(1) \<open>d \<noteq> CHR ''-''\<close> by (auto simp: d)
  have a: "after_number (ds @ r) = r" by (rule after_number_digits [OF ds(2) r])
  show ?thesis
    unfolding parseNumber_def i append_assoc s Let_def a using ne by simp
qed

lemma skipWs_ws: "list_all json_ws w \<Longrightarrow> skipWs (w @ s) = skipWs s"
  by (induction w) (simp_all add: skipWs_def)

lemma skipWs_nl: "skipWs ((if pretty then newlineIndent n else []) @ s) = skipWs s"
  "skipWs (newlineIndent n @ s) = skipWs s"
proof -
  have "list_all json_ws (newlineIndent n)" by (simp add: newlineIndent_def json_ws_def list_all_iff)
  then show "skipWs ((if pretty then newlineIndent n else []) @ s) = skipWs s"
    "skipWs (newlineIndent n @ s) = skipWs s" by (simp_all add: skipWs_ws)
qed

lemma skipWs_visible [simp]: "\<not> json_ws c \<Longrightarrow> skipWs (c # s) = c # s"
  by (simp add: skipWs_def)

lemma json_ws_visible [simp]:
  "\<not> json_ws (CHR ''['')" "\<not> json_ws (CHR '']'')" "\<not> json_ws (CHR ''{'')" "\<not> json_ws (CHR ''}'')"
  "\<not> json_ws (CHR '','')" "\<not> json_ws (CHR '':'')" "\<not> json_ws (CHR ''-'')" "\<not> json_ws (chr 34)"
  "\<not> json_ws (CHR ''t'')" "\<not> json_ws (CHR ''f'')" "\<not> json_ws (CHR ''n'')"
  by code_simp+

lemma json_ws_digit [simp]: "is_digit c \<Longrightarrow> \<not> json_ws c"
  by (auto simp: is_digit_def json_ws_def)

text \<open>How a dumped value starts: not with white space and not with a closing bracket.\<close>

definition starts :: "string \<Rightarrow> bool" where
  "starts s \<longleftrightarrow> (case s of [] \<Rightarrow> False | c # _ \<Rightarrow> \<not> json_ws c \<and> c \<noteq> CHR '']'')"

lemma starts_int: "starts (int_to_string i @ r)"
proof -
  obtain sg ds where i: "int_to_string i = sg @ ds" and sg: "sg = [] \<or> sg = ''-''"
    and ds: "ds \<noteq> []" "list_all is_digit ds" by (rule int_to_string_split)
  obtain d ds' where d: "ds = d # ds'" using ds(1) by (cases ds) auto
  have "is_digit d" using ds by (simp add: d)
  moreover have "d \<noteq> CHR '']''" using \<open>is_digit d\<close> by (auto simp: is_digit_def)
  ultimately show ?thesis using sg by (auto simp: i d starts_def)
qed

lemma dump_number_plain: "plain (JNumber n) \<Longrightarrow> dump_number fmt n = int_to_string \<lfloor>n\<rfloor>"
proof -
  assume p: "plain (JNumber n)"
  have "\<bar>n\<bar> = of_int \<bar>\<lfloor>n\<rfloor>\<bar>" using p by simp
  also have "\<dots> \<le> of_int (2 ^ 53)" using p by (simp only: of_int_le_iff plain.simps)
  also have "\<dots> < 9200000000000000000" by simp
  finally show ?thesis using p by (simp add: dump_number_def)
qed

lemma starts_dump: "plain v \<Longrightarrow> starts (dumpValue fmt pretty n v @ r)"
proof (cases v)
  case (JNumber x)
  assume "plain v"
  then show ?thesis using JNumber starts_int by (simp only: dumpValue.simps dump_number_plain)
qed (auto simp: starts_def char_eq_code)

lemma skipWs_starts: "starts s \<Longrightarrow> skipWs s = s"
  by (auto simp: starts_def split: list.splits)

lemma parse_int: "num_stop r \<Longrightarrow>
  parseValue strtod (Suc f) (int_to_string i @ r) = Parsed (JNumber (strtod (int_to_string i))) r"
proof -
  assume r: "num_stop r"
  obtain sg ds where i: "int_to_string i = sg @ ds" and sg: "sg = [] \<or> sg = ''-''"
    and ds: "ds \<noteq> []" "list_all is_digit ds" by (rule int_to_string_split)
  obtain c q where c: "int_to_string i @ r = c # q" "c = CHR ''-'' \<or> is_digit c"
    using sg ds by (cases ds) (auto simp: i)
  have ne: "c \<noteq> CHR ''{''" "c \<noteq> CHR ''[''" "c \<noteq> chr 34" "c \<noteq> CHR ''t''" "c \<noteq> CHR ''f''" "c \<noteq> CHR ''n''"
    using c(2) by (auto simp: is_digit_def char_eq_code)
  have s: "skipWs (int_to_string i @ r) = c # q" using c by (auto simp: c(1))
  have "parseValue strtod (Suc f) (int_to_string i @ r) = parse_atom strtod c q"
    by (rule parseValue_atom [OF s ne(1,2)])
  also have "\<dots> = parseNumber strtod (c # q)" using ne c(2) by (simp add: parse_atom_def)
  finally show ?thesis using parseNumber_int [OF r] c(1) by metis
qed

lemma starts_Cons: "starts s \<Longrightarrow> \<exists>c r. s = c # r \<and> \<not> json_ws c \<and> c \<noteq> CHR '']''"
  by (cases s) (simp_all add: starts_def)

lemma dumpElements_True: "dumpElements fmt pretty n True (v # vs) = CHR '','' # dumpElements fmt pretty n False (v # vs)"
  by simp

lemma dumpMembers_True: "dumpMembers fmt pretty n True (m # ob) = CHR '','' # dumpMembers fmt pretty n False (m # ob)"
  by (cases m) simp

text \<open>What the parser relies on to read back the numbers.\<close>

definition reads_ints :: "(string \<Rightarrow> 'd::floor_ceiling) \<Rightarrow> bool" where
  "reads_ints strtod \<longleftrightarrow> (\<forall>i. \<bar>i\<bar> \<le> 2 ^ 53 \<longrightarrow> strtod (int_to_string i) = of_int i)"

definition dumped_elements :: "('d \<Rightarrow> string) \<Rightarrow> bool \<Rightarrow> nat \<Rightarrow> 'd::floor_ceiling json list \<Rightarrow> string \<Rightarrow> string" where
  "dumped_elements fmt pretty n vs r =
     dumpElements fmt pretty n False vs @ (if pretty then newlineIndent n else []) @ CHR '']'' # r"

definition dumped_members :: "('d \<Rightarrow> string) \<Rightarrow> bool \<Rightarrow> nat \<Rightarrow> (string \<times> 'd::floor_ceiling json) list \<Rightarrow> string \<Rightarrow> string" where
  "dumped_members fmt pretty n ob r =
     dumpMembers fmt pretty n False ob @ (if pretty then newlineIndent n else []) @ CHR ''}'' # r"

lemma num_stop_rest:
  "num_stop (CHR '','' # r)" "num_stop ((if pretty then newlineIndent n else []) @ CHR '']'' # r)"
  "num_stop ((if pretty then newlineIndent n else []) @ CHR ''}'' # r)" "num_stop []"
  by (simp_all add: num_stop_def newlineIndent_def is_digit_def char_eq_code)

text \<open>One element of an array, and one member of an object, read back.\<close>

lemma parse_element:
  assumes v: "\<And>f r. num_stop r \<Longrightarrow> 2 * length (dumpValue fmt pretty (n + 1) v) + 1 \<le> f \<Longrightarrow>
      parseValue strtod f (dumpValue fmt pretty (n + 1) v @ r) = Parsed v r"
    and vs: "\<And>f acc. vs \<noteq> [] \<Longrightarrow> 2 * length (dumpElements fmt pretty n False vs) + 2 \<le> f \<Longrightarrow>
      parseElements strtod f acc (dumped_elements fmt pretty n vs r) = Parsed (JArray (acc @ vs)) r"
    and p: "plain v" and f: "2 * length (dumpElements fmt pretty n False (v # vs)) + 2 \<le> f"
  shows "parseElements strtod f acc (dumped_elements fmt pretty n (v # vs) r) = Parsed (JArray (acc @ v # vs)) r"
proof -
  define d where "d = dumpValue fmt pretty (n + 1) v"
  define e where "e = (if vs = [] then (if pretty then newlineIndent n else []) @ CHR '']'' # r
    else CHR '','' # dumped_elements fmt pretty n vs r)"
  have tx: "dumped_elements fmt pretty n (v # vs) r = (if pretty then newlineIndent (n + 1) else []) @ d @ e"
    by (cases vs) (simp_all add: dumped_elements_def d_def e_def)
  obtain f' where f': "f = Suc f'" using f by (cases f) auto
  have "2 * length d + 1 \<le> f'" using f f' by (simp add: d_def)
  moreover have "num_stop e" by (simp add: e_def num_stop_rest)
  ultimately have read: "parseValue strtod f' (d @ e) = Parsed v e" using v by (simp add: d_def)
  have "skipWs (dumped_elements fmt pretty n (v # vs) r) = d @ e"
    unfolding tx skipWs_nl d_def by (rule skipWs_starts [OF starts_dump [OF p]])
  note step = this read
  show ?thesis
  proof (cases vs)
    case Nil
    then show ?thesis using step by (simp add: f' e_def skipWs_nl)
  next
    case (Cons w ws)
    have "2 * length (dumpElements fmt pretty n False vs) + 2 \<le> f'"
      using f f' Cons by simp
    then show ?thesis using step vs [of f' "acc @ [v]"] Cons by (simp add: f' e_def)
  qed
qed

lemma parse_member:
  assumes v: "\<And>f r. num_stop r \<Longrightarrow> 2 * length (dumpValue fmt pretty (n + 1) v) + 1 \<le> f \<Longrightarrow>
      parseValue strtod f (dumpValue fmt pretty (n + 1) v @ r) = Parsed v r"
    and ob: "\<And>f acc. ob \<noteq> [] \<Longrightarrow> 2 * length (dumpMembers fmt pretty n False ob) + 2 \<le> f \<Longrightarrow>
      parseMembers strtod f acc (dumped_members fmt pretty n ob r) = Parsed (JObject (acc @ ob)) r"
    and p: "plain v" and f: "2 * length (dumpMembers fmt pretty n False ((k, v) # ob)) + 2 \<le> f"
  shows "parseMembers strtod f acc (dumped_members fmt pretty n ((k, v) # ob) r) = Parsed (JObject (acc @ (k, v) # ob)) r"
proof -
  define d where "d = dumpValue fmt pretty (n + 1) v"
  define e where "e = (if ob = [] then (if pretty then newlineIndent n else []) @ CHR ''}'' # r
    else CHR '','' # dumped_members fmt pretty n ob r)"
  define q where "q = (if pretty then '' '' else []) @ d @ e"
  have tx: "dumped_members fmt pretty n ((k, v) # ob) r =
      (if pretty then newlineIndent (n + 1) else []) @ chr 34 # escapeString k @ chr 34 # CHR '':'' # q"
    by (cases ob) (simp_all add: dumped_members_def d_def e_def q_def dumpMembers_True)
  obtain f' where f': "f = Suc f'" using f by (cases f) auto
  have "2 * length d + 1 \<le> f'" using f f' by (simp add: d_def)
  moreover have "num_stop e" by (simp add: e_def num_stop_rest)
  ultimately have read: "parseValue strtod f' (d @ e) = Parsed v e" using v by (simp add: d_def)
  have key: "skipWs (dumped_members fmt pretty n ((k, v) # ob) r) = chr 34 # escapeString k @ chr 34 # CHR '':'' # q"
    unfolding tx skipWs_nl by simp
  have "skipWs q = skipWs (d @ e)" using skipWs_ws [of "'' ''"] by (simp add: q_def json_ws_def)
  then have "skipWs q = d @ e" using skipWs_starts [OF starts_dump [OF p]] by (simp add: d_def)
  note step = key parseString_escape this read
  show ?thesis
  proof (cases ob)
    case Nil
    then show ?thesis using step by (simp add: f' e_def skipWs_nl)
  next
    case (Cons w ws)
    have "2 * length (dumpMembers fmt pretty n False ob) + 2 \<le> f'"
      using f f' Cons by (simp add: dumpMembers_True)
    then show ?thesis using step ob [of f' "acc @ [(k, v)]"] Cons by (simp add: f' e_def)
  qed
qed

lemma skipWs_idem [simp]: "skipWs (skipWs s) = skipWs s"
  by (simp add: skipWs_def)

lemma parse_skipWs:
  "parseElements strtod f acc (skipWs s) = parseElements strtod f acc s"
  "parseMembers strtod f mem (skipWs s) = parseMembers strtod f mem s"
  by (cases f; simp)+

lemma parseValue_bracket:
  assumes "skipWs s = c # q"
  shows "c \<noteq> CHR '']'' \<Longrightarrow> parseValue strtod (Suc f) (CHR ''['' # s) = parseElements strtod f [] s"
    and "c \<noteq> CHR ''}'' \<Longrightarrow> parseValue strtod (Suc f) (CHR ''{'' # s) = parseMembers strtod f [] s"
  using assms parse_skipWs [of strtod f "[]" s]
  by (simp_all del: parseElements.simps parseMembers.simps)

lemma dumped_elements_starts: "plain v \<Longrightarrow>
  \<exists>c q. skipWs (dumped_elements fmt pretty n (v # vs) r) = c # q \<and> c \<noteq> CHR '']''"
  unfolding dumped_elements_def dumpElements.simps append_assoc if_False append_Nil skipWs_nl
  using skipWs_starts [OF starts_dump] starts_Cons [OF starts_dump] by metis

lemma dumped_members_starts:
  "\<exists>c q. skipWs (dumped_members fmt pretty n (m # ob) r) = c # q \<and> c \<noteq> CHR ''}''"
proof (cases m)
  case (Pair k v)
  have ne: "chr 34 \<noteq> CHR ''}''" by code_simp
  show ?thesis
    unfolding Pair dumped_members_def dumpMembers.simps append_assoc if_False append_Nil skipWs_nl append_Cons
    by (simp add: ne)
qed

lemma parse_dump:
  assumes rd: "reads_ints strtod"
  shows "plain v \<Longrightarrow> num_stop r \<Longrightarrow> 2 * length (dumpValue fmt pretty n v) + 1 \<le> f \<Longrightarrow>
      parseValue strtod f (dumpValue fmt pretty n v @ r) = Parsed v r"
    and "list_all plain vs \<Longrightarrow> vs \<noteq> [] \<Longrightarrow> 2 * length (dumpElements fmt pretty n False vs) + 2 \<le> f \<Longrightarrow>
      parseElements strtod f accv (dumped_elements fmt pretty n vs r) = Parsed (JArray (accv @ vs)) r"
    and "list_all (\<lambda>(k, v). plain v) ob \<Longrightarrow> ob \<noteq> [] \<Longrightarrow> 2 * length (dumpMembers fmt pretty n False ob) + 2 \<le> f \<Longrightarrow>
      parseMembers strtod f acco (dumped_members fmt pretty n ob r) = Parsed (JObject (acco @ ob)) r"
proof (induction fmt pretty n v and fmt pretty n "more :: bool" vs and fmt pretty n "more :: bool" ob arbitrary: f r and f r accv and f r acco
    rule: dumpValue_dumpElements_dumpMembers.induct)
  case (1 fmt pretty n)
  then show ?case by (cases f) (simp_all add: parseLiteral_def char_eq_code)
next
  case (2 fmt pretty n b)
  then show ?case
    by (cases f; cases b) (simp_all add: parseLiteral_def char_eq_code)
next
  case (3 fmt pretty n x)
  then obtain f' where f: "f = Suc f'" by (cases f) auto
  have "strtod (int_to_string \<lfloor>x\<rfloor>) = of_int \<lfloor>x\<rfloor>" using rd 3 by (simp add: reads_ints_def)
  then show ?case
    using 3 parse_int [of r strtod f' "\<lfloor>x\<rfloor>"] by (simp add: f dump_number_plain del: parseValue.simps)
next
  case (4 fmt pretty n str)
  then show ?case
    by (cases f) (simp_all add: parseString_escape char_eq_code)
next
  case (5 fmt pretty n a)
  then obtain f' where f: "f = Suc f'" by (cases f) auto
  show ?case
  proof (cases a)
    case Nil
    then show ?thesis by (simp add: f)
  next
    case (Cons v vs)
    have "plain v" using 5 Cons by simp
    from dumped_elements_starts [OF this] obtain c q
      where s: "skipWs (dumped_elements fmt pretty n a r) = c # q" "c \<noteq> CHR '']''" unfolding Cons by metis
    have "dumpValue fmt pretty n (JArray a) @ r = CHR ''['' # dumped_elements fmt pretty n a r"
      using Cons by (simp add: dumped_elements_def del: dumpElements.simps)
    moreover have "parseElements strtod f' [] (dumped_elements fmt pretty n a r) = Parsed (JArray ([] @ a)) r"
      using 5 Cons by (intro "5.IH") (simp_all add: f del: dumpElements.simps)
    ultimately show ?thesis using parseValue_bracket(1) [OF s, of strtod f'] by (simp add: f del: parseValue.simps)
  qed
next
  case (6 fmt pretty n ob)
  then obtain f' where f: "f = Suc f'" by (cases f) auto
  show ?case
  proof (cases ob)
    case Nil
    then show ?thesis by (simp add: f)
  next
    case (Cons m ms)
    from dumped_members_starts [of fmt pretty n m ms r] obtain c q
      where s: "skipWs (dumped_members fmt pretty n ob r) = c # q" "c \<noteq> CHR ''}''" unfolding Cons by metis
    have "dumpValue fmt pretty n (JObject ob) @ r = CHR ''{'' # dumped_members fmt pretty n ob r"
      using Cons by (simp add: dumped_members_def del: dumpMembers.simps)
    moreover have "parseMembers strtod f' [] (dumped_members fmt pretty n ob r) = Parsed (JObject ([] @ ob)) r"
      using 6 Cons by (intro "6.IH") (simp_all add: f del: dumpMembers.simps)
    ultimately show ?thesis using parseValue_bracket(2) [OF s, of strtod f'] by (simp add: f del: parseValue.simps)
  qed
next
  case (8 fmt pretty n more v vs)
  show ?case
    by (rule parse_element) (use 8 in simp_all)
next
  case (10 fmt pretty n more k v ob)
  show ?case
    by (rule parse_member) (use 10 in simp_all)
qed simp_all

text \<open>
  C34: What the serializer writes, plain or pretty, the parser reads back as the same value: the
  strings with every byte, the arrays in order, the objects with their keys in order, the whole
  numbers up to two to the power 53 (when \<open>std::strtod\<close> reads a decimal integer of that size exactly).
\<close>

theorem json_roundtrip: "reads_ints strtod \<Longrightarrow> plain v \<Longrightarrow> parse strtod (dump fmt pretty v) = Some (Inr v)"
  using parse_dump(1) [of strtod v "[]" fmt pretty 0 "parse_fuel (dump fmt pretty v)"]
  by (simp add: parse_def dump_def parse_fuel_def num_stop_rest skipWs_def)

definition decimal_int :: "string \<Rightarrow> rat" where
  "decimal_int s = (case s of
     c # r \<Rightarrow> if c = CHR ''-'' then - of_nat (digits_val r) else of_nat (digits_val s) | [] \<Rightarrow> 0)"

lemma decimal_int_reads: "reads_ints decimal_int"
proof -
  have "decimal_int (int_to_string i) = of_int i" for i
  proof (cases "i < 0")
    case True
    then show ?thesis by (simp add: decimal_int_def int_to_string_def)
  next
    case False
    obtain c q where n: "nat_to_string (nat i) = c # q" by (cases "nat_to_string (nat i)") auto
    then have "c \<noteq> CHR ''-''" using nat_to_string_list_all [of "nat i"] by (auto simp: is_digit_def)
    then show ?thesis
      using False digits_val_nat_to_string [of "nat i"] by (simp add: decimal_int_def int_to_string_def n)
  qed
  then show ?thesis by (simp add: reads_ints_def)
qed

lemma json_roundtrip_witness:
  "parse decimal_int (dump (\<lambda>_. []) True
     (JObject [(''q'', JString (chr 10 # ''a'')), (''n'', JArray [JNumber (- 7 :: rat), JNull, JBool True])])) =
   Some (Inr (JObject [(''q'', JString (chr 10 # ''a'')), (''n'', JArray [JNumber (- 7), JNull, JBool True])]))"
  by (rule json_roundtrip [OF decimal_int_reads]) simp
end
