(* ===== verification/Admin.thy ===== *)
theory Admin
  imports Web Json
begin

text \<open>
  The admin dashboard of \<open>src/admin.cpp\<close>: the bounded activity log, the token, the request handler
  and the page. What the page shows of the outside world (a Tor probe, the onion host name file, the
  printed local time) and how the library prints a double are parameters. The theory proves that the
  log keeps exactly the latest events, and that without the token a client learns nothing of the engine.
\<close>

section \<open>Activity log\<close>

record activity_event =
  ae_time :: int
  ae_kind :: string
  ae_url :: string
  ae_text :: string

record activity_log =
  al_events :: "activity_event list"
  al_cap :: nat

definition new_log :: "nat \<Rightarrow> activity_log" where
  "new_log capacity = \<lparr>al_events = [], al_cap = (if capacity = 0 then 1 else capacity)\<rparr>"

text \<open>The oldest events leave while there are too many.\<close>

fun pop_excess :: "nat \<Rightarrow> activity_event list \<Rightarrow> activity_event list" where
  "pop_excess cap [] = []"
| "pop_excess cap (e # es) = (if cap < length (e # es) then pop_excess cap es else e # es)"

definition log_add :: "activity_event \<Rightarrow> activity_log \<Rightarrow> activity_log" where
  "log_add ev lg = lg\<lparr>al_events := pop_excess (al_cap lg) (al_events lg @ [ev])\<rparr>"

definition log_recent :: "activity_log \<Rightarrow> activity_event list" where
  "log_recent lg = al_events lg"

definition log_size :: "activity_log \<Rightarrow> nat" where
  "log_size lg = length (al_events lg)"

section \<open>Options and token\<close>

record admin_options =
  ao_host :: string
  ao_port :: u16
  ao_onionHostnameFile :: string
  ao_torHost :: string
  ao_torPort :: u16
  ao_token :: string
  ao_refreshSeconds :: nat
  ao_pageTitle :: string

definition default_admin_options :: admin_options where
  "default_admin_options = \<lparr>ao_host = ''127.0.0.1'', ao_port = 8081, ao_onionHostnameFile = [], ao_torHost = ''127.0.0.1'', ao_torPort = 9050,
     ao_token = [], ao_refreshSeconds = 5, ao_pageTitle = ''Shadow SE - Admin Dashboard''\<rparr>"

definition toHex :: "bytes \<Rightarrow> string" where
  "toHex bs = concat (map (\<lambda>b. [hex_digit (unat b div 16), hex_digit (unat b mod 16)]) bs)"

definition admin_token :: "'r sodium \<Rightarrow> admin_options \<Rightarrow> 'r \<Rightarrow> string \<times> 'r" where
  "admin_token sd opts r =
     (if ao_token opts = [] then let (bs, r) = randomBytes sd 16 r in (toHex bs, r) else (ao_token opts, r))"

section \<open>The dashboard\<close>

text \<open>\<open>std::getline\<close>: the first line, without its line feed.\<close>

definition readOnionHostname :: "disk \<Rightarrow> string \<Rightarrow> string" where
  "readOnionHostname dk path =
     (if path = [] then []
      else case dk_files dk path of None \<Rightarrow> [] | Some f \<Rightarrow> takeWhile (\<lambda>c. c \<noteq> CHR 0x0A) f)"

definition badge :: "string \<Rightarrow> string" where
  "badge kind =
     (if kind = ''indexed'' then lit ''<span style=`color:#3fb950`>[INDEXED]</span>''
      else if kind = ''error'' then lit ''<span style=`color:#f85149`>[ERROR]</span>''
      else lit ''<span style=`color:#58a6ff`>[INFO]</span>'')"

definition fetcher_name :: "fetcher_kind \<Rightarrow> string" where
  "fetcher_name k = (case k of UseStub \<Rightarrow> ''stub'' | UseCurl \<Rightarrow> ''libcurl'')"

definition unauthorizedPage :: string where
  "unauthorizedPage =
      lit ''<!DOCTYPE html><html><head><meta charset=`utf-8`><title>Shadow SE Admin</title></head><body styl'' @
      lit ''e=`font-family:monospace;background:#0d1117;color:#c9d1d9`><h1>401 Unauthorized</h1><p>This dash'' @
      lit ''board is admin-only. Reopen it with <code>?t=TOKEN</code> (the token is printed when the admin s'' @
      lit ''erver starts).</p></body></html>''"

definition dashboard_head :: "admin_options \<Rightarrow> string \<Rightarrow> string" where
  "dashboard_head opts token =
      lit ''<!DOCTYPE html>~<html lang=`en`><head><meta charset=`utf-8`>~<title>'' @
      escapeHtml (ao_pageTitle opts) @
      lit ''</title>~<meta http-equiv=`refresh` content=`'' @
      nat_to_string (ao_refreshSeconds opts) @
      lit ''`>~<meta name=`robots` content=`noindex, nofollow`>~<style>body{font-family:ui-monospace,Menlo,C'' @
      lit ''onsolas,monospace;background:#0d1117;color:#c9d1d9;max-width:900px;margin:2rem auto;padding:0 1r'' @
      lit ''em;line-height:1.55}h1{color:#58a6ff;font-size:1.25rem}h2{color:#8b949e;font-size:1rem;border-bo'' @
      lit ''ttom:1px solid #21262d;padding-bottom:.3rem}.grid{display:flex;flex-wrap:wrap;gap:1rem}.card{bac'' @
      lit ''kground:#161b22;border:1px solid #30363d;border-radius:8px;padding:.8rem 1rem;min-width:220px;fl'' @
      lit ''ex:1}.k{color:#8b949e;font-size:.8rem}.v{font-size:1.2rem;color:#e6edf3}.up{color:#3fb950}.down{'' @
      lit ''color:#f85149}.warn{color:#e3b341}.onion{color:#bc8cff;word-break:break-all}table{width:100%;bor'' @
      lit ''der-collapse:collapse;font-size:.85rem}td,th{padding:.35rem .5rem;text-align:left;border-bottom:'' @
      lit ''1px solid #21262d}a{color:#58a6ff}.refresh{color:#484f58;font-size:.8rem}</style></head><body>~<'' @
      lit ''h1>Shadow SE '' @
      utf8_bytes [226, 128, 148] @
      lit '' Admin Dashboard</h1>~<p class=`refresh`>auto-refreshes every '' @
      nat_to_string (ao_refreshSeconds opts) @
      lit ''s '' @
      utf8_bytes [194, 183] @
      lit '' local admin only (127.0.0.1) '' @
      utf8_bytes [194, 183] @
      lit '' token-protected '' @
      utf8_bytes [194, 183] @
      lit '' <a href=`/?t='' @
      token @
      lit ''`>refresh now</a></p>~'' @
      lit ''<h2>Site &amp; Tor</h2>~<div class=`grid`>~''"

definition tor_card :: "probe_result \<Rightarrow> string" where
  "tor_card tor =
     (case pr_status tor of
        TorUp \<Rightarrow>
      lit ''<div class=`card`><div class=`k`>Tor SOCKS5</div><div class=`v up`>UP</div><div class=`k`>'' @
      int_to_string (pr_elapsed tor) @
      lit '' ms</div></div>~''
      | TorDown \<Rightarrow>
      lit ''<div class=`card`><div class=`k`>Tor SOCKS5</div><div class=`v down`>DOWN</div><div class=`k`>da'' @
      lit ''rkweb routing off</div></div>~''
      | TorUnknown \<Rightarrow>
      lit ''<div class=`card`><div class=`k`>Tor SOCKS5</div><div class=`v warn`>UNKNOWN</div></div>~'')"

definition onion_card :: "string \<Rightarrow> string" where
  "onion_card onion =
     lit ''<div class=`card`><div class=`k`>Onion address (stealth)</div>~'' @
     (if onion \<noteq> [] then
      lit ''<div class=`v onion`>'' @
      escapeHtml onion @
      lit ''</div><div class=`k`>client-auth required to open</div></div>~''
      else
      lit ''<div class=`v down`>not configured</div><div class=`k`>run onion/setup.sh</div></div>~'')"

definition engine_cards :: "('d \<Rightarrow> string) \<Rightarrow> ('d::field_char_0, 'w) engine \<Rightarrow> string" where
  "engine_cards fmt1 e =
     (let ix = en_index e in
      lit ''<h2>Engine core</h2>~<div class=`grid`>~<div class=`card`><div class=`k`>Indexed documents</div>'' @
      lit ''<div class=`v`>'' @
      nat_to_string (documentCount ix) @
      lit ''</div></div>~<div class=`card`><div class=`k`>Distinct terms</div><div class=`v`>'' @
      nat_to_string (termCount ix) @
      lit ''</div></div>~<div class=`card`><div class=`k`>Average doc length</div><div class=`v`>'' @
      fmt1 (averageDocLength ix) @
      lit ''</div></div>~<div class=`card`><div class=`k`>Fetcher</div><div class=`v`>'' @
      escapeHtml (fetcher_name (en_fetcher e)) @
      lit ''</div></div>~</div>~'')"

definition crawler_cards :: "('d, 'w) engine \<Rightarrow> string" where
  "crawler_cards e =
      lit ''<h2>Crawler</h2>~<div class=`grid`>~<div class=`card`><div class=`k`>Crawled pages</div><div cla'' @
      lit ''ss=`v`>'' @
      nat_to_string (crawledPages e) @
      lit ''</div></div>~<div class=`card`><div class=`k`>Pending queue</div><div class=`v`>'' @
      nat_to_string (pendingCrawls e) @
      lit ''</div></div>~'' @
      lit ''<div class=`card`><div class=`k`>Workers</div><div class=`v`>'' @
      (if crawlerBusy e then ''running'' else ''idle'') @
      lit ''</div></div>~'' @
      lit ''</div>~''"

definition event_row :: "(int \<Rightarrow> string) \<Rightarrow> activity_event \<Rightarrow> string" where
  "event_row formatTime ev =
      lit ''<tr><td>'' @
      formatTime (ae_time ev) @
      lit ''</td><td>'' @
      badge (ae_kind ev) @
      lit ''</td><td>'' @
      escapeHtml (ae_url ev) @
      lit ''</td><td>'' @
      escapeHtml (ae_text ev) @
      lit ''</td></tr>~''"

definition activity_table :: "(int \<Rightarrow> string) \<Rightarrow> activity_event list \<Rightarrow> string" where
  "activity_table formatTime events =
      lit ''<h2>Recent activity ('' @
      nat_to_string (length events) @
      lit '')</h2>~<table>~<tr><th>time</th><th>type</th><th>url</th><th>detail</th></tr>~'' @
      concat (map (event_row formatTime) events) @
      lit ''</table>~'' @
      (if events = [] then
      lit ''<p class=`refresh`>No activity yet '' @
      utf8_bytes [226, 128, 148] @
      lit '' run <code>crawl &lt;url&gt;</code> in the terminal.</p>~''
       else [])"

text \<open>The parts of the outside world and of the library the page depends on.\<close>

record ('d) page_env =
  pe_tor :: probe_result
  pe_disk :: disk
  pe_formatTime :: "int \<Rightarrow> string"
  pe_fmt1 :: "'d \<Rightarrow> string"

definition renderDashboard :: "'d page_env \<Rightarrow> admin_options \<Rightarrow> string \<Rightarrow> ('d::field_char_0, 'w) engine \<Rightarrow> activity_log \<Rightarrow>
    bool \<Rightarrow> string" where
  "renderDashboard pe opts token e lg authorized =
     (if \<not> authorized then unauthorizedPage
      else
        let onion = readOnionHostname (pe_disk pe) (ao_onionHostnameFile opts)
        in dashboard_head opts token @
           tor_card (pe_tor pe) @
           onion_card onion @
           lit ''<div class=`card`><div class=`k`>Public web UI</div><div class=`v up`>running</div><div class=`k'' @
      lit ''`>127.0.0.1:8080 '' @
      utf8_bytes [226, 134, 146] @
      lit '' onion</div></div>~</div>~'' @
           engine_cards (pe_fmt1 pe) e @
           crawler_cards e @
           activity_table (pe_formatTime pe) (log_recent lg) @
           lit ''</body></html>~'')"

section \<open>Requests\<close>

definition html_head :: "nat \<Rightarrow> string \<Rightarrow> string \<Rightarrow> string" where
  "html_head status statusText body =
     ''HTTP/1.1 '' @ nat_to_string status @ '' '' @ statusText @ crlf @
     ''Content-Type: text/html; charset=utf-8'' @ crlf @
     ''Cache-Control: no-store, no-cache, must-revalidate'' @ crlf @
     ''X-Content-Type-Options: nosniff'' @ crlf @
     ''X-Frame-Options: DENY'' @ crlf @
     ''Content-Length: '' @ nat_to_string (length body) @ crlf @
     ''Connection: close'' @ crlf @
     crlf"

definition sendHtml :: "int list \<Rightarrow> nat \<Rightarrow> string \<Rightarrow> string \<Rightarrow> string" where
  "sendHtml sends status statusText body =
     (let (a, sends) = send_all sends (html_head status statusText body);
          (b, sends) = send_all sends body
      in a @ b)"

text \<open>The comparison loop: every position both strings have is compared.\<close>

fun same_token :: "bool \<Rightarrow> string \<Rightarrow> string \<Rightarrow> bool" where
  "same_token same (a # t) (b # u) = same_token (same \<and> a = b) t u"
| "same_token same _ _ = same"

definition token_matches :: "string \<Rightarrow> string \<Rightarrow> bool" where
  "token_matches t token = same_token (length t = length token) t token"

definition admin_authorized :: "string \<Rightarrow> string \<Rightarrow> string \<Rightarrow> bool" where
  "admin_authorized token mth target =
     (if mth = ''GET'' \<and> prefix ''/'' target \<and> \<not> contains target ''..'' then
        let (path, query) = split_target target
        in if path = ''/'' then
             (case first_param ''t='' query of None \<Rightarrow> False | Some t \<Rightarrow> token_matches t token)
           else False
      else False)"

definition admin_answer :: "(bool \<Rightarrow> string) \<Rightarrow> string \<Rightarrow> string \<Rightarrow> nat \<times> string \<times> string" where
  "admin_answer render token requestLine =
     (let (mth, target) = request_words requestLine
      in if mth = ''GET'' \<and> prefix ''/healthz'' target then (200, ''OK'', ''ok'')
         else
           let authorized = admin_authorized token mth target
           in (if authorized then 200 else 401, if authorized then ''OK'' else ''Unauthorized'', render authorized))"

definition admin_handleClient :: "'d page_env \<Rightarrow> admin_options \<Rightarrow> string \<Rightarrow> ('d::field_char_0, 'w) engine \<Rightarrow> activity_log \<Rightarrow>
    string list \<Rightarrow> int list \<Rightarrow> string" where
  "admin_handleClient pe opts token e lg chunks sends =
     (case receive 8192 [] chunks of
        (buf, None) \<Rightarrow> []
      | (buf, Some headerEnd) \<Rightarrow>
          let (requestLine, headers) = split_head (take headerEnd buf);
              (status, statusText, body) = admin_answer (renderDashboard pe opts token e lg) token requestLine
          in sendHtml sends status statusText body)"

text \<open>Opening and closing the listener is the code of the web front end.\<close>

definition admin_start :: "(int \<Rightarrow> string) \<Rightarrow> listen_answers \<Rightarrow> server \<Rightarrow> (string + unit) \<times> server" where
  "admin_start strerror la sv = start_server strerror la sv"

definition admin_stop :: "server \<Rightarrow> server" where
  "admin_stop sv = stop_server sv"

text \<open>
  The accept loop: the accept thread tests \<open>running_\<close>, waits in \<open>accept\<close> and hands every client to a
  detached thread; unlike the web front end it counts no connections and refuses none.
\<close>

inductive admin_step :: "web_state \<Rightarrow> web_event \<Rightarrow> web_state \<Rightarrow> bool" where
  admin_loop: "ws_thread s = Testing \<Longrightarrow>
    admin_step s Loop (s\<lparr>ws_thread := (if sv_running (ws_server s) then Accepting else Returned)\<rparr>)"
| admin_fail: "ws_thread s = Accepting \<Longrightarrow>
    admin_step s NoClient (s\<lparr>ws_thread := (if sv_running (ws_server s) then Testing else Returned)\<rparr>)"
| admin_interrupted: "ws_thread s = Accepting \<Longrightarrow> admin_step s NoClient (s\<lparr>ws_thread := Testing\<rparr>)"
| admin_client: "ws_thread s = Accepting \<Longrightarrow> admin_step s Serve (s\<lparr>ws_thread := Testing\<rparr>)"
| admin_done: "admin_step s Done s"
| admin_stopped: "admin_step s StopServer (s\<lparr>ws_server := admin_stop (ws_server s)\<rparr>)"

inductive_cases admin_stepE: "admin_step s ev s'"

lemma admin_step_stopped:
  "admin_step s ev s' \<Longrightarrow> (ev = StopServer \<longrightarrow> \<not> sv_running (ws_server s')) \<and>
    (\<not> sv_running (ws_server s) \<longrightarrow> \<not> sv_running (ws_server s') \<and> clients [ev] + waiting s' \<le> waiting s)"
  by (elim admin_stepE) (auto simp: admin_stop_def stop_server_def clients_def waiting_def split: if_splits)

interpretation admin_loop: accept_loop admin_step
  by unfold_locales (auto dest: admin_step_stopped)

section \<open>The log keeps the latest events\<close>

lemma pop_excess_drop: "pop_excess cap es = drop (length es - cap) es"
  by (induction cap es rule: pop_excess.induct) (auto simp: Suc_diff_le)

text \<open>
  The activity log is a window on the events: after any sequence of additions it holds exactly
  the latest ones, in order, as many as its capacity (a capacity of zero counts as one).
\<close>

theorem log_window:
  "log_recent (fold log_add evs (new_log n)) = drop (length evs - max 1 n) evs \<and>
   log_size (fold log_add evs (new_log n)) = min (length evs) (max 1 n)"
proof -
  define k where "k = max 1 n"
  have k: "0 < k" by (simp add: k_def)
  have "al_cap (fold log_add evs (new_log n)) = k \<and> al_events (fold log_add evs (new_log n)) = drop (length evs - k) evs"
  proof (induction evs rule: rev_induct)
    case (snoc e evs)
    define L where "L = length evs"
    have "drop (length (drop (L - k) evs @ [e]) - k) (drop (L - k) evs @ [e]) = drop (Suc L - k) (evs @ [e])"
    proof (cases "L < k")
      case True
      then show ?thesis by (simp add: L_def)
    next
      case False
      then have "length (drop (L - k) evs @ [e]) - k = 1" "Suc L - k = 1 + (L - k)" by (simp_all add: L_def)
      then show ?thesis using k by (simp only: drop_append drop_drop length_drop) (simp add: L_def)
    qed
    then show ?case using snoc by (simp add: log_add_def pop_excess_drop L_def)
  qed (auto simp: new_log_def k_def)
  then show ?thesis by (auto simp: log_recent_def log_size_def k_def)
qed

section \<open>The token protects the dashboard\<close>

lemma same_token_iff: "length t = length u \<Longrightarrow> same_token same t u \<longleftrightarrow> same \<and> t = u"
  by (induction same t u rule: same_token.induct) auto

lemma token_matches_iff: "token_matches t token \<longleftrightarrow> t = token"
proof (cases "length t = length token")
  case False
  have "same_token False t u = False" for t u by (induction False t u rule: same_token.induct) auto
  then show ?thesis using False by (auto simp: token_matches_def)
qed (simp add: token_matches_def same_token_iff)

lemma admin_refused:
  assumes "request_words line = (mth, target)" "first_param ''t='' (snd (split_target target)) \<noteq> Some token"
  shows "admin_answer (renderDashboard pe opts token e lg) token line =
      (if mth = ''GET'' \<and> prefix ''/healthz'' target then (200, ''OK'', ''ok'') else (401, ''Unauthorized'', unauthorizedPage))"
proof -
  have "\<not> admin_authorized token mth target"
    using assms(2) by (auto simp: admin_authorized_def token_matches_iff split: prod.splits option.splits)
  then show ?thesis by (simp add: admin_answer_def assms(1) renderDashboard_def)
qed

lemma admin_handle_refused:
  assumes "receive 8192 [] chunks = (buf, Some headerEnd)"
    and "request_words (fst (split_head (take headerEnd buf))) = (mth, target)"
    and "first_param ''t='' (snd (split_target target)) \<noteq> Some token"
  shows "admin_handleClient pe opts token e lg chunks sends =
    (if mth = ''GET'' \<and> prefix ''/healthz'' target then sendHtml sends 200 ''OK'' ''ok''
     else sendHtml sends 401 ''Unauthorized'' unauthorizedPage)"
  using admin_refused [OF assms(2,3), of pe opts e lg]
  by (simp add: admin_handleClient_def assms(1) Let_def case_prod_beta)

text \<open>
  C13: The dashboard is for the holder of the token: a client whose request does not carry exactly
  the token as its first \<open>t\<close> parameter is sent the same bytes whatever the engine, the log, the
  probe and the files hold, and is never answered 200 except by the liveness probe.
\<close>

theorem admin_token_required:
  assumes "receive 8192 [] chunks = (buf, Some headerEnd)"
    and "request_words (fst (split_head (take headerEnd buf))) = (mth, target)"
    and "first_param ''t='' (snd (split_target target)) \<noteq> Some token"
  shows "admin_handleClient pe opts token e lg chunks sends = admin_handleClient pe' opts' token e' lg' chunks sends \<and>
    (fst (admin_answer (renderDashboard pe opts token e lg) token (fst (split_head (take headerEnd buf)))) = 200 \<longrightarrow>
     mth = ''GET'' \<and> prefix ''/healthz'' target)"
  by (simp only: admin_handle_refused [OF assms] admin_refused [OF assms(2,3)]) simp

definition sample_request :: string where
  "sample_request = ''GET /?t=guess HTTP/1.1'' @ crlf @ crlf"

definition sample_page_env :: "string \<Rightarrow> rat page_env" where
  "sample_page_env t = \<lparr>pe_tor = empty_probe, pe_disk = good_disk, pe_formatTime = (\<lambda>_. t), pe_fmt1 = (\<lambda>_. t)\<rparr>"

lemma admin_token_required_witness:
  "admin_handleClient (sample_page_env ''x'') default_admin_options ''secret'' sample_engine (new_log 3) [sample_request] [1000] =
   admin_handleClient (sample_page_env ''y'') default_admin_options ''secret'' (seedDemoData sample_engine) (new_log 9) [sample_request] [1000]"
proof -
  have r: "receive 8192 [] [sample_request] = (sample_request, Some 22)"
    "request_words (fst (split_head (take 22 sample_request))) = (''GET'', ''/?t=guess'')"
    "first_param ''t='' (snd (split_target ''/?t=guess'')) = Some ''guess''"
    by code_simp+
  have "first_param ''t='' (snd (split_target ''/?t=guess'')) \<noteq> Some ''secret''" by (simp add: r(3))
  from admin_token_required [OF r(1,2) this] show ?thesis by blast
qed

end
