(* ===== verification/Keygen.thy ===== *)
theory Keygen
  imports Crypto
begin

text \<open>
  The key generator of \<open>src/se_keygen.cpp\<close>: base64 and base32 without padding, the client key pair,
  the passphrase and the argument loop. libsodium is a parameter. The theory proves that both
  encodings of a key stand for exactly its bits, and that a passphrase has the length asked for.
\<close>

section \<open>Encodings\<close>

definition kB64 :: string where
  "kB64 = ''ABCDEFGHIJKLMNOPQRSTUVWXYZabcdefghijklmnopqrstuvwxyz0123456789+/''"

definition kB32 :: string where
  "kB32 = ''ABCDEFGHIJKLMNOPQRSTUVWXYZ234567''"

definition kb64_char :: "u32 \<Rightarrow> nat \<Rightarrow> char" where
  "kb64_char v k = kB64 ! unat (drop_bit k v AND 63)"

fun b64Unpadded :: "bytes \<Rightarrow> string" where
  "b64Unpadded (a # b # c # rest) =
     (let v = push_bit 16 (ucast a) OR push_bit 8 (ucast b) OR ucast c :: u32
      in kb64_char v 18 # kb64_char v 12 # kb64_char v 6 # kb64_char v 0 # b64Unpadded rest)"
| "b64Unpadded [a] = (let v = push_bit 16 (ucast a) :: u32 in [kb64_char v 18, kb64_char v 12])"
| "b64Unpadded [a, b] =
     (let v = push_bit 16 (ucast a) OR push_bit 8 (ucast b) :: u32
      in [kb64_char v 18, kb64_char v 12, kb64_char v 6])"
| "b64Unpadded [] = []"

text \<open>The inner loop of \<open>b32Unpadded\<close>: groups of five bits leave while there are five.\<close>

fun b32_emit :: "u64 \<Rightarrow> nat \<Rightarrow> string \<Rightarrow> nat \<times> string" where
  "b32_emit buffer bits out =
     (if 5 \<le> bits then b32_emit buffer (bits - 5) (out @ [kB32 ! unat (drop_bit (bits - 5) buffer AND 31)])
      else (bits, out))"

declare b32_emit.simps [simp del]

fun b32_loop :: "bytes \<Rightarrow> u64 \<Rightarrow> nat \<Rightarrow> string \<Rightarrow> string" where
  "b32_loop [] buffer bits out =
     (if 0 < bits then out @ [kB32 ! unat (push_bit (5 - bits) buffer AND 31)] else out)"
| "b32_loop (d # data) buffer bits out =
     (let buffer = push_bit 8 buffer OR ucast d; (bits, out) = b32_emit buffer (bits + 8) out
      in b32_loop data buffer bits out)"

definition b32Unpadded :: "bytes \<Rightarrow> string" where
  "b32Unpadded data = b32_loop data 0 0 []"

section \<open>The program\<close>

text \<open>libsodium as the program uses it, and whether it was compiled in.\<close>

record 'r key_env =
  ke_have :: bool
  ke_init :: bool
  ke_random :: "'r \<Rightarrow> nat \<Rightarrow> bytes \<times> 'r"
  ke_public :: "bytes \<Rightarrow> bytes"

text \<open>What a run leaves: standard output, standard error and the exit code.\<close>

record outcome =
  oc_out :: string
  oc_err :: string
  oc_code :: int

definition newline :: string where
  "newline = [CHR 0x0A]"

definition need_sodium :: outcome where
  "need_sodium = \<lparr>oc_out = [], oc_err = ''se-keygen requires libsodium (build with HAVE_SODIUM).'' @ newline, oc_code = 1\<rparr>"

definition init_failed :: outcome where
  "init_failed = \<lparr>oc_out = [], oc_err = ''libsodium init failed'' @ newline, oc_code = 1\<rparr>"

definition genClient :: "'r key_env \<Rightarrow> 'r \<Rightarrow> string \<Rightarrow> outcome" where
  "genClient ke r name =
     (if \<not> ke_have ke then need_sodium
      else if \<not> ke_init ke then init_failed
      else
        let (priv, r) = ke_random ke r 32;
            pub = ke_public ke priv;
            pubB32 = b32Unpadded pub;
            privB32 = b32Unpadded priv
        in \<lparr>oc_out =
              ''client name : '' @ name @ newline @
              ''public key  : '' @ pubB32 @ newline @
              ''private key : '' @ privB32 @ newline @
              ''public key  (base64): '' @ b64Unpadded pub @ newline @
              newline @ ''Service side - write this into <HiddenServiceDir>/authorized_clients/'' @ name @ ''.auth'' @ newline @
              ''  descriptor:x25519:'' @ pubB32 @ newline @
              newline @ ''Client side - install this private key in ClientOnionAuthDir'' @ newline @
              ''  <onion-address>:descriptor:x25519:'' @ privB32 @ newline @
              newline @ ''Keep the private key secret. Anyone holding it can access the onion.'' @ newline,
            oc_err = [], oc_code = 0\<rparr>)"

definition passphrase_chars :: string where
  "passphrase_chars = ''ABCDEFGHJKLMNPQRSTUVWXYZabcdefghijkmnopqrstuvwxyz23456789!@#$%^&*-_=+''"

definition passphrase_char :: "u8 \<Rightarrow> char" where
  "passphrase_char b = passphrase_chars ! (unat b mod length passphrase_chars)"

function passphrase_loop :: "('r \<Rightarrow> nat \<Rightarrow> bytes \<times> 'r) \<Rightarrow> nat \<Rightarrow> nat \<Rightarrow> string \<Rightarrow> 'r \<Rightarrow> string \<times> 'r" where
  "passphrase_loop random n don pw r =
     (if don < n then
        let (buf, r) = random r 64
        in passphrase_loop random n (don + 64) (pw @ map passphrase_char (take (n - don) buf)) r
      else (pw, r))"
  by auto
termination by (relation "measure (\<lambda>(_, n, don, _). n - don)") auto

declare passphrase_loop.simps [simp del]

definition genPassphrase :: "'r key_env \<Rightarrow> 'r \<Rightarrow> nat \<Rightarrow> outcome" where
  "genPassphrase ke r n =
     (if \<not> ke_have ke then need_sodium
      else if \<not> ke_init ke then init_failed
      else \<lparr>oc_out = fst (passphrase_loop (ke_random ke) n 0 [] r) @ newline, oc_err = [], oc_code = 0\<rparr>)"

definition keygen_usage :: outcome where
  "keygen_usage = \<lparr>oc_out =
      ''Usage:'' @ newline @
      ''  se-keygen --client <name>     generate a stealth onion client keypair'' @ newline @
      ''  se-keygen --passphrase [N]    generate a strong random passphrase'' @ newline,
     oc_err = [], oc_code = 0\<rparr>"

text \<open>
  \<open>std::atoi\<close>: white space, a sign, the digits that follow; \<open>None\<close> where the value does not fit
  an \<open>int\<close> and the standard says nothing.
\<close>

definition atoi :: "string \<Rightarrow> int option" where
  "atoi s =
     (let t = dropWhile is_space s;
          (neg, ds) = (case t of c # u \<Rightarrow> if c = CHR ''-'' then (True, u) else if c = CHR ''+'' then (False, u) else (False, t)
                       | [] \<Rightarrow> (False, []));
          m = int (digits_val (takeWhile is_digit ds));
          v = (if neg then - m else m)
      in if - (2 ^ 31) \<le> v \<and> v < 2 ^ 31 then Some v else None)"

text \<open>
  The size asked for, cast to \<open>std::size_t\<close>; reserving more than a string can hold throws, which
  nothing catches: \<open>None\<close> is a program that did not return.
\<close>

definition max_string :: nat where
  "max_string = 2 ^ 63 - 1"

definition passphrase_size :: "string list \<Rightarrow> nat option" where
  "passphrase_size rest =
     (case rest of
        x # _ \<Rightarrow> if prefix ''-'' x then Some 32 else map_option (\<lambda>v. unat (word_of_int v :: u64)) (atoi x)
      | [] \<Rightarrow> Some 32)"

fun keygen_main :: "'r key_env \<Rightarrow> 'r \<Rightarrow> string list \<Rightarrow> outcome option" where
  "keygen_main ke r [] = Some keygen_usage"
| "keygen_main ke r (a # rest) =
     (if a = ''--client'' \<and> rest \<noteq> [] then Some (genClient ke r (hd rest))
      else if a = ''--passphrase'' then
        (case passphrase_size rest of
           None \<Rightarrow> None
         | Some n \<Rightarrow>
             let n = (if n < 8 then 8 else n)
             in if ke_have ke \<and> ke_init ke \<and> max_string < n then None else Some (genPassphrase ke r n))
      else keygen_main ke r rest)"


section \<open>Both encodings stand for the bits of the key\<close>

definition std64 :: "char \<Rightarrow> char" where
  "std64 c = (if c = CHR ''-'' then CHR ''+'' else if c = CHR ''_'' then CHR ''/'' else c)"

lemma kB64_std: "kB64 = map std64 kBase64Alphabet"
  by code_simp

lemma kb64_char_std: "kb64_char v k = std64 (b64_char v k)"
proof -
  have "unat (drop_bit k v AND 63) < 2 ^ 6"
    using word_and_le1 [of "drop_bit k v" 63] by (simp add: word_le_nat_alt)
  moreover have "length kBase64Alphabet = 64" by code_simp
  ultimately show ?thesis by (simp add: kb64_char_def b64_char_def kB64_std)
qed

lemma b64Unpadded_std: "b64Unpadded d = map std64 (toBase64 d)"
  by (induction d rule: b64Unpadded.induct) (simp_all add: kb64_char_std Let_def)

lemma base64Value_std: "base64Value (std64 c) = base64Value c" "std64 c = CHR ''='' \<longleftrightarrow> c = CHR ''=''"
  by (auto simp: std64_def base64Value_def is_upper_def is_lower_def is_digit_def)

lemma b64_loop_std: "b64_loop (map std64 s) buffer bits = b64_loop s buffer bits"
  by (induction s buffer bits rule: b64_loop.induct) (auto simp: base64Value_std Let_def split: option.splits)

lemma fromBase64_unpadded: "fromBase64 (b64Unpadded d) = fromBase64 (toBase64 d)"
  by (simp add: fromBase64_def b64Unpadded_std b64_loop_std)

text \<open>The reference: bits, most significant first, in groups of five, the last one filled with zeros.\<close>

definition byte_bits :: "u8 \<Rightarrow> bool list" where
  "byte_bits b = map (\<lambda>i. bit b (7 - i)) [0..<8]"

definition digit5 :: "bool list \<Rightarrow> nat" where
  "digit5 xs = horner_sum of_bool 2 (rev xs)"

function b32_groups :: "bool list \<Rightarrow> nat list" where
  "b32_groups xs = (if xs = [] then [] else digit5 (take 5 (xs @ replicate 4 False)) # b32_groups (drop 5 xs))"
  by auto
termination by (relation "measure length") auto

declare b32_groups.simps [simp del]

text \<open>The lowest bits of the buffer, the most significant first.\<close>

definition low_bits :: "nat \<Rightarrow> 'a::len word \<Rightarrow> bool list" where
  "low_bits n w = rev (map (bit w) [0..<n])"

lemma length_low_bits [simp]: "length (low_bits n w) = n"
  by (simp add: low_bits_def)

lemma nth_low_bits: "i < n \<Longrightarrow> low_bits n w ! i = bit w (n - 1 - i)"
  by (simp add: low_bits_def rev_nth)

lemma byte_bits_low: "byte_bits b = low_bits 8 b"
  by (rule nth_equalityI) (simp_all add: byte_bits_def nth_low_bits)

lemma low_bits_push:
  "n + 8 \<le> 64 \<Longrightarrow> low_bits (n + 8) (push_bit 8 (w :: u64) OR ucast (d :: u8)) = low_bits n w @ byte_bits d"
  by (rule nth_equalityI)
    (auto simp: nth_low_bits nth_append byte_bits_low bit_simps dest: bit_imp_le_length)

lemma low_bits_take: "5 \<le> n \<Longrightarrow> n \<le> 64 \<Longrightarrow> low_bits n (w :: u64) = low_bits 5 (drop_bit (n - 5) w) @ low_bits (n - 5) w"
  by (rule nth_equalityI) (auto simp: nth_low_bits nth_append bit_simps)

lemma low_bits_fill: "n \<le> 5 \<Longrightarrow> low_bits 5 (push_bit (5 - n) (w :: u64)) = low_bits n w @ replicate (5 - n) False"
  by (rule nth_equalityI) (auto simp: nth_low_bits nth_append bit_simps)

lemma digit5_low: "digit5 (low_bits 5 w) = unat (w AND 31 :: u64)"
proof -
  have "w AND 31 = take_bit 5 w" by (simp add: take_bit_eq_mask mask_eq_exp_minus_1)
  then have "unat (w AND 31) = take_bit 5 (unat w)" by (simp add: unsigned_take_bit_eq)
  also have "\<dots> = horner_sum of_bool 2 (map (bit (unat w)) [0..<5])" by (simp only: horner_sum_bit_eq_take_bit)
  also have "map (bit (unat w)) [0..<5] = map (bit w) [0..<5]"
    by (simp add: bit_unsigned_iff)
  finally show ?thesis by (simp add: digit5_def low_bits_def)
qed

lemma groups_take: "length xs = 5 \<Longrightarrow> b32_groups (xs @ ys) = digit5 xs # b32_groups ys"
  by (subst b32_groups.simps) auto

lemma groups_Nil [simp]: "b32_groups [] = []"
  by (simp add: b32_groups.simps)

lemma b32_emit_groups:
  "n \<le> 64 \<Longrightarrow> b32_emit w n out = (n', out') \<Longrightarrow>
    n' < 5 \<and> (\<exists>gs. out' = out @ map ((!) kB32) gs \<and> (\<forall>ys. b32_groups (low_bits n w @ ys) = gs @ b32_groups (low_bits n' w @ ys)))"
proof (induction w n out rule: b32_emit.induct)
  case (1 w n out)
  show ?case
  proof (cases "5 \<le> n")
    case False
    then show ?thesis using 1(3) by (auto simp: b32_emit.simps [of w n])
  next
    case True
    let ?g = "unat (drop_bit (n - 5) w AND 31)"
    have le: "n - 5 \<le> 64" using 1(2) by simp
    from 1(3) True have "b32_emit w (n - 5) (out @ [kB32 ! ?g]) = (n', out')" by (simp add: b32_emit.simps [of w n])
    with 1(1) [OF True le] obtain gs where gs: "n' < 5" "out' = (out @ [kB32 ! ?g]) @ map ((!) kB32) gs"
      "\<And>ys. b32_groups (low_bits (n - 5) w @ ys) = gs @ b32_groups (low_bits n' w @ ys)" by auto
    have "b32_groups (low_bits n w @ ys) = (?g # gs) @ b32_groups (low_bits n' w @ ys)" for ys
      using groups_take [of "low_bits 5 (drop_bit (n - 5) w)" "low_bits (n - 5) w @ ys"] gs(3) [of ys]
      by (simp add: low_bits_take [OF True 1(2)] digit5_low)
    then show ?thesis using gs(1,2) by (intro conjI exI [of _ "?g # gs"]) simp_all
  qed
qed

lemma b32_loop_groups:
  "n < 5 \<Longrightarrow> b32_loop data w n out = out @ map ((!) kB32) (b32_groups (low_bits n w @ concat (map byte_bits data)))"
proof (induction data w n out rule: b32_loop.induct)
  case (1 w n out)
  show ?case
  proof (cases "0 < n")
    case True
    have "take 5 (low_bits n w @ replicate 4 False) = low_bits 5 (push_bit (5 - n) w)"
      using 1 True by (simp add: low_bits_fill take_replicate min_def)
    moreover have "low_bits n w \<noteq> []" using True by (metis length_low_bits length_0_conv less_irrefl)
    ultimately have "b32_groups (low_bits n w) = [digit5 (low_bits 5 (push_bit (5 - n) w))]"
      using 1 by (subst b32_groups.simps) (simp del: length_low_bits add: length_low_bits [of n w])
    then show ?thesis using True by (simp add: digit5_low)
  qed (simp add: low_bits_def)
next
  case (2 d data w n out)
  let ?w = "push_bit 8 w OR ucast d :: u64"
  obtain n' out' where e: "b32_emit ?w (n + 8) out = (n', out')" by fastforce
  from b32_emit_groups [OF _ e] 2(2) obtain gs where gs: "n' < 5" "out' = out @ map ((!) kB32) gs"
    "\<And>ys. b32_groups (low_bits (n + 8) ?w @ ys) = gs @ b32_groups (low_bits n' ?w @ ys)" by auto
  have "low_bits n w @ concat (map byte_bits (d # data)) = (low_bits n w @ byte_bits d) @ concat (map byte_bits data)"
    by simp
  also have "low_bits n w @ byte_bits d = low_bits (n + 8) ?w"
    using 2(2) by (intro low_bits_push [symmetric]) simp
  finally have "b32_groups (low_bits n w @ concat (map byte_bits (d # data))) =
      gs @ b32_groups (low_bits n' ?w @ concat (map byte_bits data))"
    by (simp only: gs(3))
  moreover have "b32_loop (d # data) w n out = b32_loop data ?w n' out'" by (simp add: e)
  ultimately show ?case using 2(1) [OF refl e [symmetric] refl gs(1)] gs(2) by (simp only: map_append append_assoc)
qed

lemma b32_reference: "b32Unpadded data = map ((!) kB32) (b32_groups (concat (map byte_bits data)))"
  by (simp add: b32Unpadded_def b32_loop_groups low_bits_def)


lemma groups_length: "length (b32_groups xs) = (length xs + 4) div 5"
proof (induction xs rule: b32_groups.induct)
  case (1 xs)
  have "Suc ((length xs - 5 + 4) div 5) = (length xs + 4) div 5" if "xs \<noteq> []"
  proof (cases "5 \<le> length xs")
    case True
    then have "length xs + 4 = (length xs - 5 + 4) + 5" by simp
    then show ?thesis by (simp only: div_add_self2)
  next
    case False
    then have "length xs \<in> {1, 2, 3, 4}" using that by (cases "length xs") auto
    then show ?thesis by auto
  qed
  then show ?case using 1 by (cases "xs = []") (simp_all add: b32_groups.simps [of xs])
qed

lemma length_bits: "length (concat (map byte_bits data)) = 8 * length data"
  by (induction data) (simp_all add: byte_bits_def)

text \<open>
  C39: A key is printed without loss: the base64 text the engine writes and the unpadded base64 text
  the key generator prints are both read back as the same bytes by the engine's decoder, and the
  base32 text is, digit by digit, the bits of the key in groups of five (the length the code reserves).
\<close>

theorem key_encodings:
  "fromBase64 (toBase64 data) = data \<and> fromBase64 (b64Unpadded data) = data \<and>
   b32Unpadded data = map ((!) kB32) (b32_groups (concat (map byte_bits data))) \<and>
   length (b32Unpadded data) = (length data * 8 + 4) div 5"
  using base64_roundtrip [of data]
  by (simp add: fromBase64_unpadded b32_reference groups_length length_bits mult.commute)

section \<open>Passphrases\<close>

lemma passphrase_loop_length:
  "(\<And>r k. length (fst (random r k)) = k) \<Longrightarrow> length pw = min don n \<Longrightarrow>
    length (fst (passphrase_loop random n don pw r)) = n"
proof (induction random n don pw r rule: passphrase_loop.induct)
  case (1 random n don pw r)
  show ?case
  proof (cases "don < n")
    case True
    obtain buf r' where b: "random r 64 = (buf, r')" by fastforce
    then have "length buf = 64" using 1(2) [of r 64] by simp
    then have "length (pw @ map passphrase_char (take (n - don) buf)) = min (don + 64) n"
      using 1(3) True by (cases "don + 64 \<le> n") auto
    from 1(1) [OF True b [symmetric] refl 1(2) this] show ?thesis
      using True by (simp add: passphrase_loop.simps [of random n don] b)
  next
    case False
    then show ?thesis using 1(3) by (simp add: passphrase_loop.simps [of random n don])
  qed
qed

lemma passphrase_char_set: "passphrase_char b \<in> set passphrase_chars"
proof -
  have "0 < length passphrase_chars" by code_simp
  then show ?thesis by (simp add: passphrase_char_def)
qed

lemma passphrase_loop_set:
  "set pw \<subseteq> set passphrase_chars \<Longrightarrow> set (fst (passphrase_loop random n don pw r)) \<subseteq> set passphrase_chars"
proof (induction random n don pw r rule: passphrase_loop.induct)
  case (1 random n don pw r)
  obtain buf r' where b: "random r 64 = (buf, r')" by fastforce
  have "set (pw @ map passphrase_char (take (n - don) buf)) \<subseteq> set passphrase_chars"
    using 1(2) passphrase_char_set by auto
  with 1 show ?case by (simp add: passphrase_loop.simps [of random n don] b)
qed

lemma keygen_main_skip: "list_all (\<lambda>a. a \<noteq> ''--client'' \<and> a \<noteq> ''--passphrase'') pre \<Longrightarrow>
    keygen_main ke r (pre @ args) = keygen_main ke r args"
  by (induction pre) auto

text \<open>
  A passphrase is as long as it was asked for, but never shorter than eight characters, and is
  drawn from the alphabet without the look-alikes: wherever the option stands behind arguments the
  program does not know, when a number is given in the option's argument (or none, for thirty-two), the run
  ends with exactly that many characters and a line feed on the standard output.
\<close>

theorem keygen_passphrase:
  assumes "ke_have ke" "ke_init ke" and "\<And>r k. length (fst (ke_random ke r k)) = k"
    and "list_all (\<lambda>a. a \<noteq> ''--client'' \<and> a \<noteq> ''--passphrase'') pre" and "n < 2 ^ 31"
  shows "\<exists>pw. keygen_main ke r (pre @ [''--passphrase'', nat_to_string n]) = Some \<lparr>oc_out = pw @ newline, oc_err = [], oc_code = 0\<rparr> \<and>
    length pw = max 8 n \<and> set pw \<subseteq> set passphrase_chars - set ''0O1Il''"
proof -
  have d: "list_all is_digit (nat_to_string n)" "nat_to_string n \<noteq> []"
    using nat_to_string_digits [of n] by (simp_all add: list_all_iff)
  obtain c s where cs: "nat_to_string n = c # s" using d(2) by (cases "nat_to_string n") auto
  have c: "\<not> is_space c" "c \<noteq> CHR ''-''" "c \<noteq> CHR ''+''" using d(1) by (auto simp: cs is_digit_def is_space_def)
  have "takeWhile is_digit (nat_to_string n) = nat_to_string n"
    using nat_to_string_digits by (simp add: takeWhile_eq_all_conv)
  then have "digits_val (takeWhile is_digit (c # s)) = n" by (metis cs digits_val_nat_to_string)
  moreover have "int n < 2 ^ 31" using assms(5) by (metis of_nat_less_iff of_nat_numeral of_nat_power)
  ultimately have "atoi (nat_to_string n) = Some (int n)"
    using c by (simp add: atoi_def cs del: takeWhile.simps)
  moreover have "unat (word_of_int (int n) :: u64) = n" using assms(5) by (simp add: unat_of_nat_u64)
  ultimately have "passphrase_size [nat_to_string n] = Some n"
    using c(2) by (simp add: passphrase_size_def cs)
  moreover have "\<not> max_string < (if n < 8 then 8 else n)" using assms(5) by (simp add: max_string_def)
  moreover have "max 8 n = (if n < 8 then 8 else n)" by simp
  ultimately have m: "keygen_main ke r (pre @ [''--passphrase'', nat_to_string n]) = Some (genPassphrase ke r (max 8 n))"
    by (simp only: keygen_main_skip [OF assms(4)] keygen_main.simps) simp
  let ?pw = "fst (passphrase_loop (ke_random ke) (max 8 n) 0 [] r)"
  have "set passphrase_chars \<subseteq> set passphrase_chars - set ''0O1Il''" by code_simp
  then have "set ?pw \<subseteq> set passphrase_chars - set ''0O1Il''"
    using passphrase_loop_set [of "[]" "ke_random ke" "max 8 n" 0 r] by simp
  moreover have "length ?pw = max 8 n" using passphrase_loop_length [of "ke_random ke" "[]" 0] assms(3) by simp
  ultimately show ?thesis using assms(1,2) m by (auto simp: genPassphrase_def)
qed

definition toy_keys :: "nat key_env" where
  "toy_keys = \<lparr>ke_have = True, ke_init = True, ke_random = (\<lambda>r k. (replicate k (of_nat r), Suc r)), ke_public = (\<lambda>p. p)\<rparr>"

lemma keygen_passphrase_witness:
  "\<exists>pw. keygen_main toy_keys 7 [''-v'', ''--passphrase'', nat_to_string 5] = Some \<lparr>oc_out = pw @ newline, oc_err = [], oc_code = 0\<rparr> \<and>
     length pw = 8"
proof -
  have "ke_have toy_keys" "ke_init toy_keys" "length (fst (ke_random toy_keys r k)) = k" for r k by (simp_all add: toy_keys_def)
  from keygen_passphrase [OF this, of "[''-v'']" 5 7] show ?thesis by auto
qed

end
