(* ===== verification/Terminal.thy ===== *)
theory Terminal
  imports Gateway Keygen
begin

text \<open>
  The interactive terminal of \<open>src/main.cpp\<close>: what it prints, its commands and its loop over the lines
  of the standard input. The clock, the printing of doubles, the sockets and what the crawler threads do
  while the user types are parameters; the banner and the spinner are not modelled. The theory proves
  which handler a typed line reaches.
\<close>

section \<open>Colours and small helpers\<close>

definition colour :: "string \<Rightarrow> string" where
  "colour c = CHR 0x1B # CHR ''['' # c @ ''m''"

definition cRESET :: string where "cRESET = colour ''0''"
definition cBOLD :: string where "cBOLD = colour ''1''"
definition cDIM :: string where "cDIM = colour ''2''"
definition cCYAN :: string where "cCYAN = colour ''36''"
definition cGREEN :: string where "cGREEN = colour ''32''"
definition cYELLOW :: string where "cYELLOW = colour ''33''"
definition cRED :: string where "cRED = colour ''31''"
definition cMAGENTA :: string where "cMAGENTA = colour ''35''"

text \<open>\<open>std::getline\<close> on the lines that are left; at the end of the input the string stays empty.\<close>

definition read_line :: "string list \<Rightarrow> string \<times> string list" where
  "read_line ins = (case ins of [] \<Rightarrow> ([], []) | l # ins \<Rightarrow> (l, ins))"

text \<open>Reading a password prints the prompt and, as nothing is echoed, a line feed.\<close>

definition readPassword :: "string \<Rightarrow> string list \<Rightarrow> string \<times> string \<times> string list" where
  "readPassword prompt ins = (let (password, ins) = read_line ins in (prompt @ newline, password, ins))"

definition sourceBadge :: "source_type \<Rightarrow> string" where
  "sourceBadge src =
     (if src = Onion then
      cMAGENTA @
      lit ''[DARKWEB]'' @
      cRESET
      else
      cGREEN @
      lit ''[CLEARWEB]'' @
      cRESET)"

definition printTorStatus :: "probe_result \<Rightarrow> string" where
  "printTorStatus tor =
      lit ''  '' @
      utf8_bytes [226, 148, 128, 226, 148, 128] @
      lit '' Tor SOCKS5 routing (127.0.0.1:9050) '' @
      utf8_bytes [226, 148, 128, 226, 148, 128] @
      lit ''~'' @
     (case pr_status tor of
        TorUp \<Rightarrow>
      lit ''  ['' @
      cGREEN @
      lit ''UP '' @
      cRESET @
      lit ''] '' @
      pr_detail tor @
      lit '' ('' @
      int_to_string (pr_elapsed tor) @
      lit '' ms)~  ['' @
      cGREEN @
      lit ''OK '' @
      cRESET @
      lit ''] .onion crawling routed via SOCKS5h proxy~''
      | TorDown \<Rightarrow>
      lit ''  ['' @
      cRED @
      lit ''DOWN'' @
      cRESET @
      lit ''] '' @
      pr_detail tor @
      lit '' ('' @
      int_to_string (pr_elapsed tor) @
      lit '' ms)~  ['' @
      cYELLOW @
      lit ''WARN'' @
      cRESET @
      lit ''] Darkweb routing disabled. Clearweb searches still work.~''
      | TorUnknown \<Rightarrow>
      lit ''  ['' @
      cYELLOW @
      lit ''????'' @
      cRESET @
      lit ''] '' @
      pr_detail tor @
      lit ''~'')"

definition printStats :: "('d \<Rightarrow> string) \<Rightarrow> ('d::field_char_0, 'w) engine \<Rightarrow> string" where
  "printStats fixed1 e =
      lit ''  '' @
      utf8_bytes [226, 148, 128, 226, 148, 128] @
      lit '' Engine core '' @
      utf8_bytes [226, 148, 128, 226, 148, 128] @
      lit ''~  ['' @
      cGREEN @
      lit ''OK '' @
      cRESET @
      lit ''] Fetcher: '' @
      fetcher_name (en_fetcher e) @
      lit ''~  ['' @
      cGREEN @
      lit ''OK '' @
      cRESET @
      lit ''] Indexed documents: '' @
      nat_to_string (documentCount (en_index e)) @
      lit ''~  ['' @
      cGREEN @
      lit ''OK '' @
      cRESET @
      lit ''] Distinct terms: '' @
      nat_to_string (termCount (en_index e)) @
      lit ''~  ['' @
      cGREEN @
      lit ''OK '' @
      cRESET @
      lit ''] Average doc length: '' @
      fixed1 (averageDocLength (en_index e)) @
      lit ''~  ['' @
      cCYAN @
      utf8_bytes [194, 183, 194, 183, 194, 183] @
      cRESET @
      lit ''] Crawler: '' @
      nat_to_string (crawledPages e) @
      lit '' crawled, '' @
      nat_to_string (pendingCrawls e) @
      lit '' pending (workers '' @
      (if crawlerBusy e then ''1'' else ''0'') @
      lit '')~''"

definition printHelpMenu :: string where
  "printHelpMenu =
      cBOLD @
      lit ''~AVAILABLE COMMANDS:~'' @
      cRESET @
      lit ''  search <query>         - Run a BM25 inverted index query (clearweb and .onion)~  crawl <url>  '' @
      lit ''          - Dispatch the asynchronous sandbox crawler to ingest a target~  save   <path>        '' @
      lit ''    - Encrypt the index to a snapshot (XChaCha20-Poly1305 + Argon2id)~  load   <path>           '' @
      lit '' - Load an encrypted snapshot into the index~  save-state <path>        - Persist the index to d'' @
      lit ''isk (fast, plain binary)~  load-state <path>        - Reload a persisted index from disk~  admin'' @
      lit ''                  - Open the local admin-only dashboard (Tor/onion/index/crawler)~  status      '' @
      lit ''           - Show Tor probe, index statistics and crawler queue~  help                   - Displ'' @
      lit ''ay this command instruction menu~  exit / quit            - Drain the crawler and safely termina'' @
      lit ''te~~''"

section \<open>Searching and crawling\<close>

definition printResult :: "('d \<Rightarrow> string) \<Rightarrow> nat \<Rightarrow> 'd scored_document \<Rightarrow> string" where
  "printResult fixed2 i r =
     (let doc = sc_doc r in
      lit '' '' @
      cBOLD @
      nat_to_string (i + 1) @
      lit ''. '' @
      doc_title doc @
      lit '' '' @
      sourceBadge (doc_source doc) @
      lit ''~    '' @
      cCYAN @
      doc_url doc @
      cRESET @
      lit ''~'' @
      (if doc_snippet doc \<noteq> [] then
      lit ''    '' @
      cDIM @
      doc_snippet doc @
      cRESET @
      lit ''~''
       else []) @
      lit ''    '' @
      cYELLOW @
      lit ''Score: '' @
      fixed2 (sc_score r) @
      cRESET @
      lit ''~~'')"

text \<open>The search and what it prints: the time it took is a parameter.\<close>

definition handleSearch :: "('d \<Rightarrow> string) \<Rightarrow> 'd \<Rightarrow> ('d \<Rightarrow> 'd) \<Rightarrow> ('d::linordered_field, 'w) engine \<Rightarrow> string \<Rightarrow> string" where
  "handleSearch fixed2 ms lg e query =
     (let results = search lg (en_index e) query 10 in
      cDIM @
      lit ''Executing high-speed index lookup for: `'' @
      query @
      lit ''`...'' @
      cRESET @
      lit ''~'' @
      lit ''~Found '' @
      nat_to_string (length results) @
      lit '' matches in '' @
      fixed2 ms @
      lit '' ms:~--------------------------------------------------------------------------------~'' @
      concat (map (\<lambda>(i, r). printResult fixed2 i r) (enumerate 0 results)) @
      lit ''--------------------------------------------------------------------------------~'')"

definition handleCrawlCommand :: "('d, 'w) platform \<Rightarrow> string \<Rightarrow> ('d, 'w) engine \<Rightarrow> string \<times> ('d, 'w) engine" where
  "handleCrawlCommand pf target e =
     (let url = normalizeUrl target
      in if url = [] then
           (
      cRED @
      lit ''[!] '' @
      cRESET @
      lit ''Please provide a non-empty target URL.~~'', e)
         else
           let (ok, e) = crawl pf url e
           in (
      cYELLOW @
      lit ''[*] Dispatched isolated sandbox process for target: '' @
      url @
      cRESET @
      lit ''~'' @
      (if ok then
      cGREEN @
      lit ''['' @
      utf8_bytes [226, 156, 148] @
      lit ''] Target added to asynchronous multi-threaded crawler queue safely.'' @
      cRESET @
      lit ''~''
       else
      cRED @
      lit ''[!] Target rejected (duplicate, page cap reached, or crawler stopped).'' @
      cRESET @
      lit ''~'') @
      lit ''    Queue: '' @
      nat_to_string (pendingCrawls e) @
      lit '' pending, '' @
      nat_to_string (crawledPages e) @
      lit '' crawled~~'', e))"

section \<open>Callbacks\<close>

text \<open>What is recorded and printed when a worker indexes a page or fails.\<close>

definition on_indexed :: "int \<Rightarrow> document \<Rightarrow> activity_log \<Rightarrow> activity_log \<times> string" where
  "on_indexed now doc lg =
     (log_add \<lparr>ae_time = now, ae_kind = ''indexed'', ae_url = doc_url doc, ae_text = doc_title doc\<rparr> lg,
      lit ''^  '' @
      cGREEN @
      lit ''[+] Indexed'' @
      cRESET @
      lit '' `'' @
      doc_title doc @
      lit ''` '' @
      sourceBadge (doc_source doc) @
      lit '' '' @
      cDIM @
      doc_url doc @
      cRESET @
      lit ''~'')"

definition on_failed :: "int \<Rightarrow> string \<Rightarrow> string \<Rightarrow> activity_log \<Rightarrow> activity_log \<times> string" where
  "on_failed now url err lg =
     (log_add \<lparr>ae_time = now, ae_kind = ''error'', ae_url = url, ae_text = err\<rparr> lg,
      lit ''^  '' @
      cRED @
      lit ''[!] Failed'' @
      cRESET @
      lit '' '' @
      url @
      lit '' ('' @
      err @
      lit '')~'')"

section \<open>Commands\<close>

record ('d, 'w, 'r) terminal =
  tl_engine :: "('d, 'w) engine"
  tl_disk :: disk
  tl_random :: 'r
  tl_dashboards :: "server list"

text \<open>
  What the terminal runs in: the platform, libsodium, printing, the answers of the listener's socket
  calls, the time a search takes, what the workers do between two commands and after a stop.
\<close>

record ('d, 'w, 'r) console =
  cn_platform :: "('d, 'w) platform"
  cn_sodium :: "'r sodium"
  cn_fixed1 :: "'d \<Rightarrow> string"
  cn_fixed2 :: "'d \<Rightarrow> string"
  cn_elapsed :: 'd
  cn_listen :: listen_answers
  cn_strerror :: "int \<Rightarrow> string"
  cn_meanwhile :: "('d, 'w) engine \<Rightarrow> ('d, 'w) engine"
  cn_drain :: "('d, 'w) engine \<Rightarrow> ('d, 'w) engine"

definition handleSave :: "('d, 'w, 'r) console \<Rightarrow> string \<Rightarrow> string list \<Rightarrow> ('d, 'w, 'r) terminal \<Rightarrow>
    string \<times> string list \<times> ('d, 'w, 'r) terminal" where
  "handleSave cn path ins tm =
     (let (echo, pw, ins) = readPassword ''  Encryption password: '' ins; e = tl_engine tm
      in if pw = [] then
           (echo @
      cRED @
      lit ''[!] Empty password rejected.~'' @
      cRESET, ins, tm)
         else
           let (res, r, dk) = saveEncrypted (cn_sodium cn) path pw e (tl_random tm) (tl_disk tm);
               tm = tm\<lparr>tl_random := r, tl_disk := dk\<rparr>
           in (echo @
               (case res of
                  Inr _ \<Rightarrow>
      cGREEN @
      lit ''['' @
      utf8_bytes [226, 156, 148] @
      lit ''] Encrypted snapshot saved to '' @
      path @
      cRESET @
      lit ''~    ('' @
      nat_to_string (documentCount (en_index e)) @
      lit '' documents; XChaCha20-Poly1305 + Argon2id)~~''
                | Inl err \<Rightarrow>
      cRED @
      lit ''[!] Save failed: '' @
      err @
      cRESET @
      lit ''~~''), ins, tm))"

definition handleLoad :: "('d, 'w, 'r) console \<Rightarrow> string \<Rightarrow> string list \<Rightarrow> ('d, 'w, 'r) terminal \<Rightarrow>
    string \<times> string list \<times> ('d, 'w, 'r) terminal" where
  "handleLoad cn path ins tm =
     (let (echo, pw, ins) = readPassword ''  Encryption password: '' ins;
          (res, e) = loadEncrypted (cn_sodium cn) path pw (tl_disk tm) (tl_engine tm)
      in (echo @
          (case res of
             Inr _ \<Rightarrow>
      cGREEN @
      lit ''['' @
      utf8_bytes [226, 156, 148] @
      lit ''] Loaded '' @
      nat_to_string (documentCount (en_index e)) @
      lit '' documents from '' @
      path @
      cRESET @
      lit ''~~''
           | Inl err \<Rightarrow>
      cRED @
      lit ''[!] Load failed: '' @
      err @
      cRESET @
      lit ''~~''), ins, tm\<lparr>tl_engine := e\<rparr>))"

definition saveStateCommand :: "string \<Rightarrow> ('d, 'w, 'r) terminal \<Rightarrow> string \<times> ('d, 'w, 'r) terminal" where
  "saveStateCommand path tm =
     (let (res, dk) = saveState path (tl_engine tm) (tl_disk tm); e = tl_engine tm
      in (case res of
            Inr _ \<Rightarrow>
      cGREEN @
      lit ''['' @
      utf8_bytes [226, 156, 148] @
      lit ''] State persisted to '' @
      path @
      lit '' ('' @
      nat_to_string (documentCount (en_index e)) @
      lit '' documents)'' @
      cRESET @
      lit ''~''
          | Inl err \<Rightarrow>
      cRED @
      lit ''[!] Save failed: '' @
      err @
      cRESET @
      lit ''~'', tm\<lparr>tl_disk := dk\<rparr>))"

definition loadStateCommand :: "string \<Rightarrow> ('d, 'w, 'r) terminal \<Rightarrow> string \<times> ('d, 'w, 'r) terminal" where
  "loadStateCommand path tm =
     (let (res, e) = loadState path (tl_disk tm) (tl_engine tm)
      in (case res of
            Inr _ \<Rightarrow>
      cGREEN @
      lit ''['' @
      utf8_bytes [226, 156, 148] @
      lit ''] State loaded from '' @
      path @
      lit '' ('' @
      nat_to_string (documentCount (en_index e)) @
      lit '' documents)'' @
      cRESET @
      lit ''~''
          | Inl err \<Rightarrow>
      cRED @
      lit ''[!] Load failed: '' @
      err @
      cRESET @
      lit ''~'', tm\<lparr>tl_engine := e\<rparr>))"

text \<open>
  The dashboard is held by a pointer local to the branch: its destructor stops the server when the
  branch is left.
\<close>

definition adminCommand :: "('d, 'w, 'r) console \<Rightarrow> ('d, 'w, 'r) terminal \<Rightarrow> string \<times> ('d, 'w, 'r) terminal" where
  "adminCommand cn tm =
     (let aopts = default_admin_options\<lparr>ao_port := 8081, ao_onionHostnameFile := ''onion/tor_data/hidden/hostname''\<rparr>;
          (token, r) = admin_token (cn_sodium cn) aopts (tl_random tm);
          (res, sv) = admin_start (cn_strerror cn) (cn_listen cn) new_server;
          txt = (case res of
              Inl err \<Rightarrow>
      cRED @
      lit ''[!] Admin dashboard failed: '' @
      err @
      cRESET @
      lit ''~''
            | Inr _ \<Rightarrow>
      cGREEN @
      lit ''['' @
      utf8_bytes [226, 156, 148] @
      lit ''] Admin dashboard: '' @
      cRESET @
      lit ''http://127.0.0.1:'' @
      nat_to_string (unat (sv_port sv)) @
      lit ''/?t='' @
      token @
      lit ''~'' @
      cDIM @
      lit ''    Loopback + token required. Type 'quit' later to stop.~'' @
      cRESET)
      in (txt, tm\<lparr>tl_random := r, tl_dashboards := tl_dashboards tm @ [admin_stop sv]\<rparr>))"

definition map_crawler :: "(crawler \<Rightarrow> crawler) \<Rightarrow> ('d, 'w) engine \<Rightarrow> ('d, 'w) engine" where
  "map_crawler f e = e\<lparr>en_world := (en_world e)\<lparr>w_crawler := f (w_crawler (en_world e))\<rparr>\<rparr>"

text \<open>\<open>Engine::shutdown\<close>: the workers are told to stop, drain the queue and are joined.\<close>

definition engine_shutdown :: "(('d, 'w) engine \<Rightarrow> ('d, 'w) engine) \<Rightarrow> ('d, 'w) engine \<Rightarrow> ('d, 'w) engine" where
  "engine_shutdown drain e = map_crawler join_workers (drain (map_crawler request_stop e))"

definition quitCommand :: "('d, 'w, 'r) console \<Rightarrow> ('d, 'w, 'r) terminal \<Rightarrow> string \<times> ('d, 'w, 'r) terminal" where
  "quitCommand cn tm =
     (let e = tl_engine tm
      in ((if 0 < pendingCrawls e then
      cDIM @
      lit ''Waiting for '' @
      nat_to_string (pendingCrawls e) @
      lit '' pending crawl(s) to drain...~'' @
      cRESET
           else []) @
      cDIM @
      lit ''Shutting down Shadow SE safely. Wiping sensitive handle buffers...'' @
      cRESET @
      lit ''~'',
          tm\<lparr>tl_engine := engine_shutdown (cn_drain cn) e\<rparr>))"

definition statusCommand :: "('d::field_char_0, 'w, 'r) console \<Rightarrow> ('d, 'w, 'r) terminal \<Rightarrow> string \<times> ('d, 'w, 'r) terminal" where
  "statusCommand cn tm =
     (let (tor, e) = engine_probeTor (cn_platform cn) (tl_engine tm)
      in (printTorStatus tor @ printStats (cn_fixed1 cn) e, tm\<lparr>tl_engine := e\<rparr>))"

definition searchCommand :: "('d::linordered_field, 'w, 'r) console \<Rightarrow> string \<Rightarrow> ('d, 'w, 'r) terminal \<Rightarrow> string" where
  "searchCommand cn query tm =
     handleSearch (cn_fixed2 cn) (cn_elapsed cn) (pf_ln (cn_platform cn)) (tl_engine tm) query"

text \<open>
  One round of the loop: what a line prints, the input left, the state, and whether the loop goes on.
\<close>

definition repl_command :: "('d::linordered_field, 'w, 'r) console \<Rightarrow> string \<Rightarrow> string list \<Rightarrow> ('d, 'w, 'r) terminal \<Rightarrow>
    string \<times> string list \<times> ('d, 'w, 'r) terminal \<times> bool" where
  "repl_command cn line ins tm =
     (let input = trim line
      in if input = ''exit'' \<or> input = ''quit'' then
           let (out, tm) = quitCommand cn tm in (out, ins, tm, False)
         else if input = ''help'' then (printHelpMenu, ins, tm, True)
         else if input = ''status'' then
           let (out, tm) = statusCommand cn tm in (out, ins, tm, True)
         else if input = ''admin'' then
           let (out, tm) = adminCommand cn tm in (out, ins, tm, True)
         else if prefix ''search '' input then
           let query = trim (drop 7 input)
           in if query = [] then (''Usage: search <query>'' @ newline, ins, tm, True)
              else (searchCommand cn query tm, ins, tm, True)
         else if prefix ''crawl '' input then
           let (out, e) = handleCrawlCommand (cn_platform cn) (trim (drop 6 input)) (tl_engine tm)
           in (out, ins, tm\<lparr>tl_engine := e\<rparr>, True)
         else if prefix ''save '' input then
           let path = trim (drop 5 input)
           in if path = [] then (''Usage: save <path>'' @ newline, ins, tm, True)
              else let (out, ins, tm) = handleSave cn path ins tm in (out, ins, tm, True)
         else if prefix ''load '' input then
           let path = trim (drop 5 input)
           in if path = [] then (''Usage: load <path>'' @ newline, ins, tm, True)
              else let (out, ins, tm) = handleLoad cn path ins tm in (out, ins, tm, True)
         else if prefix ''save-state '' input then
           let path = trim (drop 11 input)
           in if path = [] then (''Usage: save-state <path>'' @ newline, ins, tm, True)
              else let (out, tm) = saveStateCommand path tm in (out, ins, tm, True)
         else if prefix ''load-state '' input then
           let path = trim (drop 11 input)
           in if path = [] then (''Usage: load-state <path>'' @ newline, ins, tm, True)
              else let (out, tm) = loadStateCommand path tm in (out, ins, tm, True)
         else if input \<noteq> [] then (searchCommand cn input tm, ins, tm, True)
         else ([], ins, tm, True))"

definition repl_prompt :: string where
  "repl_prompt = cCYAN @ ''shadow-se@core'' @ cRESET @ '':'' @ cBOLD @ [CHR 0x7E, CHR ''$''] @ cRESET @ '' ''"

text \<open>A save or a load reads the password from the input: a command never gives lines back.\<close>

lemma read_line_shorter: "read_line ins = (l, ins') \<Longrightarrow> length ins' \<le> length ins"
  by (auto simp: read_line_def split: list.splits)

lemma handleSave_shorter: "handleSave cn path ins tm = (out, ins', tm') \<Longrightarrow> length ins' \<le> length ins"
  by (auto simp: handleSave_def readPassword_def Let_def dest: read_line_shorter split: prod.splits if_splits)

lemma handleLoad_shorter: "handleLoad cn path ins tm = (out, ins', tm') \<Longrightarrow> length ins' \<le> length ins"
  by (auto simp: handleLoad_def readPassword_def Let_def dest: read_line_shorter split: prod.splits)

lemma repl_command_shorter: "repl_command cn line ins tm = (out, ins', tm', go) \<Longrightarrow> length ins' \<le> length ins"
  unfolding repl_command_def Let_def
  by (auto dest: handleSave_shorter handleLoad_shorter split: prod.splits if_splits)

function repl :: "('d::linordered_field, 'w, 'r) console \<Rightarrow> string list \<Rightarrow> ('d, 'w, 'r) terminal \<Rightarrow> string \<times> ('d, 'w, 'r) terminal" where
  "repl cn ins tm =
     (case ins of
        [] \<Rightarrow> (repl_prompt, tm)
      | line # ins \<Rightarrow>
          let tm = tm\<lparr>tl_engine := cn_meanwhile cn (tl_engine tm)\<rparr>;
              (out, ins, tm, go) = repl_command cn line ins tm
          in if go then let (rest, tm) = repl cn ins tm in (repl_prompt @ out @ rest, tm)
             else (repl_prompt @ out, tm))"
  by auto
termination
  by (relation "measure (\<lambda>(_, ins, _). length ins)") (auto dest!: repl_command_shorter [OF sym] simp: le_imp_less_Suc)

declare repl.simps [simp del]

section \<open>What a typed line does\<close>

lemma trim_blank: "list_all is_space pre \<Longrightarrow> trim (pre @ s) = trim s"
  by (induction pre) (auto simp: trim_def)

lemma trim_append_blank:
  assumes "list_all is_space ws"
  shows "trim (s @ ws) = trim s"
proof (cases "list_all is_space s")
  case True
  then have "dropWhile is_space s = []" "dropWhile is_space (s @ ws) = []"
    using assms by (simp_all only: dropWhile_eq_Nil_conv list_all_iff set_append ball_Un)
  then show ?thesis by (simp only: trim_def)
next
  case False
  then obtain x where "x \<in> set s" "\<not> is_space x" by (auto simp: list_all_iff)
  then have "dropWhile is_space (s @ ws) = dropWhile is_space s @ ws" by (rule dropWhile_append1)
  moreover have "dropWhile is_space (rev ws @ r) = dropWhile is_space r" for r
    using assms by (intro dropWhile_append2) (simp add: list_all_iff)
  ultimately show ?thesis by (simp only: trim_def rev_append)
qed

lemma trim_keyword:
  assumes "list_all is_space pre" "\<not> is_space c" "trim arg \<noteq> []"
  shows "\<exists>t. trim (pre @ (c # kw) @ arg) = (c # kw) @ t \<and> trim t = trim arg"
proof -
  define t where "t = rev (dropWhile is_space (rev arg))"
  define ws where "ws = rev (takeWhile is_space (rev arg))"
  have arg: "arg = t @ ws" unfolding t_def ws_def by (metis rev_append rev_rev_ident takeWhile_dropWhile_id)
  have ws: "list_all is_space ws" by (auto simp: ws_def list_all_iff dest: set_takeWhileD)
  have t: "trim t = trim arg" by (simp only: arg trim_append_blank [OF ws])
  moreover have "trim [] = []" by (simp add: trim_def)
  ultimately have ne: "t \<noteq> []" using assms(3) by metis
  then have "\<not> is_space (last t)"
    unfolding t_def by (metis hd_dropWhile last_rev rev_is_Nil_conv rev_rev_ident dropWhile_eq_Nil_conv)
  then have "trim ((c # kw) @ t) = (c # kw) @ t" using ne assms(2) by (intro trim_eq_selfI) simp
  then have "trim (pre @ (c # kw) @ arg) = (c # kw) @ t"
    using trim_blank [OF assms(1), of "(c # kw) @ arg"] trim_append_blank [OF ws, of "(c # kw) @ t"] by (simp add: arg)
  with t show ?thesis by blast
qed

lemma trim_bare:
  assumes "list_all is_space pre" "list_all is_space post" "kw \<noteq> []" "\<not> is_space (hd kw)" "\<not> is_space (last kw)"
  shows "trim (pre @ kw @ post) = kw"
  using trim_blank [OF assms(1), of "kw @ post"] trim_append_blank [OF assms(2), of kw] trim_eq_selfI [of kw] assms(4,5)
  by simp

text \<open>The words that ask for an argument.\<close>

definition argument_words :: "string list" where
  "argument_words = [''search'', ''crawl'', ''save'', ''load'', ''save-state'', ''load-state'']"

lemma repl_argument:
  assumes "list_all is_space pre" and "trim arg \<noteq> []"
  shows "repl_command cn (pre @ ''search '' @ arg) ins tm = (searchCommand cn (trim arg) tm, ins, tm, True)"
    and "repl_command cn (pre @ ''crawl '' @ arg) ins tm =
      (let (out, e) = handleCrawlCommand (cn_platform cn) (trim arg) (tl_engine tm) in (out, ins, tm\<lparr>tl_engine := e\<rparr>, True))"
    and "repl_command cn (pre @ ''save '' @ arg) ins tm = (let (out, ins, tm) = handleSave cn (trim arg) ins tm in (out, ins, tm, True))"
    and "repl_command cn (pre @ ''load '' @ arg) ins tm = (let (out, ins, tm) = handleLoad cn (trim arg) ins tm in (out, ins, tm, True))"
    and "repl_command cn (pre @ ''save-state '' @ arg) ins tm = (let (out, tm) = saveStateCommand (trim arg) tm in (out, ins, tm, True))"
    and "repl_command cn (pre @ ''load-state '' @ arg) ins tm = (let (out, tm) = loadStateCommand (trim arg) tm in (out, ins, tm, True))"
proof -
  have c: "\<not> is_space (CHR ''s'')" "\<not> is_space (CHR ''c'')" "\<not> is_space (CHR ''l'')" by (simp_all add: is_space_def)
  note word = trim_keyword [OF assms(1) _ assms(2)]
  obtain t where "trim (pre @ ''search '' @ arg) = ''search '' @ t" "trim t = trim arg" using word [OF c(1)] by blast
  then show "repl_command cn (pre @ ''search '' @ arg) ins tm = (searchCommand cn (trim arg) tm, ins, tm, True)"
    using assms(2) by (simp add: repl_command_def)
  obtain t where "trim (pre @ ''crawl '' @ arg) = ''crawl '' @ t" "trim t = trim arg" using word [OF c(2)] by blast
  then show "repl_command cn (pre @ ''crawl '' @ arg) ins tm =
      (let (out, e) = handleCrawlCommand (cn_platform cn) (trim arg) (tl_engine tm) in (out, ins, tm\<lparr>tl_engine := e\<rparr>, True))"
    by (simp add: repl_command_def)
  obtain t where "trim (pre @ ''save '' @ arg) = ''save '' @ t" "trim t = trim arg" using word [OF c(1)] by blast
  then show "repl_command cn (pre @ ''save '' @ arg) ins tm = (let (out, ins, tm) = handleSave cn (trim arg) ins tm in (out, ins, tm, True))"
    using assms(2) by (simp add: repl_command_def)
  obtain t where "trim (pre @ ''load '' @ arg) = ''load '' @ t" "trim t = trim arg" using word [OF c(3)] by blast
  then show "repl_command cn (pre @ ''load '' @ arg) ins tm = (let (out, ins, tm) = handleLoad cn (trim arg) ins tm in (out, ins, tm, True))"
    using assms(2) by (simp add: repl_command_def)
  obtain t where "trim (pre @ ''save-state '' @ arg) = ''save-state '' @ t" "trim t = trim arg" using word [OF c(1)] by blast
  then show "repl_command cn (pre @ ''save-state '' @ arg) ins tm = (let (out, tm) = saveStateCommand (trim arg) tm in (out, ins, tm, True))"
    using assms(2) by (simp add: repl_command_def)
  obtain t where "trim (pre @ ''load-state '' @ arg) = ''load-state '' @ t" "trim t = trim arg" using word [OF c(3)] by blast
  then show "repl_command cn (pre @ ''load-state '' @ arg) ins tm = (let (out, tm) = loadStateCommand (trim arg) tm in (out, ins, tm, True))"
    using assms(2) by (simp add: repl_command_def)
qed

lemma repl_bare:
  assumes "list_all is_space pre" "list_all is_space post" "kw \<in> set argument_words"
  shows "repl_command cn (pre @ kw @ post) ins tm = (searchCommand cn kw tm, ins, tm, True)"
proof -
  have "list_all (\<lambda>kw. kw \<noteq> [] \<and> \<not> is_space (hd kw) \<and> \<not> is_space (last kw)) argument_words" by code_simp
  then have kw: "kw \<noteq> []" "\<not> is_space (hd kw)" "\<not> is_space (last kw)" using assms(3) by (auto simp: list_all_iff)
  have "trim (pre @ kw @ post) = kw" by (rule trim_bare [OF assms(1,2) kw])
  moreover have "kw = ''search'' \<or> kw = ''crawl'' \<or> kw = ''save'' \<or> kw = ''load'' \<or> kw = ''save-state'' \<or> kw = ''load-state''"
    using assms(3) by (simp add: argument_words_def)
  ultimately show ?thesis
    unfolding repl_command_def Let_def by (elim disjE) simp_all
qed

text \<open>
  C40: A line reaches the command it names: whatever white space stands around, a keyword followed by
  an argument runs that command on the argument without the white space around it, and a keyword
  alone is looked up as a query like any other word (the usage messages of the code are never printed).
\<close>

theorem repl_dispatch:
  assumes "list_all is_space pre" "list_all is_space post" and "trim arg \<noteq> []"
  shows "repl_command cn (pre @ ''search '' @ arg) ins tm = (searchCommand cn (trim arg) tm, ins, tm, True) \<and>
    repl_command cn (pre @ ''crawl '' @ arg) ins tm =
      (let (out, e) = handleCrawlCommand (cn_platform cn) (trim arg) (tl_engine tm) in (out, ins, tm\<lparr>tl_engine := e\<rparr>, True)) \<and>
    repl_command cn (pre @ ''save '' @ arg) ins tm = (let (out, ins, tm) = handleSave cn (trim arg) ins tm in (out, ins, tm, True)) \<and>
    repl_command cn (pre @ ''load '' @ arg) ins tm = (let (out, ins, tm) = handleLoad cn (trim arg) ins tm in (out, ins, tm, True)) \<and>
    repl_command cn (pre @ ''save-state '' @ arg) ins tm = (let (out, tm) = saveStateCommand (trim arg) tm in (out, ins, tm, True)) \<and>
    repl_command cn (pre @ ''load-state '' @ arg) ins tm = (let (out, tm) = loadStateCommand (trim arg) tm in (out, ins, tm, True)) \<and>
    (\<forall>kw \<in> set argument_words. repl_command cn (pre @ kw @ post) ins tm = (searchCommand cn kw tm, ins, tm, True))"
  by (intro conjI ballI repl_argument [OF assms(1,3)] repl_bare [OF assms(1,2)])

text \<open>The dashboard the terminal announces is stopped before the next prompt.\<close>

lemma admin_command_stopped:
  "\<exists>sv. tl_dashboards (snd (adminCommand cn tm)) = tl_dashboards tm @ [sv] \<and> \<not> sv_running sv \<and> sv_listen sv = None"
  by (simp add: adminCommand_def admin_stop_def stop_server_def Let_def case_prod_beta)

definition sample_console :: "(rat, nat, unit) console" where
  "sample_console = \<lparr>cn_platform = sample_platform, cn_sodium = toy_sodium, cn_fixed1 = (\<lambda>_. []), cn_fixed2 = (\<lambda>_. []),
     cn_elapsed = 0, cn_listen = \<lparr>la_socket = 3, la_bind = 0, la_listen = 0, la_port = 8081, la_errno = 0\<rparr>,
     cn_strerror = (\<lambda>_. []), cn_meanwhile = (\<lambda>e. e), cn_drain = (\<lambda>e. e)\<rparr>"

definition sample_terminal :: "(rat, nat, unit) terminal" where
  "sample_terminal = \<lparr>tl_engine = sample_engine, tl_disk = good_disk, tl_random = (), tl_dashboards = []\<rparr>"

lemma repl_dispatch_witness:
  "repl_command sample_console ''  search  onion vault '' [] sample_terminal =
     (searchCommand sample_console ''onion vault'' sample_terminal, [], sample_terminal, True) \<and>
   repl_command sample_console '' save '' [] sample_terminal =
     (searchCommand sample_console ''save'' sample_terminal, [], sample_terminal, True)"
proof -
  have p: "list_all is_space '' ''" "list_all is_space ''  ''" by code_simp+
  have a: "trim '' onion vault '' \<noteq> []" "trim '' onion vault '' = ''onion vault''" by code_simp+
  have s: "''save'' \<in> set argument_words" by code_simp
  note r = repl_dispatch [of _ _ "'' onion vault ''" sample_console "[]" sample_terminal]
  have "\<forall>kw \<in> set argument_words. repl_command sample_console ('' '' @ kw @ '' '') [] sample_terminal =
      (searchCommand sample_console kw sample_terminal, [], sample_terminal, True)"
    using r [OF p(1) p(1) a(1)] by blast
  from bspec [OF this s] show ?thesis
    using r [OF p(2) p(1) a(1)] by (simp add: a(2))
qed

end
