(* ===== verification/Mains.thy ===== *)
theory Mains
  imports Terminal
begin

text \<open>
  The command lines and the start of the programs: \<open>src/main.cpp\<close> (its options), \<open>src/web_main.cpp\<close>,
  \<open>src/admin_main.cpp\<close> and \<open>src/gateway_main.cpp\<close>. A program ends with an outcome, throws out of
  \<open>main\<close>, or serves until a signal stops it. What the programs serve is the subject of the root theory.
\<close>

section \<open>Options\<close>

datatype 'a start = Exits outcome | Throws | Runs 'a

text \<open>\<open>std::stoi\<close>: \<open>None\<close> is either exception, which no \<open>main\<close> catches; the port keeps the low 16 bits.\<close>

definition stoi :: "string \<Rightarrow> int option" where
  "stoi s = (case stol s of None \<Rightarrow> None | Some v \<Rightarrow> if - (2 ^ 31) \<le> v \<and> v < 2 ^ 31 then Some v else None)"

definition port_of :: "string \<Rightarrow> u16 option" where
  "port_of s = map_option word_of_int (stoi s)"

text \<open>The closure \<open>next\<close>: the following argument, or the empty string; \<open>tl\<close> is what is left.\<close>

definition next_arg :: "string list \<Rightarrow> string" where
  "next_arg rest = (if rest = [] then [] else hd rest)"

definition exits :: "string \<Rightarrow> string \<Rightarrow> int \<Rightarrow> 'a start" where
  "exits out err c = Exits \<lparr>oc_out = out, oc_err = err, oc_code = c\<rparr>"

definition tor_value_flag :: "string \<Rightarrow> bool" where
  "tor_value_flag a \<longleftrightarrow> a = ''--tor-proxy'' \<or> a = ''--onion-retries'' \<or> a = ''--circuit-rotate''"

text \<open>The terminal: an empty value is looked at, but not consumed.\<close>

function main_args :: "config \<Rightarrow> string list \<Rightarrow> config start" where
  "main_args cfg [] = Runs cfg"
| "main_args cfg (a # rest) =
     (if a = ''--stub'' then main_args (cfg\<lparr>ec_stub := True\<rparr>) rest
      else if a = ''--curl'' then main_args (cfg\<lparr>ec_stub := False\<rparr>) rest
      else if tor_value_flag a then
        let val = next_arg rest
        in main_args (snd (parseTorFlag cfg a val)) (if val \<noteq> [] then tl rest else rest)
      else if a = ''--tor-pool'' then main_args (snd (parseTorFlag cfg a [])) rest
      else if a = ''--help'' \<or> a = ''-h'' then exits (
      lit ''Usage: shadow-se [--stub|--curl] [--tor-pool] [--tor-proxy host:port,...] [--onion-retries N] [-'' @
      lit ''-circuit-rotate SECONDS]~'') [] 0
      else exits (''Unknown option: '' @ a @ '' (try --help)'' @ newline) [] 1)"
  by pat_completeness auto
termination by (relation "measure (\<lambda>(_, args). length args)") auto

definition unknown_option :: "string \<Rightarrow> 'a start" where
  "unknown_option a = exits [] (''Unknown option: '' @ a @ '' (try --help)'' @ newline) 1"

section \<open>The web front end\<close>

record web_args =
  wa_cfg :: config
  wa_port :: u16
  wa_loadPath :: string
  wa_password :: string
  wa_title :: string
  wa_seed :: bool

definition default_web_args :: web_args where
  "default_web_args = \<lparr>wa_cfg = default_config, wa_port = 8080, wa_loadPath = [], wa_password = [],
     wa_title = ''Shadow SE'', wa_seed = True\<rparr>"

function parse_web_args :: "web_args \<Rightarrow> string list \<Rightarrow> web_args start" where
  "parse_web_args wa [] = Runs wa"
| "parse_web_args wa (a # rest) =
     (if a = ''--port'' then
        (case port_of (next_arg rest) of None \<Rightarrow> Throws | Some p \<Rightarrow> parse_web_args (wa\<lparr>wa_port := p\<rparr>) (tl rest))
      else if a = ''--stub'' then parse_web_args (wa\<lparr>wa_cfg := (wa_cfg wa)\<lparr>ec_stub := True\<rparr>\<rparr>) rest
      else if a = ''--curl'' then parse_web_args (wa\<lparr>wa_cfg := (wa_cfg wa)\<lparr>ec_stub := False\<rparr>\<rparr>) rest
      else if a = ''--tor-pool'' then parse_web_args (wa\<lparr>wa_cfg := snd (parseTorFlag (wa_cfg wa) a [])\<rparr>) rest
      else if tor_value_flag a then parse_web_args (wa\<lparr>wa_cfg := snd (parseTorFlag (wa_cfg wa) a (next_arg rest))\<rparr>) (tl rest)
      else if a = ''--load'' then parse_web_args (wa\<lparr>wa_loadPath := next_arg rest\<rparr>) (tl rest)
      else if a = ''--password'' then parse_web_args (wa\<lparr>wa_password := next_arg rest\<rparr>) (tl rest)
      else if a = ''--title'' then parse_web_args (wa\<lparr>wa_title := next_arg rest\<rparr>) (tl rest)
      else if a = ''--no-seed'' then parse_web_args (wa\<lparr>wa_seed := False\<rparr>) rest
      else if a = ''--help'' \<or> a = ''-h'' then exits (
      lit ''Usage: shadow-se-web [--port N] [--stub|--curl] [--tor-pool] [--tor-proxy host:port,...] [--onio'' @
      lit ''n-retries N] [--circuit-rotate SECONDS] [--load SNAPSHOT --password PW] [--no-seed] [--title T]~'') [] 0
      else unknown_option a)"
  by pat_completeness auto
termination by (relation "measure (\<lambda>(_, args). length args)") auto

text \<open>
  What a program runs in: the platform of the engine, libsodium, the files, the answers of the socket
  calls, and the states of the network and of the random source.
\<close>

record ('d, 'w, 'r) host =
  ho_platform :: "('d, 'w) platform"
  ho_sodium :: "'r sodium"
  ho_disk :: disk
  ho_webListen :: listen_answers
  ho_adminListen :: listen_answers
  ho_bind :: bind_answers
  ho_strerror :: "int \<Rightarrow> string"
  ho_world :: 'w
  ho_random :: 'r

text \<open>A server that runs: what was printed, the engine, the listener and its options.\<close>

record ('d, 'w) web_program =
  wp_out :: string
  wp_engine :: "('d, 'w) engine"
  wp_server :: server
  wp_options :: web_options

definition load_failed :: "string \<Rightarrow> 'a start" where
  "load_failed err = exits [] (''Failed to load encrypted snapshot: '' @ err @ newline) 1"

definition web_listening :: "('d, 'w) engine \<Rightarrow> server \<Rightarrow> string" where
  "web_listening e sv =
      lit ''[*] Shadow SE web front end listening on http://127.0.0.1:'' @
      nat_to_string (unat (sv_port sv)) @
      lit ''/~    Privacy: no cookies, no logs, strict CSP, no trackers.~'' @
     (if pr_status (en_lastTor e) = TorUp then
      lit ''    Tor SOCKS5: up (onion routing available).~''
      else
      lit ''    Tor SOCKS5: down - clearweb fetching only.~'') @
      lit ''    Press Ctrl+C to stop.~''"

definition web_serve :: "('d::floor_ceiling, 'w, 'r) host \<Rightarrow> web_args \<Rightarrow> string \<Rightarrow> ('d, 'w) engine \<Rightarrow> ('d, 'w) web_program start" where
  "web_serve ho wa out e =
     (let wopts = default_web_options\<lparr>wo_port := wa_port wa, wo_pageTitle := wa_title wa\<rparr>
      in case start_server (ho_strerror ho) (ho_webListen ho) new_server of
           (Inl err, sv) \<Rightarrow> exits out (''Failed to start web server: '' @ err @ newline) 1
         | (Inr _, sv) \<Rightarrow>
             Runs \<lparr>wp_out = out @ web_listening e sv, wp_engine = e, wp_server = sv, wp_options = wopts\<rparr>)"

definition web_main :: "('d::floor_ceiling, 'w, 'r) host \<Rightarrow> string list \<Rightarrow> ('d, 'w) web_program start" where
  "web_main ho args =
     (case parse_web_args default_web_args args of
        Exits oc \<Rightarrow> Exits oc
      | Throws \<Rightarrow> Throws
      | Runs wa \<Rightarrow>
          let e = new_engine (ho_platform ho) (wa_cfg wa) (ho_world ho)
          in if wa_loadPath wa \<noteq> [] then
               (case loadEncrypted (ho_sodium ho) (wa_loadPath wa) (wa_password wa) (ho_disk ho) e of
                  (Inl err, e) \<Rightarrow> load_failed err
                | (Inr _, e) \<Rightarrow> web_serve ho wa (
      lit ''[+] Loaded '' @
      nat_to_string (documentCount (en_index e)) @
      lit '' documents from encrypted snapshot.~'') e)
             else web_serve ho wa [] (if wa_seed wa then seedDemoData e else e))"

text \<open>The end of the program, after a signal.\<close>

definition web_end :: "(('d, 'w) engine \<Rightarrow> ('d, 'w) engine) \<Rightarrow> ('d, 'w) web_program \<Rightarrow> ('d, 'w) web_program" where
  "web_end drain wp = wp\<lparr>wp_server := stop_server (wp_server wp), wp_engine := engine_shutdown drain (wp_engine wp),
     wp_out := wp_out wp @ newline @ ''[*] Shutting down web server.'' @ newline\<rparr>"

section \<open>The admin dashboard\<close>

record admin_args =
  aa_cfg :: config
  aa_port :: u16
  aa_webPort :: u16
  aa_token :: string
  aa_loadPath :: string
  aa_password :: string
  aa_onionDir :: string
  aa_serveWeb :: bool

definition default_admin_args :: admin_args where
  "default_admin_args = \<lparr>aa_cfg = default_config, aa_port = 8081, aa_webPort = 8080, aa_token = [], aa_loadPath = [],
     aa_password = [], aa_onionDir = ''onion'', aa_serveWeb = True\<rparr>"

function parse_admin_args :: "admin_args \<Rightarrow> string list \<Rightarrow> admin_args start" where
  "parse_admin_args aa [] = Runs aa"
| "parse_admin_args aa (a # rest) =
     (if a = ''--port'' then
        (case port_of (next_arg rest) of None \<Rightarrow> Throws | Some p \<Rightarrow> parse_admin_args (aa\<lparr>aa_port := p\<rparr>) (tl rest))
      else if a = ''--web-port'' then
        (case port_of (next_arg rest) of None \<Rightarrow> Throws | Some p \<Rightarrow> parse_admin_args (aa\<lparr>aa_webPort := p\<rparr>) (tl rest))
      else if a = ''--token'' then parse_admin_args (aa\<lparr>aa_token := next_arg rest\<rparr>) (tl rest)
      else if a = ''--onion-dir'' then parse_admin_args (aa\<lparr>aa_onionDir := next_arg rest\<rparr>) (tl rest)
      else if a = ''--no-web'' then parse_admin_args (aa\<lparr>aa_serveWeb := False\<rparr>) rest
      else if a = ''--tor-pool'' then parse_admin_args (aa\<lparr>aa_cfg := snd (parseTorFlag (aa_cfg aa) a [])\<rparr>) rest
      else if tor_value_flag a then parse_admin_args (aa\<lparr>aa_cfg := snd (parseTorFlag (aa_cfg aa) a (next_arg rest))\<rparr>) (tl rest)
      else if a = ''--stub'' then parse_admin_args (aa\<lparr>aa_cfg := (aa_cfg aa)\<lparr>ec_stub := True\<rparr>\<rparr>) rest
      else if a = ''--curl'' then parse_admin_args (aa\<lparr>aa_cfg := (aa_cfg aa)\<lparr>ec_stub := False\<rparr>\<rparr>) rest
      else if a = ''--load'' then parse_admin_args (aa\<lparr>aa_loadPath := next_arg rest\<rparr>) (tl rest)
      else if a = ''--password'' then parse_admin_args (aa\<lparr>aa_password := next_arg rest\<rparr>) (tl rest)
      else if a = ''--help'' \<or> a = ''-h'' then exits (
      lit ''Usage: shadow-se-admin [--port 8081] [--web-port 8080] [--token T] [--onion-dir DIR] [--stub|--c'' @
      lit ''url] [--tor-pool] [--tor-proxy host:port,...] [--onion-retries N] [--circuit-rotate SECONDS] [--'' @
      lit ''load SNAP --password PW]~'') [] 0
      else unknown_option a)"
  by pat_completeness auto
termination by (relation "measure (\<lambda>(_, args). length args)") auto

text \<open>Both callbacks are set: the workers' reports are recorded from now on.\<close>

definition set_callbacks :: "('d, 'w) engine \<Rightarrow> ('d, 'w) engine" where
  "set_callbacks e = e\<lparr>en_world := (en_world e)\<lparr>w_onDoc := Some [], w_onErr := Some []\<rparr>\<rparr>"

record ('d, 'w, 'r) admin_program =
  ap_out :: string
  ap_engine :: "('d, 'w) engine"
  ap_log :: activity_log
  ap_web :: "server option"
  ap_server :: server
  ap_options :: admin_options
  ap_token :: string
  ap_random :: 'r

definition admin_banner :: "server option \<Rightarrow> server \<Rightarrow> string \<Rightarrow> string" where
  "admin_banner webo admin token =
      lit ''==============================================================~'' @
     (case webo of
        Some web \<Rightarrow>
      lit ''  Public web UI (onion) : http://127.0.0.1:'' @
      nat_to_string (unat (sv_port web)) @
      lit ''/~''
      | None \<Rightarrow>
      lit ''  Public web UI         : running separately (see start.sh)~'') @
      lit ''  ADMIN DASHBOARD       : http://127.0.0.1:'' @
      nat_to_string (unat (sv_port admin)) @
      lit ''/?t='' @
      token @
      lit ''~  Admin token           : '' @
      token @
      lit ''~  (loopback only + token required; Ctrl+C to stop)~============================================'' @
      lit ''==================~''"

text \<open>The public web page, unless it runs elsewhere, then the dashboard.\<close>

definition admin_web :: "('d, 'w, 'r) host \<Rightarrow> admin_args \<Rightarrow> string + server option" where
  "admin_web ho aa =
     (if aa_serveWeb aa then
        (case start_server (ho_strerror ho) (ho_webListen ho) new_server of
           (Inl err, sv) \<Rightarrow> Inl (''Failed to start web UI on port '' @ nat_to_string (unat (aa_webPort aa)) @ '': '' @ err @ newline)
         | (Inr _, sv) \<Rightarrow> Inr (Some sv))
      else Inr None)"

definition admin_serve :: "('d, 'w, 'r) host \<Rightarrow> admin_args \<Rightarrow> string \<Rightarrow> ('d, 'w) engine \<Rightarrow> ('d, 'w, 'r) admin_program start" where
  "admin_serve ho aa out e =
     (let e = set_callbacks e
      in case admin_web ho aa of
           Inl err \<Rightarrow> exits out err 1
         | Inr webo \<Rightarrow>
             let aopts = default_admin_options\<lparr>ao_port := aa_port aa, ao_token := aa_token aa,
                   ao_onionHostnameFile := aa_onionDir aa @ ''/tor_data/hidden/hostname''\<rparr>;
                 (token, r) = admin_token (ho_sodium ho) aopts (ho_random ho)
             in case admin_start (ho_strerror ho) (ho_adminListen ho) new_server of
                  (Inl err, sv) \<Rightarrow> exits out (''Failed to start admin dashboard: '' @ err @ newline) 1
                | (Inr _, sv) \<Rightarrow>
                    Runs \<lparr>ap_out = out @ admin_banner webo sv token, ap_engine = e, ap_log = new_log 200, ap_web = webo,
                      ap_server = sv, ap_options = aopts, ap_token = token, ap_random = r\<rparr>)"

definition admin_main :: "('d::floor_ceiling, 'w, 'r) host \<Rightarrow> string list \<Rightarrow> ('d, 'w, 'r) admin_program start" where
  "admin_main ho args =
     (case parse_admin_args default_admin_args args of
        Exits oc \<Rightarrow> Exits oc
      | Throws \<Rightarrow> Throws
      | Runs aa \<Rightarrow>
          let e = new_engine (ho_platform ho) (aa_cfg aa) (ho_world ho)
          in if aa_loadPath aa \<noteq> [] then
               (case loadEncrypted (ho_sodium ho) (aa_loadPath aa) (aa_password aa) (ho_disk ho) e of
                  (Inl err, e) \<Rightarrow> load_failed err
                | (Inr _, e) \<Rightarrow> admin_serve ho aa (
      lit ''[+] Loaded '' @
      nat_to_string (documentCount (en_index e)) @
      lit '' documents from encrypted snapshot.~'') e)
             else admin_serve ho aa [] (seedDemoData e))"

definition admin_end :: "(('d, 'w) engine \<Rightarrow> ('d, 'w) engine) \<Rightarrow> ('d, 'w, 'r) admin_program \<Rightarrow> ('d, 'w, 'r) admin_program" where
  "admin_end drain ap = ap\<lparr>ap_server := admin_stop (ap_server ap), ap_web := map_option stop_server (ap_web ap),
     ap_engine := engine_shutdown drain (ap_engine ap), ap_out := ap_out ap @ newline @ ''[*] Admin dashboard stopped.'' @ newline\<rparr>"

section \<open>The gateway\<close>

record gateway_args =
  ga_cfg :: config
  ga_port :: u16
  ga_loadPath :: string
  ga_password :: string

definition default_gateway_args :: gateway_args where
  "default_gateway_args = \<lparr>ga_cfg = default_config, ga_port = 8090, ga_loadPath = [], ga_password = []\<rparr>"

function parse_gateway_args :: "gateway_args \<Rightarrow> string list \<Rightarrow> gateway_args start" where
  "parse_gateway_args ga [] = Runs ga"
| "parse_gateway_args ga (a # rest) =
     (if a = ''--port'' then
        (case port_of (next_arg rest) of None \<Rightarrow> Throws | Some p \<Rightarrow> parse_gateway_args (ga\<lparr>ga_port := p\<rparr>) (tl rest))
      else if a = ''--stub'' then parse_gateway_args (ga\<lparr>ga_cfg := (ga_cfg ga)\<lparr>ec_stub := True\<rparr>\<rparr>) rest
      else if a = ''--curl'' then parse_gateway_args (ga\<lparr>ga_cfg := (ga_cfg ga)\<lparr>ec_stub := False\<rparr>\<rparr>) rest
      else if a = ''--tor-pool'' then parse_gateway_args (ga\<lparr>ga_cfg := snd (parseTorFlag (ga_cfg ga) a [])\<rparr>) rest
      else if tor_value_flag a then parse_gateway_args (ga\<lparr>ga_cfg := snd (parseTorFlag (ga_cfg ga) a (next_arg rest))\<rparr>) (tl rest)
      else if a = ''--load'' then parse_gateway_args (ga\<lparr>ga_loadPath := next_arg rest\<rparr>) (tl rest)
      else if a = ''--password'' then parse_gateway_args (ga\<lparr>ga_password := next_arg rest\<rparr>) (tl rest)
      else if a = ''--help'' \<or> a = ''-h'' then exits (
      lit ''Usage: shadow-se-gateway [--port 8090] [--stub|--curl] [--tor-pool] [--tor-proxy host:port,...] '' @
      lit ''[--onion-retries N] [--circuit-rotate SECONDS] [--load SNAP --password PW]~'') [] 0
      else unknown_option a)"
  by pat_completeness auto
termination by (relation "measure (\<lambda>(_, args). length args)") auto

record ('d, 'w) gateway_program =
  gp_out :: string
  gp_engine :: "('d, 'w) engine"
  gp_port :: u16
  gp_options :: gateway_options

definition gateway_banner :: "u16 \<Rightarrow> string" where
  "gateway_banner port =
      lit ''[*] Shadow SE JSON gateway on http://127.0.0.1:'' @
      nat_to_string (unat port) @
      lit ''/~    GET  /search?q=...   POST /search {`q`:`...`}~    GET  /crawl?url=...  POST /crawl {`url`:'' @
      lit ''`...`}~    GET  /status~    (loopback only; Ctrl+C to stop)~''"

definition gateway_serve :: "('d, 'w, 'r) host \<Rightarrow> gateway_args \<Rightarrow> ('d, 'w) engine \<Rightarrow> ('d, 'w) gateway_program start" where
  "gateway_serve ho ga e =
     (let gopts = default_gateway_options\<lparr>go_port := ga_port ga\<rparr>
      in case gateway_start (ho_bind ho) gopts 0 of
           (Inl err, port) \<Rightarrow> exits [] (''Failed to start gateway: '' @ err @ newline) 1
         | (Inr _, port) \<Rightarrow> Runs \<lparr>gp_out = gateway_banner port, gp_engine = e, gp_port = port, gp_options = gopts\<rparr>)"

definition gateway_main :: "('d::floor_ceiling, 'w, 'r) host \<Rightarrow> string list \<Rightarrow> ('d, 'w) gateway_program start" where
  "gateway_main ho args =
     (case parse_gateway_args default_gateway_args args of
        Exits oc \<Rightarrow> Exits oc
      | Throws \<Rightarrow> Throws
      | Runs ga \<Rightarrow>
          let e = new_engine (ho_platform ho) (ga_cfg ga) (ho_world ho)
          in if ga_loadPath ga \<noteq> [] then
               (case loadEncrypted (ho_sodium ho) (ga_loadPath ga) (ga_password ga) (ho_disk ho) e of
                  (Inl err, e) \<Rightarrow> load_failed err
                | (Inr _, e) \<Rightarrow> gateway_serve ho ga e)
             else gateway_serve ho ga (seedDemoData e))"

definition gateway_end :: "(('d, 'w) engine \<Rightarrow> ('d, 'w) engine) \<Rightarrow> ('d, 'w) gateway_program \<Rightarrow> ('d, 'w) gateway_program" where
  "gateway_end drain gp = gp\<lparr>gp_engine := engine_shutdown drain (gp_engine gp),
     gp_out := gp_out gp @ newline @ ''[*] Gateway stopped.'' @ newline\<rparr>"

section \<open>The terminal\<close>

definition integrity_report :: "('d \<Rightarrow> string) \<Rightarrow> ('d::field_char_0, 'w) engine \<Rightarrow> string" where
  "integrity_report fixed1 e =
      cBOLD @
      utf8_bytes [226, 148, 140, 226, 148, 128, 226, 148, 128] @
      lit '' [ SYSTEM INTEGRITY & PROXY STATUS ]'' @
      cRESET @
      lit ''~'' @
     printTorStatus (en_lastTor e) @
     printStats fixed1 e @
      lit ''  ['' @
      cGREEN @
      lit ''OK '' @
      cRESET @
      lit ''] Cryptographic Engine Ready. Zero Memory Leaks Detected.~~''"

text \<open>
  The whole program over the lines of its input; the banner stands for what the header and the
  spinner print. At the end of the input the engine is shut down by its destructor.
\<close>

definition terminal_main :: "('d::floor_ceiling, 'w, 'r) console \<Rightarrow> ('d, 'w, 'r) host \<Rightarrow> string \<Rightarrow> string list \<Rightarrow> string list \<Rightarrow>
    outcome start" where
  "terminal_main cn ho banner args ins =
     (case main_args default_config args of
        Exits oc \<Rightarrow> Exits oc
      | Throws \<Rightarrow> Throws
      | Runs cfg \<Rightarrow>
          let e = set_callbacks (seedDemoData (new_engine (cn_platform cn) cfg (ho_world ho)));
              tm = \<lparr>tl_engine = e, tl_disk = ho_disk ho, tl_random = ho_random ho, tl_dashboards = []\<rparr>;
              (out, tm) = repl cn ins tm
          in exits (banner @ integrity_report (cn_fixed1 cn) e @ out) [] 0)"

end
