(* ===== verification/Spec2Isabelle.thy ===== *)
theory Spec2Isabelle
  imports Bm25 Crawl_System Mains
begin

text \<open>
  A verification library for Shadow SE, a small search engine in C++20 (sources under \<open>src/\<close>). The
  program crawls web and onion pages through a polite, multi-threaded crawler, indexes them in an
  inverted index ranked by BM25, stores the index in plain or encrypted snapshots, and offers it in
  a terminal, on a web page, on an admin dashboard and as a JSON gateway.

  Parts, theories and sources.

  \<^item> \<open>Prelude\<close>: words, characters, \<open>trim\<close>, searching in strings, decimal and hexadecimal digits.
  \<^item> \<open>Document\<close>, \<open>Tokenizer\<close>, \<open>Inverted_Index\<close>, \<open>Bm25\<close>: \<open>document.hpp\<close>, \<open>tokenizer.cpp\<close>,
    \<open>inverted_index.cpp\<close>, \<open>bm25.cpp\<close>. The index is a record of association lists for the code's hash
    maps; every public operation is one atomic step, as its mutex makes it.
  \<^item> \<open>Bloom\<close>, \<open>Stub_Fetcher\<close>, \<open>Robots\<close>, \<open>Html\<close>, \<open>Crawler\<close>, \<open>Process\<close>, \<open>Crawl_System\<close>:
    \<open>bloom_filter.cpp\<close>, \<open>fetcher.cpp\<close>, \<open>robots_txt.cpp\<close>, \<open>crawler.cpp\<close>. \<open>Crawler\<close> has the critical sections as
    functions and a step relation that interleaves them; \<open>Process\<close> is what a worker does with one page;
    \<open>Crawl_System\<close> cuts that at every lock, fetch and clock reading and interleaves any number of workers
    and clients.
  \<^item> \<open>Crypto\<close>, \<open>Snapshot\<close>, \<open>Json\<close>: \<open>crypto.cpp\<close>, \<open>snapshot.cpp\<close>, \<open>json.cpp\<close>.
  \<^item> \<open>Tor_Proxy\<close>, \<open>Tor_Manager\<close>, \<open>Curl_Fetcher\<close>: \<open>tor_proxy.cpp\<close>, \<open>tor_proxy_manager.cpp\<close>,
    \<open>tor_proxy_pool.cpp\<close>, the libcurl part of \<open>fetcher.cpp\<close>. The virtual calls of a manager are a record
    of functions that both managers provide and the fetcher uses.
  \<^item> \<open>Engine\<close>: \<open>engine.cpp\<close> and \<open>parseTorFlag\<close>, the facade that owns index, crawler, fetcher and manager.
  \<^item> \<open>Http\<close>, \<open>Web\<close>, \<open>Admin\<close>, \<open>Gateway\<close>: \<open>web_server.cpp\<close>, \<open>admin.cpp\<close>, \<open>gateway.cpp\<close>; \<open>Http\<close> has what
    the two socket servers share.
  \<^item> \<open>Keygen\<close>, \<open>Terminal\<close>, \<open>Mains\<close>: \<open>se_keygen.cpp\<close>, \<open>main.cpp\<close>, \<open>web_main.cpp\<close>, \<open>admin_main.cpp\<close>,
    \<open>gateway_main.cpp\<close>.

  Interaction. A front end calls the engine (\<open>search\<close>, \<open>crawl\<close>, \<open>saveState\<close>, ...); \<open>crawl\<close> enqueues a URL
  in the frontier; a worker takes an item, runs \<open>process\<close>, which asks \<open>Robots\<close>, waits for its turn on
  the domain, fetches through a fetcher and, in turn, the manager, extracts text and links with \<open>Html\<close>,
  adds the document to the index and enqueues the links. Interfaces are locales, each interpreted on
  the code's definitions: \<open>document_store\<close> (the index), \<open>duplicate_filter\<close> (the Bloom filter under the
  frontier), \<open>codec\<close> (the fields of a snapshot), \<open>proxy_manager\<close> (default manager, pool and the engine's
  dispatch on both), \<open>accept_loop\<close> (the web front end and the dashboard), \<open>page_marker\<close> (what a page gives rise to
  at most once: its fetch, its indexing) and \<open>log_like\<close> (the logarithm the
  ranker needs).

  What the lemmas show. Index: after any sequence of operations the postings, lengths and counts are
  exactly those of the stored documents; adding, removing and replacing refine a map from URLs to
  documents. Ranking equals the textbook score. Frontier: one invariant for every interleaving, from
  which come the page cap, no page twice, the priority order and the draining after a stop. A page
  is processed in bounded time, obeys the robots policy and touches frontier and index as specified.
  For workers that interleave phase by phase: one alone computes \<open>process\<close>; in every run no page is
  fetched or indexed twice, none against a loaded policy, and the index is exactly what the fetched pages
  make it; the politeness gap holds for one worker and fails for two (\<open>politeness_race\<close>).
  Snapshots and JSON are read back as they were written, damaged files are refused, an encrypted one
  that loads was sealed under the password's key. An onion address is never contacted directly.
  Pages carry no foreign markup, the dashboard tells nothing without the token, the gateway's answers
  have their types, lines and options reach the commands they name, and (below) a server listens on
  the loopback address only and first serves nothing but the demo corpus or an opened snapshot, and
  a search after any concurrent crawl answers with exactly the fetched pages that share a word with it.

  Bounds and fuel. Machine integers keep their width where the code's do: 64-bit identifiers and
  lengths (claims assume that they did not run out), 32-bit frequencies and depths, 16-bit ports. The
  JSON parser recurses under a fuel of twice the length of the text plus one, and is shown never to
  run out of it. Waiting for the politeness gap is a partial function that is shown to return under
  a growing clock; every other loop is a terminating function. Snapshot sizes are bounded as in the
  code (ten million documents).

  Idealised. Doubles are elements of an ordered field (with floor where numbers are printed), so
  rounding is not modelled; hash maps keep insertion order where the code's order is unspecified and
  no claim depends on it; sizes and strings are unbounded, so running out of memory is not modelled.

  Parameters. libsodium, libcurl, the socket calls, the clock, the file system, \<open>std::hash\<close>, the
  logarithm, \<open>std::strtod\<close> and the printing of doubles, random numbers, what crawler threads do between
  two commands. Laws a claim needs of them are named hypotheses with a concrete instance in the witness.

  Not modelled. The terminal's banner and spinner thread and its echo switching (no state), timeouts
  and socket options, signal handlers and the waiting loops around them, the no-op control port calls
  of the proxy managers, wiping keys from memory, the mutexes themselves (each critical section is
  one step) and memory safety of the detached client threads; of httplib only the routing of a request
  and its default statuses (\<open>src/third_party/httplib.h\<close>); tests, shell scripts and onion configuration.
\<close>

section \<open>What a started program serves\<close>












definition failed_start :: "outcome \<Rightarrow> bool" where
  "failed_start oc \<longleftrightarrow> oc_code oc = 1 \<and> oc_err oc \<noteq> []"

definition help_shown :: "outcome \<Rightarrow> bool" where
  "help_shown oc \<longleftrightarrow> oc_code oc = 0 \<and> oc_err oc = []"

definition good_start :: "('a \<Rightarrow> bool) \<Rightarrow> 'a start \<Rightarrow> bool" where
  "good_start ok st = (case st of Runs x \<Rightarrow> ok x | Exits oc \<Rightarrow> failed_start oc \<or> help_shown oc | Throws \<Rightarrow> True)"

lemma good_start_simps [simp]:
  "good_start ok (Runs x) = ok x" "good_start ok Throws" "good_start ok (exits out [] 0)"
  "err \<noteq> [] \<Longrightarrow> good_start ok (exits out err 1)" "good_start ok (load_failed e)" "good_start ok (unknown_option a)"
  by (simp_all add: good_start_def exits_def load_failed_def unknown_option_def failed_start_def help_shown_def)















section \<open>What is crawled is found\<close>

lemma doc_terms_strip: "doc_terms (strip_id d) = doc_terms d"
  by (simp add: doc_terms_def strip_id_def)

lemma matches_length:
  assumes "index_inv s" "small_docs (allDocuments s)"
  shows "length (matches lg k1 b s qs) \<le> documentCount s"
proof -
  let ?m = "map sc_doc (matches lg k1 b s qs)"
  have "length ?m = card (set ?m)" using matches_props(3) [OF assms, of lg k1 b qs] by (simp only: distinct_card)
  also have "set ?m \<subseteq> set (allDocuments s)" using matches_props(2) [OF assms, of lg k1 b qs] by auto
  then have "card (set ?m) \<le> card (set (allDocuments s))" by (intro card_mono) simp_all
  also have "\<dots> \<le> documentCount s" by (simp add: documentCount_all card_length)
  finally show ?thesis by simp
qed

lemma image_filter: "(\<And>x. P (f x) = P x) \<Longrightarrow> f ` {x \<in> A. P x} = {y \<in> f ` A. P y}"
  by blast

text \<open>A search with room for every document answers with exactly the documents that share a word with the query.\<close>

lemma search_answers:
  assumes "index_inv s" "small_docs (allDocuments s)" "documentCount s \<le> limit"
  shows "sc_doc ` set (search lg s query limit) = {d \<in> set (allDocuments s). set (tokenize query) \<inter> doc_terms d \<noteq> {}}"
proof -
  let ?m = "matches lg (12 / 10) (75 / 100) s (tokenize query)"
  have "length ?m \<le> limit" using order_trans [OF matches_length [OF assms(1,2)] assms(3)] .
  then have "set (search lg s query limit) = set ?m" by (simp add: search_def rank_matches [OF assms(1,2)])
  then show ?thesis using matches_props(2) [OF assms(1,2), of lg "12 / 10" "75 / 100" "tokenize query"] by simp
qed

lemma stored_documents:
  assumes "index_inv s" "index_view s = by_url ds" "distinct (map doc_url ds)" "\<forall>d\<in>set ds. strip_id d = d"
  shows "strip_id ` set (allDocuments s) = set ds" "documentCount s = length ds"
proof -
  have dist: "distinct (map doc_url (allDocuments s))" by (rule inv_distinct_urls [OF assms(1)])
  have "x \<in> strip_id ` set (allDocuments s) \<longleftrightarrow> by_url (allDocuments s) (doc_url x) = Some x" for x
    unfolding by_url_iff [OF dist] by (auto simp: strip_id_def)
  moreover have "x \<in> set ds \<longleftrightarrow> by_url ds (doc_url x) = Some x" for x
    using assms(4) unfolding by_url_iff [OF assms(3)] by auto
  ultimately show eq: "strip_id ` set (allDocuments s) = set ds"
    using by_url_allDocuments [OF assms(1)] assms(2) by auto
  have "doc_url ` strip_id ` set (allDocuments s) = doc_url ` set (allDocuments s)"
    by (simp add: image_image strip_id_def)
  then have "set (map doc_url (allDocuments s)) = set (map doc_url ds)" unfolding eq by simp
  then have "length (map doc_url (allDocuments s)) = length (map doc_url ds)"
    using dist assms(3) by (metis distinct_card)
  then show "documentCount s = length ds" by (simp add: documentCount_all)
qed

text \<open>
  C5: What was crawled is what is found: after any interleaving of workers and clients, a search (with room for
  a page cap of results) answers with indexed pages only, and with a page exactly when the query shares a word
  with its title or with the description or the visible text of what was fetched from its URL.
\<close>

theorem crawl_search_exact:
  assumes run: "sys_run h fetch clock (start_system (fresh_world lg opts net)) es s" and cap: "o_maxPages opts < 2 ^ 64 - 1"
    and small: "small_docs (allDocuments (w_index (sy_world s)))" and limit: "o_maxPages opts \<le> limit"
  shows "let results = (strip_id \<circ> sc_doc) ` set (search ln' (w_index (sy_world s)) query limit)
    in results \<subseteq> set (indexed_docs es) \<and>
      (\<forall>doc\<in>set (indexed_docs es). \<exists>i res. Fetches i (doc_url doc) res \<in> set es \<and> fr_ok res \<and>
         (doc \<in> results \<longleftrightarrow> set (tokenize query) \<inter>
            (set (tokenize (doc_title doc)) \<union> set (tokenize (htmlExtractDescription (fr_html res))) \<union>
             set (tokenize (htmlStripTags (fr_html res)))) \<noteq> {}))"
proof -
  let ?ix = "w_index (sy_world s)"
  note ix = sys_run_index [OF run cap]
  have strip: "strip_id d = d" if mem: "d \<in> set (indexed_docs es)" for d
  proof -
    obtain depth html where "d = page_document (doc_url d) depth html" using bspec [OF ix(5) mem] by blast
    then have "doc_id d = 0" by (metis page_document_id)
    then show ?thesis by (simp add: strip_id_def)
  qed
  note st = stored_documents [OF ix(1-3)]
  have all: "strip_id ` set (allDocuments ?ix) = set (indexed_docs es)" and n: "documentCount ?ix \<le> limit"
    using st strip ix(4) limit by simp_all
  let ?found = "\<lambda>d. set (tokenize query) \<inter> doc_terms d \<noteq> {}"
  have "(strip_id \<circ> sc_doc) ` set (search ln' ?ix query limit) = strip_id ` {d \<in> set (allDocuments ?ix). ?found d}"
    unfolding image_comp [symmetric] search_answers [OF ix(1) small n] ..
  also have "\<dots> = {d \<in> strip_id ` set (allDocuments ?ix). ?found d}"
    by (rule image_filter) (simp only: doc_terms_strip)
  finally have results: "(strip_id \<circ> sc_doc) ` set (search ln' ?ix query limit) = {d \<in> set (indexed_docs es). ?found d}"
    unfolding all .
  have "\<exists>i res. Fetches i (doc_url doc) res \<in> set es \<and> fr_ok res \<and>
      (doc \<in> {d \<in> set (indexed_docs es). ?found d} \<longleftrightarrow> set (tokenize query) \<inter>
        (set (tokenize (doc_title doc)) \<union> set (tokenize (htmlExtractDescription (fr_html res))) \<union>
         set (tokenize (htmlStripTags (fr_html res)))) \<noteq> {})" if "doc \<in> set (indexed_docs es)" for doc
  proof -
    obtain i res depth where f: "Fetches i (doc_url doc) res \<in> set es" "fr_ok res"
      "doc = page_document (doc_url doc) depth (fr_html res)" using ix(5) \<open>doc \<in> set (indexed_docs es)\<close> by blast
    from f(3) have "doc_snippet doc = htmlExtractDescription (fr_html res)" "doc_content doc = htmlStripTags (fr_html res)"
      by (metis page_document_text)+
    with f that show ?thesis by (auto simp: doc_terms_def)
  qed
  then show ?thesis unfolding results Let_def by blast
qed

theorem crawl_search_exact_witness:
  "\<exists>s. sys_run (\<lambda>x. 0) tiny_page solo_clock (start_system (fresh_world (\<lambda>x :: rat. x - 1) solo_options 0)) solo_events s \<and>
     page_document ''http://a/'' 0 ''hi'' \<in> (strip_id \<circ> sc_doc) ` set (search (\<lambda>x :: rat. x) (w_index (sy_world s)) ''Hi!'' 64)"
proof -
  let ?d = "page_document ''http://a/'' 0 ''hi''"
  obtain s where s: "sys_run (\<lambda>x. 0) tiny_page solo_clock (start_system (fresh_world (\<lambda>x :: rat. x - 1) solo_options 0)) solo_events s"
    using solo_run by blast
  have d: "indexed_docs solo_events = [?d]" by (simp add: solo_events_def indexed_docs_def)
  have cap: "o_maxPages solo_options < 2 ^ 64 - 1" by (simp add: solo_pages)
  note ix = sys_run_index [OF s cap, unfolded d]
  have "doc_id ?d = 0" by (simp add: page_document_id)
  then have "strip_id ` set (allDocuments (w_index (sy_world s))) = {?d}" "documentCount (w_index (sy_world s)) = 1"
    using stored_documents [OF ix(1-3)] by (simp_all add: strip_id_def)
  then obtain e where e: "allDocuments (w_index (sy_world s)) = [e]" "strip_id e = ?d"
    by (auto simp: documentCount_all length_Suc_conv)
  have "doc_tokens ?d = 7" by code_simp
  moreover have "doc_tokens e = doc_tokens (strip_id e)" by (simp add: strip_id_def doc_tokens_def)
  ultimately have small: "small_docs (allDocuments (w_index (sy_world s)))" using e by (simp add: small_docs_def)
  have common: "set (tokenize ''Hi!'') \<inter> set (tokenize (htmlStripTags ''hi'')) \<noteq> {}" by code_simp
  have "res = \<lparr>fr_ok = True, fr_html = ''hi'', fr_error = []\<rparr>" if "Fetches i u res \<in> set solo_events" for i u res
    using that by (simp add: solo_events_def)
  with crawl_search_exact [OF s cap small, of 64 "\<lambda>x :: rat. x" "''Hi!''"] s common show ?thesis
    by (fastforce simp: d solo_pages Let_def)
qed

end
